(* ===== verification/Prelude.thy ===== *)
theory Prelude
  imports Main "HOL-Library.Word"
begin

unbundle bit_operations_syntax

text \<open>
  Shared vocabulary of the powersuit firmware model: the C integer types as words of
  their width, the byte view of memory, the error codes the ESP-IDF API returns, and
  the generic facts about words and lists that the component theories rest on.

  Conventions. A C \<open>uint8_t/uint16_t/uint32_t\<close> is a word of that width, so arithmetic
  wraps as in C. A signed 16- or 32-bit value is either such a word read by \<open>sint\<close>
  (when it comes off the wire) or an \<open>int\<close> whose range a lemma bounds. A byte buffer is
  a list of \<open>u8\<close>; a C write through a pointer is a list update that keeps the length.
\<close>

type_synonym u8 = "8 word"
type_synonym u16 = "16 word"
type_synonym u32 = "32 word"
type_synonym i16 = "16 word" \<comment> \<open>read with \<open>sint\<close>\<close>
type_synonym i32 = "32 word" \<comment> \<open>likewise\<close>
type_synonym bytes = "u8 list"

section \<open>Collections of facts\<close>

named_theorems wire_simps \<open>definitions of wire codecs, unfolded when a codec law is proved\<close>
named_theorems mask_simps \<open>bit masks written as numerals, as \<open>take_bit\<close>\<close>
named_theorems port_simps \<open>routing ports and node numbers as numerals\<close>

section \<open>Platform error codes\<close>

text \<open>The \<open>esp_err_t\<close> values the firmware returns and tests.\<close>

datatype esp_err =
    ESP_OK | ESP_FAIL | ESP_ERR_NO_MEM | ESP_ERR_INVALID_ARG | ESP_ERR_INVALID_STATE
  | ESP_ERR_TIMEOUT | ESP_ERR_NOT_SUPPORTED

section \<open>Words\<close>

lemma and_mask1 [mask_simps]: "x AND 1 = take_bit 1 x" for x :: "'a::len word"
  by (simp add: take_bit_eq_mask mask_eq_exp_minus_1)

lemma and_mask3 [mask_simps]: "x AND 7 = take_bit 3 x" for x :: "'a::len word"
  by (simp add: take_bit_eq_mask mask_eq_exp_minus_1)

lemma and_mask4 [mask_simps]: "x AND 15 = take_bit 4 x" for x :: "'a::len word"
  by (simp add: take_bit_eq_mask mask_eq_exp_minus_1)

lemma and_mask5 [mask_simps]: "x AND 31 = take_bit 5 x" for x :: "'a::len word"
  by (simp add: take_bit_eq_mask mask_eq_exp_minus_1)

lemma and_mask8 [mask_simps]: "x AND 255 = take_bit 8 x" for x :: "'a::len word"
  by (simp add: take_bit_eq_mask mask_eq_exp_minus_1)

lemma and_mask29 [mask_simps]: "x AND 0x1FFFFFFF = take_bit 29 x" for x :: "'a::len word"
  by (simp add: take_bit_eq_mask mask_eq_exp_minus_1)

lemma bit_u8_less [dest]: "bit (x :: u8) n \<Longrightarrow> n < 8"
  by (drule bit_imp_le_length) simp

lemma bit_u16_less [dest]: "bit (x :: u16) n \<Longrightarrow> n < 16"
  by (drule bit_imp_le_length) simp

lemma bit_u32_less [dest]: "bit (x :: u32) n \<Longrightarrow> n < 32"
  by (drule bit_imp_le_length) simp

lemma unat_u8_u32 [simp]: "unat (ucast (v :: u8) :: u32) = unat v"
  using unsigned_less [where 'a = nat, of v] by (simp add: unsigned_ucast_eq take_bit_nat_eq_self)

lemma unat_u8_less: "unat (v :: u8) < 256"
  using unsigned_less [where 'a = nat, of v] by simp

text \<open>A word is smaller than another when its high part is.\<close>

lemma unat_drop_bit_word: "unat (drop_bit n w) = unat w div 2 ^ n"
  by (simp only: unat_drop_bit_eq) (simp add: drop_bit_eq_div)

lemma take_bit_unat_small: "unat x < 2 ^ n \<Longrightarrow> take_bit n x = x"
  by (rule word_unat_eq_iff [THEN iffD2]) (simp only: unsigned_take_bit_eq take_bit_nat_eq_self)

lemma unat_take_bit_less: "unat (take_bit n x) < 2 ^ n"
  by (simp only: unsigned_take_bit_eq take_bit_nat_less_exp)

lemma drop_bit_less_imp_less:
  fixes a b :: "'a::len word"
  assumes "drop_bit n a < drop_bit n b"
  shows "a < b"
proof -
  have "unat a div 2 ^ n < unat b div 2 ^ n"
    using assms by (simp add: word_less_nat_alt unat_drop_bit_word)
  then show ?thesis
    by (metis div_le_mono leD leI word_le_nat_alt)
qed

text \<open>The saturation of a 32-bit count to the 16 bits a statistics frame has for it.\<close>

definition sat16 :: "u32 \<Rightarrow> u16" where
  "sat16 x = ucast (if x > 0xFFFF then 0xFFFF else x)"

section \<open>Lists used as memory\<close>

text \<open>The bytes at offset \<open>off\<close>, \<open>n\<close> of them: a C pointer \<open>buf + off\<close> read for \<open>n\<close> bytes.\<close>

definition window :: "nat \<Rightarrow> nat \<Rightarrow> 'a list \<Rightarrow> 'a list" where
  "window off n xs = take n (drop off xs)"

text \<open>\<open>memcpy(buf + off, src, length src)\<close> into a buffer that is long enough.\<close>

definition blit :: "nat \<Rightarrow> 'a list \<Rightarrow> 'a list \<Rightarrow> 'a list" where
  "blit off src xs = take off xs @ src @ drop (off + length src) xs"

lemma length_window [simp]: "length (window off n xs) = min n (length xs - off)"
  by (simp add: window_def)

lemma length_blit [simp]: "off + length src \<le> length xs \<Longrightarrow> length (blit off src xs) = length xs"
  by (simp add: blit_def)

lemma nth_blit:
  assumes "off + length src \<le> length xs" "i < length xs"
  shows "blit off src xs ! i =
    (if off \<le> i \<and> i < off + length src then src ! (i - off) else xs ! i)"
  using assms by (auto simp: blit_def nth_append min_def)

lemma nth_window: "i < n \<Longrightarrow> off + i < length xs \<Longrightarrow> window off n xs ! i = xs ! (off + i)"
  by (simp add: window_def)

lemma window_blit_same:
  assumes "off + length src \<le> length xs" "n = length src"
  shows "window off n (blit off src xs) = src"
  using assms by (simp add: window_def blit_def)

lemma window_blit_disjoint:
  assumes "off + length src \<le> length xs" "o2 + n \<le> length xs"
    and "o2 + n \<le> off \<or> off + length src \<le> o2"
  shows "window o2 n (blit off src xs) = window o2 n xs"
  using assms by (intro nth_equalityI) (auto simp: nth_window nth_blit)

lemma list_update_blit: "i < length xs \<Longrightarrow> xs[i := v] = blit i [v] xs"
  by (simp add: blit_def upd_conv_take_nth_drop)

lemma blit_adjacent:
  assumes "off + length as + length bs \<le> length xs"
  shows "blit (off + length as) bs (blit off as xs) = blit off (as @ bs) xs"
proof (cases "as = []")
  case False
  then have "\<not> length xs \<le> off" using assms by (cases as) auto
  then show ?thesis using assms by (auto simp: blit_def min_def ac_simps)
qed (simp add: blit_def)

lemma blit_Nil [simp]: "blit off [] xs = xs"
  by (simp add: blit_def)

lemma nth_window_all: "n \<le> length xs \<Longrightarrow> window 0 n xs = take n xs"
  by (simp add: window_def)

lemma window_window: "o2 + n2 \<le> n \<Longrightarrow> window o2 n2 (window off n p) = window (off + o2) n2 p"
  by (simp add: window_def take_drop ac_simps min_def)

lemma blit_middle:
  "k = length pre \<Longrightarrow> length old = length src \<Longrightarrow> blit k src (pre @ old @ post) = pre @ src @ post"
  by (simp add: blit_def)

lemma window_concat:
  assumes "\<forall>x \<in> set xs. length (f x) = k" "i < length xs"
  shows "window (i * k) k (concat (map f xs) @ rest) = f (xs ! i)"
  using assms
proof (induction xs arbitrary: i)
  case (Cons x xs)
  then show ?case by (cases i) (simp_all add: window_def)
qed simp

section \<open>Little-endian memory\<close>

text \<open>The bytes of an integer in memory order, and the integer a sequence of bytes holds
  (both ESP32 targets are little-endian).\<close>

definition le_bytes16 :: "u16 \<Rightarrow> bytes" where
  "le_bytes16 v = [ucast v, ucast (drop_bit 8 v)]"

definition le_bytes32 :: "u32 \<Rightarrow> bytes" where
  "le_bytes32 v = [ucast v, ucast (drop_bit 8 v), ucast (drop_bit 16 v), ucast (drop_bit 24 v)]"

definition ld16 :: "u8 \<Rightarrow> u8 \<Rightarrow> u16" where
  "ld16 a b = ucast a OR push_bit 8 (ucast b)"

definition ld32 :: "u8 \<Rightarrow> u8 \<Rightarrow> u8 \<Rightarrow> u8 \<Rightarrow> u32" where
  "ld32 a b c d = ucast a OR push_bit 8 (ucast b) OR push_bit 16 (ucast c) OR push_bit 24 (ucast d)"

lemma length_le_bytes [simp]: "length (le_bytes16 v) = 2" "length (le_bytes32 w) = 4"
  by (simp_all add: le_bytes16_def le_bytes32_def)

lemma ld16_le [simp]: "ld16 (ucast v) (ucast (drop_bit 8 v)) = v"
  unfolding ld16_def by (intro bit_word_eqI) (auto simp: bit_simps)

lemma ld32_le [simp]:
  "ld32 (ucast v) (ucast (drop_bit 8 v)) (ucast (drop_bit 16 v)) (ucast (drop_bit 24 v)) = v"
  unfolding ld32_def
  apply (intro bit_word_eqI)
  subgoal for n by (cases "n < 8"; cases "n < 16"; cases "n < 24"; (simp add: bit_simps)?) auto
  done

lemma le_bytes16_ld [simp]: "le_bytes16 (ld16 a b) = [a, b]"
  unfolding le_bytes16_def ld16_def by (auto intro!: bit_word_eqI simp: bit_simps)

lemma le_bytes32_ld [simp]: "le_bytes32 (ld32 a b c d) = [a, b, c, d]"
  unfolding le_bytes32_def ld32_def
  by (auto intro!: bit_word_eqI simp: bit_simps) (drule bit_u8_less, simp)+

lemma take_8_eq: "8 \<le> length xs \<Longrightarrow>
    take 8 xs = [xs ! 0, xs ! 1, xs ! 2, xs ! 3, xs ! 4, xs ! 5, xs ! 6, xs ! 7]"
  by (auto simp: numeral_eq_Suc Suc_le_length_iff)

section \<open>Ring buffers\<close>

text \<open>The \<open>n\<close> items of a ring of \<open>cap\<close> slots from slot \<open>h\<close> on, oldest first.\<close>

definition ring_items :: "nat \<Rightarrow> 'a list \<Rightarrow> nat \<Rightarrow> nat \<Rightarrow> 'a list" where
  "ring_items cap xs h n = map (\<lambda>i. xs ! ((h + i) mod cap)) [0..<n]"

lemma length_ring_items [simp]: "length (ring_items cap xs h n) = n"
  by (simp add: ring_items_def)

lemma ring_items_0 [simp]: "ring_items cap xs h 0 = []"
  by (simp add: ring_items_def)

lemma mod_ring_inj: "i < n \<Longrightarrow> n < cap \<Longrightarrow> (h + i) mod cap \<noteq> (h + n) mod (cap :: nat)"
  using mod_eq_dvd_iff_nat [of "h + i" "h + n" cap] by (auto dest: dvd_imp_le)

lemma ring_items_put:
  assumes "n < cap" "length xs = cap"
  shows "ring_items cap (xs[(h + n) mod cap := x]) h (Suc n) = ring_items cap xs h n @ [x]"
proof -
  have "xs[(h + n) mod cap := x] ! ((h + i) mod cap) = xs ! ((h + i) mod cap)" if "i < n" for i
    using mod_ring_inj [OF that assms(1), of h] by simp
  moreover have "(h + n) mod cap < length xs" using assms by (simp add: mod_less_divisor)
  ultimately show ?thesis by (simp add: ring_items_def)
qed

lemma ring_items_get:
  assumes "h < cap" "0 < n"
  shows "ring_items cap xs h n = xs ! h # ring_items cap xs (Suc h mod cap) (n - 1)"
proof -
  have "[0..<Suc m] = 0 # map Suc [0..<m]" for m
    by (simp add: map_Suc_upt upt_conv_Cons del: upt_Suc)
  then have "[0..<n] = 0 # map Suc [0..<n - 1]" using assms(2) by (metis Suc_diff_1)
  then show ?thesis using assms(1) by (simp add: ring_items_def comp_def mod_simps)
qed

text \<open>The newest \<open>n\<close> items: what a buffer holds that drops its oldest.\<close>

definition keep_last :: "nat \<Rightarrow> 'a list \<Rightarrow> 'a list" where
  "keep_last n xs = drop (length xs - n) xs"

lemma keep_last_snoc:
  "0 < n \<Longrightarrow> length xs \<le> n \<Longrightarrow> keep_last n (xs @ [x]) = (if length xs = n then tl xs @ [x] else xs @ [x])"
  by (cases xs) (auto simp: keep_last_def)

lemma keep_last_append: "keep_last n (keep_last n xs @ ys) = keep_last n (xs @ ys)"
  by (cases "n \<le> length xs") (auto simp: keep_last_def add.commute)

lemma length_keep_last: "length (keep_last n xs) \<le> n"
  by (simp add: keep_last_def)

lemma keep_last_all: "length xs \<le> n \<Longrightarrow> keep_last n xs = xs"
  by (simp add: keep_last_def)

section \<open>Slices\<close>

text \<open>A byte stream cut into payloads of at most eight.\<close>

fun chunks8 :: "'a list \<Rightarrow> 'a list list" where
  "chunks8 [] = []"
| "chunks8 (x # xs) = take 8 (x # xs) # chunks8 (drop 8 (x # xs))"

lemma chunks8_length: "ch \<in> set (chunks8 xs) \<Longrightarrow> length ch \<le> 8"
  by (induction xs rule: chunks8.induct) auto

lemma concat_chunks8 [simp]: "concat (chunks8 xs) = xs"
  by (induction xs rule: chunks8.induct) (simp_all only: chunks8.simps concat.simps append_take_drop_id)

section \<open>Text\<close>

text \<open>A number in decimal, as \<open>%u\<close> and \<open>std::to_string\<close> print it.\<close>

fun decimal :: "nat \<Rightarrow> string" where
  "decimal n = (if n < 10 then [char_of (48 + n)] else decimal (n div 10) @ [char_of (48 + n mod 10)])"

declare decimal.simps [simp del]

end
