(* ===== verification/Wire.thy ===== *)
theory Wire
  imports Prelude
begin

text \<open>
  The payload structs of \<open>common/c/include/powersuit_proto/wire.h\<close>: every packed C struct as a
  record with the same fields in the same order, its memory image \<open>enc_...\<close> (packed,
  little-endian) and the struct a payload holds \<open>dec_...\<close>. An array member is one
  field per element. The locale \<open>wire_codec\<close> is the contract of a payload struct; every struct of
  the header is an instance of it.
\<close>

section \<open>Constants\<close>

text \<open>Contract constants, node states, e-stop causes, joint modes and flag bits.\<close>

abbreviation PS_HEARTBEAT_PERIOD_MS :: u32 where "PS_HEARTBEAT_PERIOD_MS \<equiv> 10"
abbreviation PS_HEARTBEAT_TIMEOUT_MS :: u32 where "PS_HEARTBEAT_TIMEOUT_MS \<equiv> 50"
abbreviation PS_REARM_WINDOW_MS :: u32 where "PS_REARM_WINDOW_MS \<equiv> 250"
abbreviation PS_CMD_STALE_MS :: u32 where "PS_CMD_STALE_MS \<equiv> 200"
abbreviation PS_ESTOP_REARM_MS :: u32 where "PS_ESTOP_REARM_MS \<equiv> 1000"
abbreviation PS_ESTOP_REPEAT :: nat where "PS_ESTOP_REPEAT \<equiv> 3"
abbreviation PS_CLEAR_ESTOP_MAGIC :: u32 where "PS_CLEAR_ESTOP_MAGIC \<equiv> 0x52A4C13A"
abbreviation PS_STATE_BOOT :: u8 where "PS_STATE_BOOT \<equiv> 0"
abbreviation PS_STATE_STANDBY :: u8 where "PS_STATE_STANDBY \<equiv> 1"
abbreviation PS_STATE_OPERATIONAL :: u8 where "PS_STATE_OPERATIONAL \<equiv> 2"
abbreviation PS_STATE_PASSIVE :: u8 where "PS_STATE_PASSIVE \<equiv> 3"
abbreviation PS_STATE_ESTOP :: u8 where "PS_STATE_ESTOP \<equiv> 4"
abbreviation PS_STATE_FAULT :: u8 where "PS_STATE_FAULT \<equiv> 5"
abbreviation PS_ESTOP_BMS_SHORT :: u8 where "PS_ESTOP_BMS_SHORT \<equiv> 1"
abbreviation PS_ESTOP_BMS_OVERVOLT :: u8 where "PS_ESTOP_BMS_OVERVOLT \<equiv> 2"
abbreviation PS_ESTOP_BMS_UNDERVOLT :: u8 where "PS_ESTOP_BMS_UNDERVOLT \<equiv> 3"
abbreviation PS_ESTOP_OPERATOR :: u8 where "PS_ESTOP_OPERATOR \<equiv> 4"
abbreviation PS_ESTOP_THERMAL :: u8 where "PS_ESTOP_THERMAL \<equiv> 5"
abbreviation PS_ESTOP_COMM_LOSS :: u8 where "PS_ESTOP_COMM_LOSS \<equiv> 6"
abbreviation PS_ESTOP_SOFTWARE :: u8 where "PS_ESTOP_SOFTWARE \<equiv> 7"
abbreviation PS_JMODE_PASSIVE :: u8 where "PS_JMODE_PASSIVE \<equiv> 0"
abbreviation PS_JMODE_POSITION :: u8 where "PS_JMODE_POSITION \<equiv> 1"
abbreviation PS_JMODE_VELOCITY :: u8 where "PS_JMODE_VELOCITY \<equiv> 2"
abbreviation PS_JMODE_TORQUE :: u8 where "PS_JMODE_TORQUE \<equiv> 3"
abbreviation PS_JMODE_IMPEDANCE :: u8 where "PS_JMODE_IMPEDANCE \<equiv> 4"
abbreviation PS_HB_ESTOP_LATCHED :: u8 where "PS_HB_ESTOP_LATCHED \<equiv> 1"
abbreviation PS_HB_DEGRADED :: u8 where "PS_HB_DEGRADED \<equiv> 2"
abbreviation PS_HB_CLOUD_UP :: u8 where "PS_HB_CLOUD_UP \<equiv> 4"
abbreviation PS_BMSF_SHORT_LATCH :: u16 where "PS_BMSF_SHORT_LATCH \<equiv> 1"
abbreviation PS_BMSF_OV :: u16 where "PS_BMSF_OV \<equiv> 2"
abbreviation PS_BMSF_UV :: u16 where "PS_BMSF_UV \<equiv> 4"
abbreviation PS_BMSF_OT :: u16 where "PS_BMSF_OT \<equiv> 8"
abbreviation PS_BMSF_UT :: u16 where "PS_BMSF_UT \<equiv> 16"
abbreviation PS_BMSF_OC_CHARGE :: u16 where "PS_BMSF_OC_CHARGE \<equiv> 32"
abbreviation PS_BMSF_OC_DISCHARGE :: u16 where "PS_BMSF_OC_DISCHARGE \<equiv> 64"
abbreviation PS_BMSF_COMP_ARMED :: u16 where "PS_BMSF_COMP_ARMED \<equiv> 128"

section \<open>Payload structs\<close>

record ps_heartbeat =
  hb_seq :: u16
  hb_flags :: u8
  hb_src_state :: u8
  hb_uptime_ms :: u32

definition enc_heartbeat :: "ps_heartbeat \<Rightarrow> bytes" where
  "enc_heartbeat s = le_bytes16 (hb_seq s) @
     [hb_flags s, hb_src_state s] @
     le_bytes32 (hb_uptime_ms s)"

definition dec_heartbeat :: "bytes \<Rightarrow> ps_heartbeat" where
  "dec_heartbeat b = \<lparr> hb_seq = ld16 (b ! 0) (b ! 1),
     hb_flags = b ! 2,
     hb_src_state = b ! 3,
     hb_uptime_ms = ld32 (b ! 4) (b ! 5) (b ! 6) (b ! 7) \<rparr>"

record ps_estop =
  es_cause :: u8
  es_origin_node :: u8
  es_seq :: u16
  es_uptime_ms :: u32

definition enc_estop :: "ps_estop \<Rightarrow> bytes" where
  "enc_estop s = [es_cause s, es_origin_node s] @
     le_bytes16 (es_seq s) @
     le_bytes32 (es_uptime_ms s)"

definition dec_estop :: "bytes \<Rightarrow> ps_estop" where
  "dec_estop b = \<lparr> es_cause = b ! 0,
     es_origin_node = b ! 1,
     es_seq = ld16 (b ! 2) (b ! 3),
     es_uptime_ms = ld32 (b ! 4) (b ! 5) (b ! 6) (b ! 7) \<rparr>"

record ps_clear_estop =
  ce_magic :: u32
  ce_counter :: u32

definition enc_clear_estop :: "ps_clear_estop \<Rightarrow> bytes" where
  "enc_clear_estop s = le_bytes32 (ce_magic s) @
     le_bytes32 (ce_counter s)"

definition dec_clear_estop :: "bytes \<Rightarrow> ps_clear_estop" where
  "dec_clear_estop b = \<lparr> ce_magic = ld32 (b ! 0) (b ! 1) (b ! 2) (b ! 3),
     ce_counter = ld32 (b ! 4) (b ! 5) (b ! 6) (b ! 7) \<rparr>"

record ps_node_fault =
  nf_fault_code :: u8
  nf_severity :: u8
  nf_detail :: u16
  nf_uptime_ms :: u32

definition enc_node_fault :: "ps_node_fault \<Rightarrow> bytes" where
  "enc_node_fault s = [nf_fault_code s, nf_severity s] @
     le_bytes16 (nf_detail s) @
     le_bytes32 (nf_uptime_ms s)"

definition dec_node_fault :: "bytes \<Rightarrow> ps_node_fault" where
  "dec_node_fault b = \<lparr> nf_fault_code = b ! 0,
     nf_severity = b ! 1,
     nf_detail = ld16 (b ! 2) (b ! 3),
     nf_uptime_ms = ld32 (b ! 4) (b ! 5) (b ! 6) (b ! 7) \<rparr>"

record ps_joint_cmd =
  jc_joint :: u8
  jc_mode :: u8
  jc_pos_crad :: i16
  jc_vel_crad_s :: i16
  jc_eff_cNm :: i16

definition enc_joint_cmd :: "ps_joint_cmd \<Rightarrow> bytes" where
  "enc_joint_cmd s = [jc_joint s, jc_mode s] @
     le_bytes16 (jc_pos_crad s) @
     le_bytes16 (jc_vel_crad_s s) @
     le_bytes16 (jc_eff_cNm s)"

definition dec_joint_cmd :: "bytes \<Rightarrow> ps_joint_cmd" where
  "dec_joint_cmd b = \<lparr> jc_joint = b ! 0,
     jc_mode = b ! 1,
     jc_pos_crad = ld16 (b ! 2) (b ! 3),
     jc_vel_crad_s = ld16 (b ! 4) (b ! 5),
     jc_eff_cNm = ld16 (b ! 6) (b ! 7) \<rparr>"

record ps_flap_cmd =
  fc_flap :: u8
  fc_rate_lim :: u8
  fc_pos_pm :: i16
  fc_flags :: u16
  fc_rsvd :: u16

definition enc_flap_cmd :: "ps_flap_cmd \<Rightarrow> bytes" where
  "enc_flap_cmd s = [fc_flap s, fc_rate_lim s] @
     le_bytes16 (fc_pos_pm s) @
     le_bytes16 (fc_flags s) @
     le_bytes16 (fc_rsvd s)"

definition dec_flap_cmd :: "bytes \<Rightarrow> ps_flap_cmd" where
  "dec_flap_cmd b = \<lparr> fc_flap = b ! 0,
     fc_rate_lim = b ! 1,
     fc_pos_pm = ld16 (b ! 2) (b ! 3),
     fc_flags = ld16 (b ! 4) (b ! 5),
     fc_rsvd = ld16 (b ! 6) (b ! 7) \<rparr>"

record ps_mode_set =
  ms_target_state :: u8
  ms_rsvd0 :: u8
  ms_rsvd1 :: u8
  ms_rsvd2 :: u8
  ms_rsvd3 :: u8
  ms_rsvd4 :: u8
  ms_rsvd5 :: u8
  ms_rsvd6 :: u8

definition enc_mode_set :: "ps_mode_set \<Rightarrow> bytes" where
  "enc_mode_set s = [ms_target_state s, ms_rsvd0 s, ms_rsvd1 s, ms_rsvd2 s, ms_rsvd3 s, ms_rsvd4 s, ms_rsvd5 s, ms_rsvd6 s]"

definition dec_mode_set :: "bytes \<Rightarrow> ps_mode_set" where
  "dec_mode_set b = \<lparr> ms_target_state = b ! 0,
     ms_rsvd0 = b ! 1,
     ms_rsvd1 = b ! 2,
     ms_rsvd2 = b ! 3,
     ms_rsvd3 = b ! 4,
     ms_rsvd4 = b ! 5,
     ms_rsvd5 = b ! 6,
     ms_rsvd6 = b ! 7 \<rparr>"

record ps_led_pattern =
  lp_pattern :: u8
  lp_brightness :: u8
  lp_r :: u8
  lp_g :: u8
  lp_b :: u8
  lp_speed :: u8
  lp_rsvd :: u16

definition enc_led_pattern :: "ps_led_pattern \<Rightarrow> bytes" where
  "enc_led_pattern s = [lp_pattern s, lp_brightness s, lp_r s, lp_g s, lp_b s, lp_speed s] @
     le_bytes16 (lp_rsvd s)"

definition dec_led_pattern :: "bytes \<Rightarrow> ps_led_pattern" where
  "dec_led_pattern b = \<lparr> lp_pattern = b ! 0,
     lp_brightness = b ! 1,
     lp_r = b ! 2,
     lp_g = b ! 3,
     lp_b = b ! 4,
     lp_speed = b ! 5,
     lp_rsvd = ld16 (b ! 6) (b ! 7) \<rparr>"

record ps_joint_state =
  js_joint :: u8
  js_flags :: u8
  js_pos_crad :: i16
  js_vel_crad_s :: i16
  js_eff_cNm :: i16

definition enc_joint_state :: "ps_joint_state \<Rightarrow> bytes" where
  "enc_joint_state s = [js_joint s, js_flags s] @
     le_bytes16 (js_pos_crad s) @
     le_bytes16 (js_vel_crad_s s) @
     le_bytes16 (js_eff_cNm s)"

definition dec_joint_state :: "bytes \<Rightarrow> ps_joint_state" where
  "dec_joint_state b = \<lparr> js_joint = b ! 0,
     js_flags = b ! 1,
     js_pos_crad = ld16 (b ! 2) (b ! 3),
     js_vel_crad_s = ld16 (b ! 4) (b ! 5),
     js_eff_cNm = ld16 (b ! 6) (b ! 7) \<rparr>"

record ps_imu_quat =
  iq_qw :: i16
  iq_qx :: i16
  iq_qy :: i16
  iq_qz :: i16

definition enc_imu_quat :: "ps_imu_quat \<Rightarrow> bytes" where
  "enc_imu_quat s = le_bytes16 (iq_qw s) @
     le_bytes16 (iq_qx s) @
     le_bytes16 (iq_qy s) @
     le_bytes16 (iq_qz s)"

definition dec_imu_quat :: "bytes \<Rightarrow> ps_imu_quat" where
  "dec_imu_quat b = \<lparr> iq_qw = ld16 (b ! 0) (b ! 1),
     iq_qx = ld16 (b ! 2) (b ! 3),
     iq_qy = ld16 (b ! 4) (b ! 5),
     iq_qz = ld16 (b ! 6) (b ! 7) \<rparr>"

record ps_imu_acc =
  ia_ax :: i16
  ia_ay :: i16
  ia_az :: i16
  ia_rsvd :: u16

definition enc_imu_acc :: "ps_imu_acc \<Rightarrow> bytes" where
  "enc_imu_acc s = le_bytes16 (ia_ax s) @
     le_bytes16 (ia_ay s) @
     le_bytes16 (ia_az s) @
     le_bytes16 (ia_rsvd s)"

definition dec_imu_acc :: "bytes \<Rightarrow> ps_imu_acc" where
  "dec_imu_acc b = \<lparr> ia_ax = ld16 (b ! 0) (b ! 1),
     ia_ay = ld16 (b ! 2) (b ! 3),
     ia_az = ld16 (b ! 4) (b ! 5),
     ia_rsvd = ld16 (b ! 6) (b ! 7) \<rparr>"

record ps_imu_gyr =
  ig_gx :: i16
  ig_gy :: i16
  ig_gz :: i16
  ig_rsvd :: u16

definition enc_imu_gyr :: "ps_imu_gyr \<Rightarrow> bytes" where
  "enc_imu_gyr s = le_bytes16 (ig_gx s) @
     le_bytes16 (ig_gy s) @
     le_bytes16 (ig_gz s) @
     le_bytes16 (ig_rsvd s)"

definition dec_imu_gyr :: "bytes \<Rightarrow> ps_imu_gyr" where
  "dec_imu_gyr b = \<lparr> ig_gx = ld16 (b ! 0) (b ! 1),
     ig_gy = ld16 (b ! 2) (b ! 3),
     ig_gz = ld16 (b ! 4) (b ! 5),
     ig_rsvd = ld16 (b ! 6) (b ! 7) \<rparr>"

record ps_force =
  fo_ch0 :: i16
  fo_ch1 :: i16
  fo_ch2 :: i16
  fo_ch3 :: i16

definition enc_force :: "ps_force \<Rightarrow> bytes" where
  "enc_force s = le_bytes16 (fo_ch0 s) @
     le_bytes16 (fo_ch1 s) @
     le_bytes16 (fo_ch2 s) @
     le_bytes16 (fo_ch3 s)"

definition dec_force :: "bytes \<Rightarrow> ps_force" where
  "dec_force b = \<lparr> fo_ch0 = ld16 (b ! 0) (b ! 1),
     fo_ch1 = ld16 (b ! 2) (b ! 3),
     fo_ch2 = ld16 (b ! 4) (b ! 5),
     fo_ch3 = ld16 (b ! 6) (b ! 7) \<rparr>"

record ps_bms_summary =
  bs_pack_cV :: u16
  bs_current_cA :: i16
  bs_soc_pct :: u8
  bs_temp_max_C :: u8 \<comment> \<open>\<open>int8_t\<close>, read with \<open>sint\<close>\<close>
  bs_fault_bits :: u16

definition enc_bms_summary :: "ps_bms_summary \<Rightarrow> bytes" where
  "enc_bms_summary s = le_bytes16 (bs_pack_cV s) @
     le_bytes16 (bs_current_cA s) @
     [bs_soc_pct s, bs_temp_max_C s] @
     le_bytes16 (bs_fault_bits s)"

definition dec_bms_summary :: "bytes \<Rightarrow> ps_bms_summary" where
  "dec_bms_summary b = \<lparr> bs_pack_cV = ld16 (b ! 0) (b ! 1),
     bs_current_cA = ld16 (b ! 2) (b ! 3),
     bs_soc_pct = b ! 4,
     bs_temp_max_C = b ! 5,
     bs_fault_bits = ld16 (b ! 6) (b ! 7) \<rparr>"

record ps_bms_cells =
  bc_group :: u8
  bc_rsvd :: u8
  bc_mv0 :: u16
  bc_mv1 :: u16
  bc_mv2 :: u16

definition enc_bms_cells :: "ps_bms_cells \<Rightarrow> bytes" where
  "enc_bms_cells s = [bc_group s, bc_rsvd s] @
     le_bytes16 (bc_mv0 s) @
     le_bytes16 (bc_mv1 s) @
     le_bytes16 (bc_mv2 s)"

definition dec_bms_cells :: "bytes \<Rightarrow> ps_bms_cells" where
  "dec_bms_cells b = \<lparr> bc_group = b ! 0,
     bc_rsvd = b ! 1,
     bc_mv0 = ld16 (b ! 2) (b ! 3),
     bc_mv1 = ld16 (b ! 4) (b ! 5),
     bc_mv2 = ld16 (b ! 6) (b ! 7) \<rparr>"

record ps_aero_state =
  ae_ias_cms :: u16
  ae_q_pa :: u16
  ae_aoa_cdeg :: i16
  ae_flags :: u16

definition enc_aero_state :: "ps_aero_state \<Rightarrow> bytes" where
  "enc_aero_state s = le_bytes16 (ae_ias_cms s) @
     le_bytes16 (ae_q_pa s) @
     le_bytes16 (ae_aoa_cdeg s) @
     le_bytes16 (ae_flags s)"

definition dec_aero_state :: "bytes \<Rightarrow> ps_aero_state" where
  "dec_aero_state b = \<lparr> ae_ias_cms = ld16 (b ! 0) (b ! 1),
     ae_q_pa = ld16 (b ! 2) (b ! 3),
     ae_aoa_cdeg = ld16 (b ! 4) (b ! 5),
     ae_flags = ld16 (b ! 6) (b ! 7) \<rparr>"

record ps_flap_state =
  fs_flap :: u8
  fs_flags :: u8
  fs_pos_pm :: i16
  fs_target_pm :: i16
  fs_rsvd :: u16

definition enc_flap_state :: "ps_flap_state \<Rightarrow> bytes" where
  "enc_flap_state s = [fs_flap s, fs_flags s] @
     le_bytes16 (fs_pos_pm s) @
     le_bytes16 (fs_target_pm s) @
     le_bytes16 (fs_rsvd s)"

definition dec_flap_state :: "bytes \<Rightarrow> ps_flap_state" where
  "dec_flap_state b = \<lparr> fs_flap = b ! 0,
     fs_flags = b ! 1,
     fs_pos_pm = ld16 (b ! 2) (b ! 3),
     fs_target_pm = ld16 (b ! 4) (b ! 5),
     fs_rsvd = ld16 (b ! 6) (b ! 7) \<rparr>"

record ps_env =
  en_temp_cC :: i16
  en_rh_pm :: u16
  en_press_dhPa :: u16
  en_rsvd :: u16

definition enc_env :: "ps_env \<Rightarrow> bytes" where
  "enc_env s = le_bytes16 (en_temp_cC s) @
     le_bytes16 (en_rh_pm s) @
     le_bytes16 (en_press_dhPa s) @
     le_bytes16 (en_rsvd s)"

definition dec_env :: "bytes \<Rightarrow> ps_env" where
  "dec_env b = \<lparr> en_temp_cC = ld16 (b ! 0) (b ! 1),
     en_rh_pm = ld16 (b ! 2) (b ! 3),
     en_press_dhPa = ld16 (b ! 4) (b ! 5),
     en_rsvd = ld16 (b ! 6) (b ! 7) \<rparr>"

record ps_node_stats =
  ns_cpu_pct :: u8
  ns_state :: u8
  ns_rx_fps :: u16
  ns_tx_fps :: u16
  ns_err_cnt :: u16

definition enc_node_stats :: "ps_node_stats \<Rightarrow> bytes" where
  "enc_node_stats s = [ns_cpu_pct s, ns_state s] @
     le_bytes16 (ns_rx_fps s) @
     le_bytes16 (ns_tx_fps s) @
     le_bytes16 (ns_err_cnt s)"

definition dec_node_stats :: "bytes \<Rightarrow> ps_node_stats" where
  "dec_node_stats b = \<lparr> ns_cpu_pct = b ! 0,
     ns_state = b ! 1,
     ns_rx_fps = ld16 (b ! 2) (b ! 3),
     ns_tx_fps = ld16 (b ! 4) (b ! 5),
     ns_err_cnt = ld16 (b ! 6) (b ! 7) \<rparr>"

record ps_audio_sync =
  ay_dir :: u8
  ay_step_index :: u8
  ay_predictor :: i16
  ay_frame_seq :: u16
  ay_rsvd :: u16

definition enc_audio_sync :: "ps_audio_sync \<Rightarrow> bytes" where
  "enc_audio_sync s = [ay_dir s, ay_step_index s] @
     le_bytes16 (ay_predictor s) @
     le_bytes16 (ay_frame_seq s) @
     le_bytes16 (ay_rsvd s)"

definition dec_audio_sync :: "bytes \<Rightarrow> ps_audio_sync" where
  "dec_audio_sync b = \<lparr> ay_dir = b ! 0,
     ay_step_index = b ! 1,
     ay_predictor = ld16 (b ! 2) (b ! 3),
     ay_frame_seq = ld16 (b ! 4) (b ! 5),
     ay_rsvd = ld16 (b ! 6) (b ! 7) \<rparr>"

record ps_audio_ctl =
  ac_dir :: u8
  ac_cmd :: u8
  ac_sample_rate :: u16
  ac_rsvd :: u32

definition enc_audio_ctl :: "ps_audio_ctl \<Rightarrow> bytes" where
  "enc_audio_ctl s = [ac_dir s, ac_cmd s] @
     le_bytes16 (ac_sample_rate s) @
     le_bytes32 (ac_rsvd s)"

definition dec_audio_ctl :: "bytes \<Rightarrow> ps_audio_ctl" where
  "dec_audio_ctl b = \<lparr> ac_dir = b ! 0,
     ac_cmd = b ! 1,
     ac_sample_rate = ld16 (b ! 2) (b ! 3),
     ac_rsvd = ld32 (b ! 4) (b ! 5) (b ! 6) (b ! 7) \<rparr>"

record ps_time_sync =
  ts_epoch_ms_lo :: u32
  ts_seq :: u16
  ts_rsvd :: u16

definition enc_time_sync :: "ps_time_sync \<Rightarrow> bytes" where
  "enc_time_sync s = le_bytes32 (ts_epoch_ms_lo s) @
     le_bytes16 (ts_seq s) @
     le_bytes16 (ts_rsvd s)"

definition dec_time_sync :: "bytes \<Rightarrow> ps_time_sync" where
  "dec_time_sync b = \<lparr> ts_epoch_ms_lo = ld32 (b ! 0) (b ! 1) (b ! 2) (b ! 3),
     ts_seq = ld16 (b ! 4) (b ! 5),
     ts_rsvd = ld16 (b ! 6) (b ! 7) \<rparr>"

record ps_flow_ctl =
  fl_plane :: u8
  fl_level :: u8
  fl_rsvd :: u16
  fl_rsvd2 :: u32

definition enc_flow_ctl :: "ps_flow_ctl \<Rightarrow> bytes" where
  "enc_flow_ctl s = [fl_plane s, fl_level s] @
     le_bytes16 (fl_rsvd s) @
     le_bytes32 (fl_rsvd2 s)"

definition dec_flow_ctl :: "bytes \<Rightarrow> ps_flow_ctl" where
  "dec_flow_ctl b = \<lparr> fl_plane = b ! 0,
     fl_level = b ! 1,
     fl_rsvd = ld16 (b ! 2) (b ! 3),
     fl_rsvd2 = ld32 (b ! 4) (b ! 5) (b ! 6) (b ! 7) \<rparr>"

record ps_version =
  vn_major :: u8
  vn_minor :: u8
  vn_patch :: u8
  vn_node_state :: u8
  vn_git_short :: u32

definition enc_version :: "ps_version \<Rightarrow> bytes" where
  "enc_version s = [vn_major s, vn_minor s, vn_patch s, vn_node_state s] @
     le_bytes32 (vn_git_short s)"

definition dec_version :: "bytes \<Rightarrow> ps_version" where
  "dec_version b = \<lparr> vn_major = b ! 0,
     vn_minor = b ! 1,
     vn_patch = b ! 2,
     vn_node_state = b ! 3,
     vn_git_short = ld32 (b ! 4) (b ! 5) (b ! 6) (b ! 7) \<rparr>"

section \<open>Copy helpers\<close>

text \<open>\<open>memcpy\<close> of the image to the start of a buffer, and of the start of a buffer to a struct.\<close>

definition PS_WIRE_WRITE :: "('s \<Rightarrow> bytes) \<Rightarrow> bytes \<Rightarrow> 's \<Rightarrow> bytes" where
  "PS_WIRE_WRITE enc buf s = blit 0 (enc s) buf"

definition PS_WIRE_READ :: "(bytes \<Rightarrow> 's) \<Rightarrow> bytes \<Rightarrow> 's" where
  "PS_WIRE_READ dec buf = dec buf"

section \<open>The contract of a payload struct\<close>

text \<open>The laws a packed struct obeys. \<open>enc_dec\<close> says that the image carries no more than the fields:
  every payload of the right size is the image of some struct.\<close>

locale wire_codec =
  fixes enc :: "'s \<Rightarrow> bytes" and dec :: "bytes \<Rightarrow> 's"
  assumes length_enc: "length (enc s) = 8"
    and dec_enc: "dec (enc s @ rest) = s"
    and enc_dec: "8 \<le> length b \<Longrightarrow> enc (dec b) = take 8 b"
begin

lemma enc_inj: "enc s = enc t \<longleftrightarrow> s = t"
  by (metis dec_enc append_Nil2)

lemma read_write: "8 \<le> length buf \<Longrightarrow> PS_WIRE_READ dec (PS_WIRE_WRITE enc buf s) = s"
  by (simp add: PS_WIRE_READ_def PS_WIRE_WRITE_def blit_def length_enc dec_enc)

lemma write_read: "length buf = 8 \<Longrightarrow> PS_WIRE_WRITE enc buf (PS_WIRE_READ dec buf) = buf"
  by (simp add: PS_WIRE_READ_def PS_WIRE_WRITE_def blit_def enc_dec)

lemma dec_payload [simp]: "dec (enc s) = s"
  using dec_enc [of s "[]"] by simp

lemma write_payload: "length buf = 8 \<Longrightarrow> PS_WIRE_WRITE enc buf s = enc s"
  by (simp add: PS_WIRE_WRITE_def blit_def length_enc)

end

lemmas wire_layout = enc_heartbeat_def dec_heartbeat_def
  enc_estop_def dec_estop_def
  enc_clear_estop_def dec_clear_estop_def
  enc_node_fault_def dec_node_fault_def
  enc_joint_cmd_def dec_joint_cmd_def
  enc_flap_cmd_def dec_flap_cmd_def
  enc_mode_set_def dec_mode_set_def
  enc_led_pattern_def dec_led_pattern_def
  enc_joint_state_def dec_joint_state_def
  enc_imu_quat_def dec_imu_quat_def
  enc_imu_acc_def dec_imu_acc_def
  enc_imu_gyr_def dec_imu_gyr_def
  enc_force_def dec_force_def
  enc_bms_summary_def dec_bms_summary_def
  enc_bms_cells_def dec_bms_cells_def
  enc_aero_state_def dec_aero_state_def
  enc_flap_state_def dec_flap_state_def
  enc_env_def dec_env_def
  enc_node_stats_def dec_node_stats_def
  enc_audio_sync_def dec_audio_sync_def
  enc_audio_ctl_def dec_audio_ctl_def
  enc_time_sync_def dec_time_sync_def
  enc_flow_ctl_def dec_flow_ctl_def
  enc_version_def dec_version_def

declare wire_layout [wire_simps]

lemmas wire_bytes = le_bytes16_def le_bytes32_def nth_append take_8_eq

interpretation hbc: wire_codec enc_heartbeat dec_heartbeat
  by unfold_locales (simp add: wire_simps, simp add: wire_simps wire_bytes, simp add: wire_simps take_8_eq)

interpretation esc: wire_codec enc_estop dec_estop
  by unfold_locales (simp add: wire_simps, simp add: wire_simps wire_bytes, simp add: wire_simps take_8_eq)

interpretation cec: wire_codec enc_clear_estop dec_clear_estop
  by unfold_locales (simp add: wire_simps, simp add: wire_simps wire_bytes, simp add: wire_simps take_8_eq)

interpretation nfc: wire_codec enc_node_fault dec_node_fault
  by unfold_locales (simp add: wire_simps, simp add: wire_simps wire_bytes, simp add: wire_simps take_8_eq)

interpretation jcc: wire_codec enc_joint_cmd dec_joint_cmd
  by unfold_locales (simp add: wire_simps, simp add: wire_simps wire_bytes, simp add: wire_simps take_8_eq)

interpretation fcc: wire_codec enc_flap_cmd dec_flap_cmd
  by unfold_locales (simp add: wire_simps, simp add: wire_simps wire_bytes, simp add: wire_simps take_8_eq)

interpretation msc: wire_codec enc_mode_set dec_mode_set
  by unfold_locales (simp add: wire_simps, simp add: wire_simps wire_bytes, simp add: wire_simps take_8_eq)

interpretation lpc: wire_codec enc_led_pattern dec_led_pattern
  by unfold_locales (simp add: wire_simps, simp add: wire_simps wire_bytes, simp add: wire_simps take_8_eq)

interpretation jsc: wire_codec enc_joint_state dec_joint_state
  by unfold_locales (simp add: wire_simps, simp add: wire_simps wire_bytes, simp add: wire_simps take_8_eq)

interpretation iqc: wire_codec enc_imu_quat dec_imu_quat
  by unfold_locales (simp add: wire_simps, simp add: wire_simps wire_bytes, simp add: wire_simps take_8_eq)

interpretation iac: wire_codec enc_imu_acc dec_imu_acc
  by unfold_locales (simp add: wire_simps, simp add: wire_simps wire_bytes, simp add: wire_simps take_8_eq)

interpretation igc: wire_codec enc_imu_gyr dec_imu_gyr
  by unfold_locales (simp add: wire_simps, simp add: wire_simps wire_bytes, simp add: wire_simps take_8_eq)

interpretation foc: wire_codec enc_force dec_force
  by unfold_locales (simp add: wire_simps, simp add: wire_simps wire_bytes, simp add: wire_simps take_8_eq)

interpretation bsc: wire_codec enc_bms_summary dec_bms_summary
  by unfold_locales (simp add: wire_simps, simp add: wire_simps wire_bytes, simp add: wire_simps take_8_eq)

interpretation bcc: wire_codec enc_bms_cells dec_bms_cells
  by unfold_locales (simp add: wire_simps, simp add: wire_simps wire_bytes, simp add: wire_simps take_8_eq)

interpretation aec: wire_codec enc_aero_state dec_aero_state
  by unfold_locales (simp add: wire_simps, simp add: wire_simps wire_bytes, simp add: wire_simps take_8_eq)

interpretation fsc: wire_codec enc_flap_state dec_flap_state
  by unfold_locales (simp add: wire_simps, simp add: wire_simps wire_bytes, simp add: wire_simps take_8_eq)

interpretation enc: wire_codec enc_env dec_env
  by unfold_locales (simp add: wire_simps, simp add: wire_simps wire_bytes, simp add: wire_simps take_8_eq)

interpretation nsc: wire_codec enc_node_stats dec_node_stats
  by unfold_locales (simp add: wire_simps, simp add: wire_simps wire_bytes, simp add: wire_simps take_8_eq)

interpretation ayc: wire_codec enc_audio_sync dec_audio_sync
  by unfold_locales (simp add: wire_simps, simp add: wire_simps wire_bytes, simp add: wire_simps take_8_eq)

interpretation acc: wire_codec enc_audio_ctl dec_audio_ctl
  by unfold_locales (simp add: wire_simps, simp add: wire_simps wire_bytes, simp add: wire_simps take_8_eq)

interpretation tsc: wire_codec enc_time_sync dec_time_sync
  by unfold_locales (simp add: wire_simps, simp add: wire_simps wire_bytes, simp add: wire_simps take_8_eq)

interpretation flc: wire_codec enc_flow_ctl dec_flow_ctl
  by unfold_locales (simp add: wire_simps, simp add: wire_simps wire_bytes, simp add: wire_simps take_8_eq)

interpretation vnc: wire_codec enc_version dec_version
  by unfold_locales (simp add: wire_simps, simp add: wire_simps wire_bytes, simp add: wire_simps take_8_eq)

end
