(* ===== verification/Safety_Core.thy ===== *)
theory Safety_Core
  imports Wire
begin

text \<open>
  The node safety state machine, \<open>firmware/components/ps_safety/src/ps_safety_core.c\<close>: the state of
  \<open>ps_safety_core_t\<close>, every event handler and the tick, with 32-bit millisecond time stamps that
  wrap. The calls of the transition callback are kept, in order, in the field \<open>calls\<close>.

  The second half states the contract: an abstract machine on unbounded time in which
  the two encodings of the code (an e-stop whose cause is 0 is a cleared one; the heartbeat
  fields mean nothing while \<open>have_hb\<close> is off) are constructors, and the proof that the code
  implements it on every run shorter than \<open>2^31 - 201\<close> ms, wherever the 32-bit clock starts.
\<close>

section \<open>State\<close>

record ps_safety_core =
  state :: u8
  estop_cause :: u8
  last_hb_seq :: u16
  last_hb_ms :: u32
  hb_streak_start_ms :: u32
  last_cmd_ms :: u32
  clear_counter :: u32
  estop_since_ms :: u32
  have_hb :: bool
  want_operational :: bool
  on_transition :: bool \<comment> \<open>a callback is registered\<close>
  calls :: "(u8 \<times> u8 \<times> u8) list" \<comment> \<open>its calls: old state, new state, cause\<close>

section \<open>Operations\<close>

definition elapsed :: "u32 \<Rightarrow> u32 \<Rightarrow> int" where
  "elapsed now_ms then_ms = sint (now_ms - then_ms)"

definition go :: "ps_safety_core \<Rightarrow> u8 \<Rightarrow> u8 \<Rightarrow> ps_safety_core" where
  "go c nxt cause =
     (if state c = nxt then c
      else let old = state c; c = c\<lparr>state := nxt\<rparr> in
        if on_transition c then c\<lparr>calls := calls c @ [(old, nxt, cause)]\<rparr> else c)"

definition heartbeat_ok :: "ps_safety_core \<Rightarrow> u32 \<Rightarrow> bool" where
  "heartbeat_ok c now_ms \<longleftrightarrow>
     have_hb c \<and> elapsed now_ms (last_hb_ms c) \<le> sint PS_HEARTBEAT_TIMEOUT_MS"

definition streak_ms :: "ps_safety_core \<Rightarrow> u32 \<Rightarrow> int" where
  "streak_ms c now_ms = (if have_hb c then elapsed now_ms (hb_streak_start_ms c) else 0)"

definition ps_safety_core_init :: "u32 \<Rightarrow> bool \<Rightarrow> ps_safety_core" where
  "ps_safety_core_init now_ms cb =
     \<lparr> state = PS_STATE_BOOT, estop_cause = 0, last_hb_seq = 0,
       last_hb_ms = now_ms - PS_HEARTBEAT_TIMEOUT_MS - 1,
       hb_streak_start_ms = now_ms - PS_HEARTBEAT_TIMEOUT_MS - 1,
       last_cmd_ms = now_ms - PS_CMD_STALE_MS - 1,
       clear_counter = 0, estop_since_ms = 0, have_hb = False, want_operational = False,
       on_transition = cb, calls = [] \<rparr>"

definition ps_safety_core_on_estop :: "ps_safety_core \<Rightarrow> u32 \<Rightarrow> u8 \<Rightarrow> ps_safety_core" where
  "ps_safety_core_on_estop c now_ms cause =
     (if state c = PS_STATE_ESTOP \<and> estop_cause c \<noteq> 0 then c
      else
        let c = c\<lparr>estop_cause := if cause \<noteq> 0 then cause else PS_ESTOP_SOFTWARE\<rparr>;
            c = c\<lparr>estop_since_ms := now_ms\<rparr>;
            c = c\<lparr>want_operational := False\<rparr>
        in go c PS_STATE_ESTOP (estop_cause c))"

definition ps_safety_core_on_heartbeat ::
    "ps_safety_core \<Rightarrow> u32 \<Rightarrow> ps_heartbeat \<Rightarrow> ps_safety_core" where
  "ps_safety_core_on_heartbeat c now_ms hb =
     (if have_hb c \<and> hb_seq hb = last_hb_seq c then c
      else
        let c = (if \<not> have_hb c \<or> elapsed now_ms (last_hb_ms c) > sint PS_HEARTBEAT_TIMEOUT_MS
                 then c\<lparr>hb_streak_start_ms := now_ms\<rparr> else c);
            c = c\<lparr>have_hb := True\<rparr>;
            c = c\<lparr>last_hb_ms := now_ms\<rparr>;
            c = c\<lparr>last_hb_seq := hb_seq hb\<rparr>
        in if hb_flags hb AND PS_HB_ESTOP_LATCHED \<noteq> 0
           then ps_safety_core_on_estop c now_ms PS_ESTOP_OPERATOR else c)"

definition ps_safety_core_on_clear ::
    "ps_safety_core \<Rightarrow> u32 \<Rightarrow> u32 \<Rightarrow> u32 \<Rightarrow> bool \<times> ps_safety_core" where
  "ps_safety_core_on_clear c now_ms magic counter =
     (if magic \<noteq> PS_CLEAR_ESTOP_MAGIC then (False, c)
      else if counter \<le> clear_counter c then (False, c)
      else
        let c = c\<lparr>clear_counter := counter\<rparr>
        in (True, if state c = PS_STATE_ESTOP then c\<lparr>estop_cause := 0, estop_since_ms := now_ms\<rparr> else c))"

definition ps_safety_core_on_cmd :: "ps_safety_core \<Rightarrow> u32 \<Rightarrow> ps_safety_core" where
  "ps_safety_core_on_cmd c now_ms = c\<lparr>last_cmd_ms := now_ms\<rparr>"

definition ps_safety_core_on_mode_set :: "ps_safety_core \<Rightarrow> u32 \<Rightarrow> u8 \<Rightarrow> ps_safety_core" where
  "ps_safety_core_on_mode_set c now_ms target_state =
     (if target_state = PS_STATE_OPERATIONAL then c\<lparr>want_operational := True\<rparr>
      else if target_state = PS_STATE_STANDBY then
        let c = c\<lparr>want_operational := False\<rparr>
        in if state c = PS_STATE_OPERATIONAL \<or> state c = PS_STATE_PASSIVE
           then go c PS_STATE_STANDBY 0 else c
      else if target_state = PS_STATE_PASSIVE then
        let c = c\<lparr>want_operational := False\<rparr>
        in if state c = PS_STATE_OPERATIONAL \<or> state c = PS_STATE_STANDBY
           then go c PS_STATE_PASSIVE 0 else c
      else if target_state = PS_STATE_ESTOP then ps_safety_core_on_estop c now_ms PS_ESTOP_OPERATOR
      else c)"

definition ps_safety_core_on_local_fault :: "ps_safety_core \<Rightarrow> u32 \<Rightarrow> u8 \<Rightarrow> ps_safety_core" where
  "ps_safety_core_on_local_fault c now_ms cause = ps_safety_core_on_estop c now_ms cause"

definition ps_safety_core_on_bus_down :: "ps_safety_core \<Rightarrow> u32 \<Rightarrow> ps_safety_core" where
  "ps_safety_core_on_bus_down c now_ms =
     (let c = c\<lparr>have_hb := False\<rparr>
      in if state c = PS_STATE_OPERATIONAL then go c PS_STATE_PASSIVE PS_ESTOP_COMM_LOSS else c)"

definition ps_safety_core_cmd_fresh :: "ps_safety_core \<Rightarrow> u32 \<Rightarrow> bool" where
  "ps_safety_core_cmd_fresh c now_ms \<longleftrightarrow> elapsed now_ms (last_cmd_ms c) < sint PS_CMD_STALE_MS"

text \<open>The state the tick returns is the \<open>state\<close> field of its result.\<close>

definition ps_safety_core_tick :: "ps_safety_core \<Rightarrow> u32 \<Rightarrow> ps_safety_core" where
  "ps_safety_core_tick c now_ms =
     (if state c = PS_STATE_BOOT then go c PS_STATE_STANDBY 0
      else if state c = PS_STATE_ESTOP then
        (if estop_cause c = 0 \<and> heartbeat_ok c now_ms \<and> streak_ms c now_ms \<ge> sint PS_ESTOP_REARM_MS
         then go c PS_STATE_STANDBY 0 else c)
      else if state c = PS_STATE_OPERATIONAL then
        (if \<not> heartbeat_ok c now_ms then go c PS_STATE_PASSIVE PS_ESTOP_COMM_LOSS else c)
      else if state c = PS_STATE_STANDBY then
        (if want_operational c \<and> heartbeat_ok c now_ms then go c PS_STATE_OPERATIONAL 0 else c)
      else if state c = PS_STATE_PASSIVE then
        (if want_operational c \<and> heartbeat_ok c now_ms \<and>
            streak_ms c now_ms \<ge> sint PS_REARM_WINDOW_MS \<and>
            elapsed (last_cmd_ms c) (hb_streak_start_ms c) \<ge> 0 \<and>
            ps_safety_core_cmd_fresh c now_ms
         then go c PS_STATE_OPERATIONAL 0 else c)
      else c)"

section \<open>Events and runs\<close>

datatype safety_event =
    Heartbeat ps_heartbeat | Estop u8 | Clear u32 u32 | Cmd | Mode_set u8
  | Local_fault u8 | Bus_down | Tick

fun safety_step :: "ps_safety_core \<Rightarrow> u32 \<Rightarrow> safety_event \<Rightarrow> ps_safety_core" where
  "safety_step c t (Heartbeat hb) = ps_safety_core_on_heartbeat c t hb"
| "safety_step c t (Estop cause) = ps_safety_core_on_estop c t cause"
| "safety_step c t (Clear magic counter) = snd (ps_safety_core_on_clear c t magic counter)"
| "safety_step c t Cmd = ps_safety_core_on_cmd c t"
| "safety_step c t (Mode_set s) = ps_safety_core_on_mode_set c t s"
| "safety_step c t (Local_fault cause) = ps_safety_core_on_local_fault c t cause"
| "safety_step c t Bus_down = ps_safety_core_on_bus_down c t"
| "safety_step c t Tick = ps_safety_core_tick c t"

definition safety_run :: "ps_safety_core \<Rightarrow> (u32 \<times> safety_event) list \<Rightarrow> ps_safety_core" where
  "safety_run = foldl (\<lambda>c (t, e). safety_step c t e)"

lemma safety_run_simps [simp]:
  "safety_run c [] = c"
  "safety_run c ((t, e) # evs) = safety_run (safety_step c t e) evs"
  "safety_run c (evs @ evs') = safety_run (safety_run c evs) evs'"
  by (simp_all add: safety_run_def)

named_theorems core_defs \<open>the handlers of the safety core\<close>

declare ps_safety_core_on_estop_def [core_defs] ps_safety_core_on_heartbeat_def [core_defs]
  ps_safety_core_on_clear_def [core_defs] ps_safety_core_on_cmd_def [core_defs]
  ps_safety_core_on_mode_set_def [core_defs] ps_safety_core_on_local_fault_def [core_defs]
  ps_safety_core_on_bus_down_def [core_defs] ps_safety_core_tick_def [core_defs]
  ps_safety_core_init_def [core_defs] ps_safety_core_cmd_fresh_def [core_defs]

lemma go_simps [simp]:
  "state (go c s k) = s" "estop_cause (go c s k) = estop_cause c"
  "have_hb (go c s k) = have_hb c" "last_hb_ms (go c s k) = last_hb_ms c"
  "last_hb_seq (go c s k) = last_hb_seq c" "hb_streak_start_ms (go c s k) = hb_streak_start_ms c"
  "last_cmd_ms (go c s k) = last_cmd_ms c" "clear_counter (go c s k) = clear_counter c"
  "want_operational (go c s k) = want_operational c" "on_transition (go c s k) = on_transition c"
  by (simp_all add: go_def Let_def)

lemma heartbeat_ok_go [simp]: "heartbeat_ok (go c s k) t = heartbeat_ok c t"
  by (simp add: heartbeat_ok_def)

lemma calls_go: "calls (go c s k) =
    calls c @ (if state c \<noteq> s \<and> on_transition c then [(state c, s, k)] else [])"
  by (simp add: go_def Let_def)

section \<open>Properties of one step\<close>

text \<open>The dead-man switch: whatever happened before, a node that is OPERATIONAL when a
  tick returns holds a heartbeat that is at most 50 ms old.\<close>

lemma tick_deadman:
  assumes "state (ps_safety_core_tick c t) = PS_STATE_OPERATIONAL"
  shows "have_hb c \<and> elapsed t (last_hb_ms c) \<le> 50"
  using assms by (auto simp: ps_safety_core_tick_def heartbeat_ok_def split: if_splits)

text \<open>The only way into OPERATIONAL is a tick in STANDBY, or in PASSIVE
  after the link was healthy for 250 ms and with a command that is fresh and no older than the healthy streak; in both cases
  a MODE_SET must have asked for it and the heartbeat must be alive.\<close>

lemma enter_operational_only_by_tick:
  assumes "state c \<noteq> PS_STATE_OPERATIONAL" "state (safety_step c t e) = PS_STATE_OPERATIONAL"
  shows "e = Tick \<and> want_operational c \<and> heartbeat_ok c t \<and>
    (state c = PS_STATE_STANDBY \<or>
     state c = PS_STATE_PASSIVE \<and> streak_ms c t \<ge> 250 \<and>
       elapsed (last_cmd_ms c) (hb_streak_start_ms c) \<ge> 0 \<and> ps_safety_core_cmd_fresh c t)"
  using assms by (cases e) (auto simp: core_defs Let_def split: if_splits)

section \<open>The e-stop latch and its counter\<close>

text \<open>Whether a CLEAR would be refused by a node that accepted counters up to \<open>k\<close>.\<close>

fun clear_refused :: "u32 \<Rightarrow> safety_event \<Rightarrow> bool" where
  "clear_refused k (Clear magic counter) \<longleftrightarrow> magic \<noteq> PS_CLEAR_ESTOP_MAGIC \<or> counter \<le> k"
| "clear_refused k _ \<longleftrightarrow> True"

definition latched :: "ps_safety_core \<Rightarrow> bool" where
  "latched c \<longleftrightarrow> state c = PS_STATE_ESTOP \<and> estop_cause c \<noteq> 0"

lemma on_estop_latched: "latched (ps_safety_core_on_estop c t k)"
  by (simp add: latched_def ps_safety_core_on_estop_def Let_def)

lemma step_latched:
  assumes "latched c" "clear_refused (clear_counter c) e"
  shows "latched (safety_step c t e) \<and> estop_cause (safety_step c t e) = estop_cause c
    \<and> clear_counter (safety_step c t e) = clear_counter c \<and> calls (safety_step c t e) = calls c"
  using assms by (cases e) (auto simp: latched_def core_defs Let_def)

lemma clear_counter_step_mono: "clear_counter c \<le> clear_counter (safety_step c t e)"
  by (cases e) (auto simp: core_defs Let_def)

lemma clear_counter_run_mono: "clear_counter c \<le> clear_counter (safety_run c evs)"
proof (induction evs arbitrary: c)
  case (Cons ev evs)
  obtain t e where "ev = (t, e)" by fastforce
  then show ?case using Cons [of "safety_step c t e"] clear_counter_step_mono [of c t e] by simp
qed simp

text \<open>Claim C4. The e-stop latch: once a node is stopped with a cause, no sequence of heartbeats,
  commands, mode changes, faults, bus events, ticks and refused CLEARs (wrong magic, or a counter
  not above the last accepted one) moves it; the first cause is kept and the callback is
  not called again.\<close>

theorem estop_latch_holds:
  assumes "latched c" "\<forall>(t, e) \<in> set evs. clear_refused (clear_counter c) e"
  shows "state (safety_run c evs) = PS_STATE_ESTOP \<and> estop_cause (safety_run c evs) = estop_cause c
    \<and> calls (safety_run c evs) = calls c"
proof -
  have "latched (safety_run c evs) \<and> estop_cause (safety_run c evs) = estop_cause c
    \<and> calls (safety_run c evs) = calls c"
    using assms
  proof (induction evs arbitrary: c)
    case (Cons ev evs)
    obtain t e where ev: "ev = (t, e)" by fastforce
    have "clear_refused (clear_counter c) e" using Cons.prems(2) ev by auto
    note st = step_latched [OF Cons.prems(1) this, of t]
    then show ?case using Cons.IH [of "safety_step c t e"] Cons.prems(2) ev by simp
  qed simp
  then show ?thesis by (simp add: latched_def)
qed

theorem estop_latch_holds_witness:
  "let c = ps_safety_core_on_estop (ps_safety_core_init 0 True) 5 PS_ESTOP_THERMAL;
       evs = [(6, Tick), (7, Mode_set PS_STATE_OPERATIONAL), (8, Clear PS_CLEAR_ESTOP_MAGIC 0), (9, Tick)]
   in latched c \<and> state (safety_run c evs) = PS_STATE_ESTOP \<and> estop_cause (safety_run c evs) = 5"
proof -
  let ?c = "ps_safety_core_on_estop (ps_safety_core_init 0 True) 5 PS_ESTOP_THERMAL"
  have "latched ?c" "estop_cause ?c = 5" "clear_counter ?c = 0"
    by (simp_all add: latched_def core_defs go_def)
  then show ?thesis
    using estop_latch_holds [of ?c "[(6, Tick), (7, Mode_set PS_STATE_OPERATIONAL),
      (8, Clear PS_CLEAR_ESTOP_MAGIC 0), (9, Tick)]"] by (simp add: Let_def)
qed

text \<open>Claim C7. No replay: after a CLEAR with counter \<open>k\<close> was accepted, every later CLEAR whose counter is
  at most \<open>k\<close> (the same frame again, or an older one) is refused and changes nothing, whatever
  happened in between.\<close>

theorem clear_never_replayed:
  assumes "fst (ps_safety_core_on_clear c t magic k)" "k' \<le> k"
    and "c' = safety_run (snd (ps_safety_core_on_clear c t magic k)) evs"
  shows "ps_safety_core_on_clear c' t' magic' k' = (False, c')"
proof -
  have "clear_counter (snd (ps_safety_core_on_clear c t magic k)) = k"
    using assms(1) by (auto simp: ps_safety_core_on_clear_def Let_def split: if_splits)
  then have "k \<le> clear_counter c'" using clear_counter_run_mono assms(3) by metis
  then show ?thesis using assms(2) by (auto simp: ps_safety_core_on_clear_def)
qed

theorem clear_never_replayed_witness:
  "let c = ps_safety_core_on_estop (ps_safety_core_init 0 True) 5 PS_ESTOP_THERMAL;
       c' = safety_run (snd (ps_safety_core_on_clear c 10 PS_CLEAR_ESTOP_MAGIC 4)) [(11, Estop 5)]
   in fst (ps_safety_core_on_clear c 10 PS_CLEAR_ESTOP_MAGIC 4) \<and>
      ps_safety_core_on_clear c' 12 PS_CLEAR_ESTOP_MAGIC 4 = (False, c')"
proof -
  have "fst (ps_safety_core_on_clear (ps_safety_core_on_estop (ps_safety_core_init 0 True) 5 PS_ESTOP_THERMAL)
     10 PS_CLEAR_ESTOP_MAGIC 4)" by (simp add: core_defs go_def)
  from clear_never_replayed [OF this, of 4 _ "[(11, Estop 5)]" 12 PS_CLEAR_ESTOP_MAGIC] this
  show ?thesis unfolding Let_def by simp
qed

section \<open>The contract: a machine on unbounded time\<close>

text \<open>The modes of the state table in \<open>docs/safety.md\<close>, with the e-stop split as the code
  uses it: \<open>Latched\<close> with its cause, and \<open>Rearming\<close> once a CLEAR was accepted. The link is
  absent, or the time of the last beat, its sequence number and the start of the streak.\<close>

datatype mode = Boot | Standby | Operational | Passive | Latched u8 | Rearming | Fault

record safety_spec =
  mode :: mode
  link :: "(int \<times> u16 \<times> int) option"
  cmd :: int
  want :: bool
  counter :: u32

definition spec_init :: "int \<Rightarrow> safety_spec" where
  "spec_init t = \<lparr> mode = Boot, link = None, cmd = t - 201, want = False, counter = 0 \<rparr>"

definition alive :: "safety_spec \<Rightarrow> int \<Rightarrow> bool" where
  "alive a t \<longleftrightarrow> (\<exists>l s st. link a = Some (l, s, st) \<and> t - l \<le> 50)"

definition streak :: "safety_spec \<Rightarrow> int \<Rightarrow> int" where
  "streak a t = (case link a of None \<Rightarrow> 0 | Some (l, s, st) \<Rightarrow> t - st)"

definition stop :: "u8 \<Rightarrow> safety_spec \<Rightarrow> safety_spec" where
  "stop cause a = (case mode a of Latched _ \<Rightarrow> a
     | _ \<Rightarrow> a\<lparr>mode := Latched (if cause = 0 then PS_ESTOP_SOFTWARE else cause), want := False\<rparr>)"

definition beat :: "int \<Rightarrow> u16 \<Rightarrow> (int \<times> u16 \<times> int) option \<Rightarrow> (int \<times> u16 \<times> int) option" where
  "beat t sq l = (case l of None \<Rightarrow> Some (t, sq, t)
     | Some (l, s, st) \<Rightarrow> if sq = s then Some (l, s, st) else Some (t, sq, if t - l > 50 then t else st))"

definition new_beat :: "u16 \<Rightarrow> (int \<times> u16 \<times> int) option \<Rightarrow> bool" where
  "new_beat sq l \<longleftrightarrow> (case l of None \<Rightarrow> True | Some (_, s, _) \<Rightarrow> sq \<noteq> s)"

definition spec_tick :: "safety_spec \<Rightarrow> int \<Rightarrow> mode" where
  "spec_tick a t = (case mode a of
      Boot \<Rightarrow> Standby
    | Rearming \<Rightarrow> if alive a t \<and> streak a t \<ge> 1000 then Standby else Rearming
    | Operational \<Rightarrow> if alive a t then Operational else Passive
    | Standby \<Rightarrow> if want a \<and> alive a t then Operational else Standby
    | Passive \<Rightarrow> if want a \<and> alive a t \<and> streak a t \<ge> 250 \<and> t - streak a t \<le> cmd a \<and> t - cmd a < 200
                 then Operational else Passive
    | m \<Rightarrow> m)"

fun spec_step :: "safety_spec \<Rightarrow> int \<Rightarrow> safety_event \<Rightarrow> safety_spec" where
  "spec_step a t (Heartbeat hb) =
     (if new_beat (hb_seq hb) (link a) then
        (let a = a\<lparr>link := beat t (hb_seq hb) (link a)\<rparr>
         in if hb_flags hb AND PS_HB_ESTOP_LATCHED \<noteq> 0 then stop PS_ESTOP_OPERATOR a else a)
      else a)"
| "spec_step a t (Estop cause) = stop cause a"
| "spec_step a t (Local_fault cause) = stop cause a"
| "spec_step a t (Clear magic k) =
     (if magic = PS_CLEAR_ESTOP_MAGIC \<and> counter a < k
      then a\<lparr>counter := k, mode := (case mode a of Latched _ \<Rightarrow> Rearming | m \<Rightarrow> m)\<rparr> else a)"
| "spec_step a t Cmd = a\<lparr>cmd := t\<rparr>"
| "spec_step a t (Mode_set s) =
     (if s = PS_STATE_OPERATIONAL then a\<lparr>want := True\<rparr>
      else if s = PS_STATE_STANDBY
        then a\<lparr>want := False, mode := (if mode a \<in> {Operational, Passive} then Standby else mode a)\<rparr>
      else if s = PS_STATE_PASSIVE
        then a\<lparr>want := False, mode := (if mode a \<in> {Operational, Standby} then Passive else mode a)\<rparr>
      else if s = PS_STATE_ESTOP then stop PS_ESTOP_OPERATOR a
      else a)"
| "spec_step a t Bus_down =
     a\<lparr>link := None, mode := (if mode a = Operational then Passive else mode a)\<rparr>"
| "spec_step a t Tick = a\<lparr>mode := spec_tick a t\<rparr>"

definition spec_run :: "safety_spec \<Rightarrow> (int \<times> safety_event) list \<Rightarrow> safety_spec" where
  "spec_run = foldl (\<lambda>a (t, e). spec_step a t e)"

lemma spec_run_simps [simp]:
  "spec_run a [] = a" "spec_run a (evs @ [(t, e)]) = spec_step (spec_run a evs) t e"
  by (simp_all add: spec_run_def)

section \<open>Refinement\<close>

fun mode_rel :: "mode \<Rightarrow> u8 \<Rightarrow> u8 \<Rightarrow> bool" where
  "mode_rel Boot s k \<longleftrightarrow> s = PS_STATE_BOOT"
| "mode_rel Standby s k \<longleftrightarrow> s = PS_STATE_STANDBY"
| "mode_rel Operational s k \<longleftrightarrow> s = PS_STATE_OPERATIONAL"
| "mode_rel Passive s k \<longleftrightarrow> s = PS_STATE_PASSIVE"
| "mode_rel (Latched cause) s k \<longleftrightarrow> s = PS_STATE_ESTOP \<and> k = cause \<and> cause \<noteq> 0"
| "mode_rel Rearming s k \<longleftrightarrow> s = PS_STATE_ESTOP \<and> k = 0"
| "mode_rel Fault s k \<longleftrightarrow> s = PS_STATE_FAULT"

definition link_rel :: "(int \<times> u16 \<times> int) option \<Rightarrow> ps_safety_core \<Rightarrow> bool" where
  "link_rel l c = (case l of None \<Rightarrow> \<not> have_hb c
     | Some (t, s, st) \<Rightarrow> have_hb c \<and> last_hb_ms c = of_int t \<and> last_hb_seq c = s \<and> hb_streak_start_ms c = of_int st)"

definition core_rel :: "ps_safety_core \<Rightarrow> safety_spec \<Rightarrow> bool" where
  "core_rel c a \<longleftrightarrow> mode_rel (mode a) (state c) (estop_cause c) \<and> link_rel (link a) c \<and>
     last_cmd_ms c = of_int (cmd a) \<and> want_operational c = want a \<and> clear_counter c = counter a"

text \<open>Time stamps the machine holds lie between its start and now.\<close>

definition spec_times :: "int \<Rightarrow> int \<Rightarrow> safety_spec \<Rightarrow> bool" where
  "spec_times t0 t a \<longleftrightarrow> t0 \<le> t \<and> t0 - 201 \<le> cmd a \<and> cmd a \<le> t \<and>
     (\<forall>l s st. link a = Some (l, s, st) \<longrightarrow> t0 \<le> st \<and> st \<le> l \<and> l \<le> t)"

lemma elapsed_of_int:
  assumes "\<bar>a - b\<bar> < 2 ^ 31"
  shows "elapsed (of_int a) (of_int b) = a - b"
proof -
  have "elapsed (of_int a) (of_int b) = signed_take_bit 31 (a - b)"
    unfolding elapsed_def by (simp add: signed_of_int flip: of_int_diff)
  then show ?thesis using assms by (simp add: signed_take_bit_int_eq_self)
qed

lemma stop_simps [simp]:
  "link (stop k a) = link a" "cmd (stop k a) = cmd a" "counter (stop k a) = counter a"
  by (simp_all add: stop_def split: mode.split)

lemma spec_times_step:
  assumes "spec_times t0 t a" "t \<le> t'"
  shows "spec_times t0 t' (spec_step a t' e)"
  using assms
  by (cases e) (auto simp: spec_times_def beat_def Let_def split: option.splits if_splits)

lemma core_rel_init: "core_rel (ps_safety_core_init (of_int t) cb) (spec_init t)"
  by (simp add: core_rel_def ps_safety_core_init_def spec_init_def link_rel_def)

lemma core_rel_stop: "core_rel c a \<Longrightarrow> core_rel (ps_safety_core_on_estop c t k) (stop k a)"
  by (cases "mode a") (auto simp: core_rel_def ps_safety_core_on_estop_def stop_def link_rel_def Let_def
    split: option.splits)

text \<open>The simulation relation at time \<open>t\<close> of a run that started at \<open>t0\<close>.\<close>

definition core_sim :: "int \<Rightarrow> int \<Rightarrow> ps_safety_core \<Rightarrow> safety_spec \<Rightarrow> bool" where
  "core_sim t0 t c a \<longleftrightarrow> core_rel c a \<and> spec_times t0 t a \<and> t < t0 + 2 ^ 31 - 201"

lemma core_sim_later:
  "core_sim t0 t c a \<Longrightarrow> t \<le> t' \<Longrightarrow> t' < t0 + 2 ^ 31 - 201 \<Longrightarrow> core_sim t0 t' c a"
  by (fastforce simp: core_sim_def spec_times_def)

lemmas rel_unfold = core_sim_def core_rel_def link_rel_def spec_times_def elapsed_of_int

lemma rel_heartbeat_ok: "core_sim t0 t c a \<Longrightarrow> heartbeat_ok c (of_int t) \<longleftrightarrow> alive a t"
  by (auto simp: rel_unfold heartbeat_ok_def alive_def split: option.splits)

lemma rel_streak: "core_sim t0 t c a \<Longrightarrow> streak_ms c (of_int t) = streak a t"
  by (auto simp: rel_unfold streak_ms_def streak_def split: option.splits)

lemma rel_cmd_fresh: "core_sim t0 t c a \<Longrightarrow> ps_safety_core_cmd_fresh c (of_int t) \<longleftrightarrow> t - cmd a < 200"
  by (auto simp: rel_unfold ps_safety_core_cmd_fresh_def)

lemma rel_cmd_in_streak:
  "core_sim t0 t c a \<Longrightarrow> alive a t \<Longrightarrow>
    0 \<le> elapsed (last_cmd_ms c) (hb_streak_start_ms c) \<longleftrightarrow> t - streak a t \<le> cmd a"
  by (auto simp: rel_unfold alive_def streak_def split: option.splits)

lemma core_rel_go:
  "core_rel c a \<Longrightarrow> mode_rel m s (estop_cause c) \<Longrightarrow> core_rel (go c s k) (a\<lparr>mode := m\<rparr>)"
  by (auto simp: core_rel_def link_rel_def split: option.splits)

lemma core_rel_same_mode: "mode a = m \<Longrightarrow> core_rel c (a\<lparr>mode := m\<rparr>) = core_rel c a"
  by (simp add: core_rel_def)

lemma sim_tick:
  assumes "core_sim t0 t c a"
  shows "core_rel (ps_safety_core_tick c (of_int t)) (a\<lparr>mode := spec_tick a t\<rparr>)"
proof -
  have r: "core_rel c a" using assms by (simp add: core_sim_def)
  then have m: "mode_rel (mode a) (state c) (estop_cause c)" and w: "want_operational c = want a"
    by (simp_all add: core_rel_def)
  note eqs = rel_heartbeat_ok [OF assms] rel_streak [OF assms] rel_cmd_fresh [OF assms]
    rel_cmd_in_streak [OF assms] w
  show ?thesis
    using m r
    by (cases "mode a")
       (auto simp: ps_safety_core_tick_def spec_tick_def eqs core_rel_same_mode intro!: core_rel_go)
qed

lemma sim_heartbeat:
  assumes "core_sim t0 t c a"
  shows "core_rel (ps_safety_core_on_heartbeat c (of_int t) hb) (spec_step a t (Heartbeat hb))"
proof -
  let ?c = "c\<lparr>hb_streak_start_ms := (if \<not> have_hb c \<or> elapsed (of_int t) (last_hb_ms c) > 50
      then of_int t else hb_streak_start_ms c), have_hb := True, last_hb_ms := of_int t, last_hb_seq := hb_seq hb\<rparr>"
  have dup: "have_hb c \<and> hb_seq hb = last_hb_seq c \<longleftrightarrow> \<not> new_beat (hb_seq hb) (link a)"
    using assms by (auto simp: rel_unfold new_beat_def split: option.splits)
  have rel: "core_rel ?c (a\<lparr>link := beat t (hb_seq hb) (link a)\<rparr>)" if "new_beat (hb_seq hb) (link a)"
    using assms that by (auto simp: rel_unfold beat_def new_beat_def split: option.splits)
  have "ps_safety_core_on_heartbeat c (of_int t) hb = (if \<not> new_beat (hb_seq hb) (link a) then c
      else if hb_flags hb AND PS_HB_ESTOP_LATCHED \<noteq> 0 then ps_safety_core_on_estop ?c (of_int t) PS_ESTOP_OPERATOR
      else ?c)"
    by (simp add: ps_safety_core_on_heartbeat_def dup [symmetric] Let_def)
  then show ?thesis
    using rel core_rel_stop [OF rel] assms by (auto simp: Let_def core_sim_def)
qed

lemma sim_step:
  assumes "core_sim t0 t c a"
  shows "core_rel (safety_step c (of_int t) e) (spec_step a t e)"
proof -
  have r: "core_rel c a" using assms by (simp add: core_sim_def)
  show ?thesis
  proof (cases e)
    case (Mode_set s)
    then show ?thesis using r core_rel_stop [OF r]
      by (cases "mode a") (auto simp: core_rel_def link_rel_def ps_safety_core_on_mode_set_def Let_def
        split: option.splits)
  next
    case (Clear m k)
    then show ?thesis using r
      by (cases "mode a") (auto simp: core_rel_def link_rel_def ps_safety_core_on_clear_def Let_def not_le
        split: option.splits)
  next
    case Bus_down
    then show ?thesis using r
      by (cases "mode a") (auto simp: core_rel_def link_rel_def ps_safety_core_on_bus_down_def Let_def)
  next
    case Cmd
    then show ?thesis using r
      by (auto simp: core_rel_def link_rel_def ps_safety_core_on_cmd_def split: option.splits)
  qed (use sim_tick sim_heartbeat core_rel_stop r assms in
       \<open>auto simp: ps_safety_core_on_local_fault_def\<close>)
qed

section \<open>Reachable states\<close>

text \<open>\<open>safety_reach t0 cb h t c\<close>: a node that was initialised at real time \<open>t0\<close> and then saw the events
  \<open>h\<close>, in order and at the real times they carry, is in state \<open>c\<close> at time \<open>t\<close>. The code sees the
  times modulo \<open>2^32\<close>.\<close>

inductive safety_reach ::
    "int \<Rightarrow> bool \<Rightarrow> (int \<times> safety_event) list \<Rightarrow> int \<Rightarrow> ps_safety_core \<Rightarrow> bool" where
  start: "safety_reach t0 cb [] t0 (ps_safety_core_init (of_int t0) cb)"
| step: "safety_reach t0 cb h t c \<Longrightarrow> t \<le> t' \<Longrightarrow> t' < t0 + 2 ^ 31 - 201 \<Longrightarrow>
    safety_reach t0 cb (h @ [(t', e)]) t' (safety_step c (of_int t') e)"

inductive_cases safety_reach_NilE: "safety_reach t0 cb [] t c"

lemma reach_sim: "safety_reach t0 cb h t c \<Longrightarrow> core_sim t0 t c (spec_run (spec_init t0) h)"
proof (induction rule: safety_reach.induct)
  case (start t0 cb)
  have "spec_times t0 t0 (spec_init t0)" by (simp add: spec_times_def spec_init_def)
  then show ?case by (simp add: core_sim_def core_rel_init)
next
  case (step t0 cb h t c t' e)
  let ?a = "spec_run (spec_init t0) h"
  have "core_sim t0 t' c ?a" using core_sim_later step by blast
  moreover have "spec_times t0 t' (spec_step ?a t' e)"
    using step(2,4) by (intro spec_times_step) (simp_all add: core_sim_def)
  ultimately show ?case using sim_step step(3) by (simp add: core_sim_def)
qed

lemma reach_times: "safety_reach t0 cb h t c \<Longrightarrow> (\<forall>(\<tau>, e) \<in> set h. \<tau> \<le> t) \<and> t0 \<le> t"
  by (induction rule: safety_reach.induct) auto

definition beats :: "(int \<times> safety_event) list \<Rightarrow> int set" where
  "beats h = {\<tau>. \<exists>hb. (\<tau>, Heartbeat hb) \<in> set h}"

lemma beats_snoc:
  "beats h \<subseteq> beats (h @ [(t, e)])" "t \<in> beats (h @ [(t, Heartbeat hb)])"
  by (auto simp: beats_def)

text \<open>What the machine remembers is what happened: the streak is covered by beats without a
  gap of more than 50 ms, and the command time is that of a command.\<close>

definition link_history :: "(int \<times> safety_event) list \<Rightarrow> (int \<times> u16 \<times> int) option \<Rightarrow> bool" where
  "link_history h l \<longleftrightarrow> (case l of None \<Rightarrow> True | Some (l, s, st) \<Rightarrow> l \<in> beats h \<and>
     (\<forall>\<tau>. st \<le> \<tau> \<and> \<tau> \<le> l \<longrightarrow> (\<exists>b \<in> beats h. \<tau> - 50 \<le> b \<and> b \<le> \<tau>)))"

lemma link_history_mono: "link_history h l \<Longrightarrow> beats h \<subseteq> beats h' \<Longrightarrow> link_history h' l"
  unfolding link_history_def by (auto split: option.splits) blast

lemma link_history_None [simp]: "link_history h None"
  by (simp add: link_history_def)

lemma link_history_beat:
  assumes "link_history h l" "\<forall>l' s st. l = Some (l', s, st) \<longrightarrow> l' \<le> t"
  shows "link_history (h @ [(t, Heartbeat hb)]) (beat t sq l)"
proof (cases l)
  case None
  then show ?thesis by (auto simp: link_history_def beat_def beats_def)
next
  case (Some q)
  obtain l' s st where l: "l = Some (l', s, st)" using Some by (cases q) auto
  let ?B = "beats (h @ [(t, Heartbeat hb)])"
  have old: "link_history (h @ [(t, Heartbeat hb)]) l"
    using assms(1) beats_snoc(1) by (rule link_history_mono)
  have t: "t \<in> ?B" and l': "l' \<in> ?B" using old l beats_snoc by (auto simp: link_history_def)
  have "\<exists>b \<in> ?B. \<tau> - 50 \<le> b \<and> b \<le> \<tau>" if "st \<le> \<tau>" "\<tau> \<le> t" "t - l' \<le> 50" for \<tau>
  proof (cases "\<tau> \<le> l'")
    case True
    then show ?thesis using old l that by (auto simp: link_history_def)
  next
    case False
    then show ?thesis using l' that by (intro bexI [of _ l']) auto
  qed
  then show ?thesis using old l t by (auto simp: link_history_def beat_def intro: bexI [of _ t])
qed

lemma beat_old: "\<not> new_beat sq l \<Longrightarrow> beat t sq l = l"
  by (auto simp: beat_def new_beat_def split: option.splits if_splits)

lemma reach_history:
  assumes "safety_reach t0 cb h t c"
  shows "link_history h (link (spec_run (spec_init t0) h)) \<and>
    (cmd (spec_run (spec_init t0) h) = t0 - 201 \<or> (cmd (spec_run (spec_init t0) h), Cmd) \<in> set h)"
  using assms
proof (induction rule: safety_reach.induct)
  case (step t0 cb h t c t' e)
  let ?a = "spec_run (spec_init t0) h"
  have "\<forall>l' s st. link ?a = Some (l', s, st) \<longrightarrow> l' \<le> t'"
    using reach_sim [OF step(1)] step(2) by (fastforce simp: core_sim_def spec_times_def)
  note new = link_history_beat [OF _ this] and old = link_history_mono [OF _ beats_snoc(1)]
  show ?case using step.IH new old by (cases e) (auto simp: Let_def)
qed (simp add: spec_init_def link_history_def)

lemma spec_enter_operational:
  "mode (spec_step a t e) = Operational \<Longrightarrow> e \<noteq> Tick \<Longrightarrow> mode a = Operational"
  by (cases e) (auto simp: stop_def Let_def split: if_splits mode.splits)

lemma reach_operational_ticks:
  assumes "safety_reach t0 cb h t c"
  shows "mode (spec_run (spec_init t0) h) = Operational \<longrightarrow>
    (\<forall>tk. (tk, Tick) \<in> set h \<longrightarrow> (\<exists>b \<in> beats h. tk - 50 \<le> b))"
  using assms
proof (induction rule: safety_reach.induct)
  case (step t0 cb h t c t' e)
  let ?a = "spec_run (spec_init t0) h"
  show ?case
  proof (cases "e = Tick")
    case True
    have times: "\<forall>(\<tau>, e) \<in> set (h @ [(t', e)]). \<tau> \<le> t'"
      using reach_times [OF safety_reach.step [OF step(1-3), of e]] by blast
    have "\<exists>b \<in> beats h. t' - 50 \<le> b" if "spec_tick ?a t' = Operational"
    proof -
      have "alive ?a t'" using that by (auto simp: spec_tick_def split: mode.splits if_splits)
      then obtain l s st where "link ?a = Some (l, s, st)" "t' - l \<le> 50" by (auto simp: alive_def)
      then show ?thesis using reach_history [OF step(1)] by (auto simp: link_history_def intro!: bexI [of _ l])
    qed
    then obtain b where b: "b \<in> beats (h @ [(t', e)])" "t' - 50 \<le> b" if "spec_tick ?a t' = Operational"
      using beats_snoc(1) [of h t' e] by blast
    then have "\<exists>b \<in> beats (h @ [(t', e)]). tk - 50 \<le> b"
      if "spec_tick ?a t' = Operational" "(tk, Tick) \<in> set (h @ [(t', e)])" for tk
      using that times by (intro bexI [of _ b]) auto
    then show ?thesis using True by auto
  next
    case False
    then show ?thesis using step.IH spec_enter_operational [of ?a t' e] beats_snoc(1) [of h t' e]
      by auto blast
  qed
qed (simp add: spec_init_def)

lemma reach_run:
  assumes "sorted (t0 # map fst h)" "\<forall>(t, e) \<in> set h. t < t0 + 2 ^ 31 - 201"
  shows "safety_reach t0 cb h (last (t0 # map fst h))
    (safety_run (ps_safety_core_init (of_int t0) cb) (map (\<lambda>(t, e). (of_int t, e)) h))"
  using assms
proof (induction h rule: rev_induct)
  case (snoc ev h)
  obtain t e where ev: "ev = (t, e)" by fastforce
  have "last (t0 # map fst h) \<le> t" using snoc.prems(1) ev by (auto simp: sorted_append last_map)
  then show ?case
    using safety_reach.step [of t0 cb h "last (t0 # map fst h)" _ t e] snoc ev
    by (auto simp: sorted_append)
qed (simp add: safety_reach.start)

section \<open>Properties of runs\<close>

text \<open>Claim C5. Refinement: on every run of events with non-decreasing times that is shorter than
  \<open>2^31 - 201\<close> ms (24 days), wherever the 32-bit clock stands at the start and whether or not it wraps, the code is in the
  state of the abstract machine on unbounded time: same mode, e-stop cause, link state, pending request and
  accepted counter.\<close>

theorem safety_core_refines_spec:
  assumes "safety_reach t0 cb h t c"
  shows "core_rel c (spec_run (spec_init t0) h)"
  using reach_sim [OF assms] by (simp add: core_sim_def)

theorem safety_core_refines_spec_witness:
  "let h = [(2 ^ 32 - 5, Tick), (2 ^ 32 + 3, Mode_set PS_STATE_OPERATIONAL)];
       c = safety_run (ps_safety_core_init (of_int (2 ^ 32 - 10)) True) [(of_int (2 ^ 32 - 5), Tick), (3, Mode_set PS_STATE_OPERATIONAL)]
   in safety_reach (2 ^ 32 - 10) True h (2 ^ 32 + 3) c \<and> core_rel c (spec_run (spec_init (2 ^ 32 - 10)) h)"
proof -
  have w: "(4294967299 :: u32) = 3" by simp
  have "safety_reach (2 ^ 32 - 10) True [(2 ^ 32 - 5, Tick), (2 ^ 32 + 3, Mode_set PS_STATE_OPERATIONAL)] (2 ^ 32 + 3)
     (safety_run (ps_safety_core_init (of_int (2 ^ 32 - 10)) True) [(of_int (2 ^ 32 - 5), Tick), (3, Mode_set PS_STATE_OPERATIONAL)])"
    using reach_run [of "2 ^ 32 - 10" "[(2 ^ 32 - 5, Tick), (2 ^ 32 + 3, Mode_set PS_STATE_OPERATIONAL)]" True]
    by (simp add: w)
  then show ?thesis using safety_core_refines_spec unfolding Let_def by blast
qed

text \<open>Claim C2. The dead-man bound in time: a node whose tick ran within the last 5 ms (its timer
  period) and that is OPERATIONAL has heard a heartbeat within the last 55 ms.\<close>

theorem operational_implies_recent_beat:
  assumes "safety_reach t0 cb h t c" "state c = PS_STATE_OPERATIONAL" "(tk, Tick) \<in> set h" "t - 5 \<le> tk"
  shows "\<exists>b hb. (b, Heartbeat hb) \<in> set h \<and> t - 55 \<le> b"
proof -
  let ?a = "spec_run (spec_init t0) h"
  have "mode_rel (mode ?a) (state c) (estop_cause c)"
    using reach_sim [OF assms(1)] by (simp add: core_sim_def core_rel_def)
  then have "mode ?a = Operational" using assms(2) by (cases "mode ?a") auto
  then show ?thesis using reach_operational_ticks [OF assms(1)] assms(3,4) by (fastforce simp: beats_def)
qed

text \<open>Claim C3. Recovery from a lost link is never on a stale or flapping link: when a tick takes a
  PASSIVE node to OPERATIONAL, then at every instant of the last 250 ms the newest heartbeat was at most 50 ms
  old, and an actuation command arrived less than 200 ms ago.\<close>

theorem rearm_needs_continuous_link:
  assumes "safety_reach t0 cb h t c" "t \<le> t'" "t' < t0 + 2 ^ 31 - 201"
    and "state c = PS_STATE_PASSIVE" "state (ps_safety_core_tick c (of_int t')) = PS_STATE_OPERATIONAL"
  shows "(\<forall>\<tau>. t' - 250 \<le> \<tau> \<and> \<tau> \<le> t' \<longrightarrow> (\<exists>b hb. (b, Heartbeat hb) \<in> set h \<and> \<tau> - 50 \<le> b \<and> b \<le> \<tau>))
    \<and> (\<exists>tc. (tc, Cmd) \<in> set h \<and> t' - 200 < tc \<and> tc \<le> t')"
proof -
  let ?a = "spec_run (spec_init t0) h"
  have sim: "core_sim t0 t' c ?a" using core_sim_later reach_sim [OF assms(1)] assms(2,3) by blast
  then have "mode ?a = Passive" using assms(4) by (cases "mode ?a") (auto simp: core_sim_def core_rel_def)
  moreover have "mode_rel (spec_tick ?a t') PS_STATE_OPERATIONAL (estop_cause (ps_safety_core_tick c (of_int t')))"
    using sim_tick [OF sim] assms(5) by (simp add: core_rel_def)
  ultimately have a: "alive ?a t'" "250 \<le> streak ?a t'" "t' - cmd ?a < 200"
    by (auto simp: spec_tick_def split: if_splits)
  then obtain l s st where l: "link ?a = Some (l, s, st)" "t' - l \<le> 50" "st \<le> t' - 250"
    by (auto simp: alive_def streak_def)
  have lb: "l \<in> beats h" and cov: "\<And>\<tau>. st \<le> \<tau> \<Longrightarrow> \<tau> \<le> l \<Longrightarrow> \<exists>b \<in> beats h. \<tau> - 50 \<le> b \<and> b \<le> \<tau>"
    using reach_history [OF assms(1)] l by (auto simp: link_history_def)
  have "\<exists>b \<in> beats h. \<tau> - 50 \<le> b \<and> b \<le> \<tau>" if "t' - 250 \<le> \<tau>" "\<tau> \<le> t'" for \<tau>
    using that l lb cov [of \<tau>] by (cases "\<tau> \<le> l") (auto intro!: bexI [of _ l])
  moreover have "cmd ?a \<le> t'" "t0 \<le> t'" using sim by (auto simp: core_sim_def spec_times_def)
  then have "(cmd ?a, Cmd) \<in> set h" "cmd ?a \<le> t'" using reach_history [OF assms(1)] a(3) by auto
  ultimately show ?thesis using a(3) by (auto simp: beats_def)
qed

text \<open>A run used in the witnesses: start up, lose the bus at 20 ms, and recover.\<close>

definition hb_of :: "u16 \<Rightarrow> ps_heartbeat" where
  "hb_of n = \<lparr>hb_seq = n, hb_flags = 0, hb_src_state = PS_STATE_OPERATIONAL, hb_uptime_ms = 0\<rparr>"

definition demo_run :: "(int \<times> safety_event) list" where
  "demo_run = [(0, Tick), (1, Mode_set PS_STATE_OPERATIONAL), (10, Heartbeat (hb_of 1)), (10, Tick), (20, Bus_down),
     (30, Heartbeat (hb_of 2)), (80, Heartbeat (hb_of 3)), (130, Heartbeat (hb_of 4)), (180, Heartbeat (hb_of 5)),
     (230, Heartbeat (hb_of 6)), (270, Cmd)]"

definition demo_core :: "ps_safety_core" where
  "demo_core = \<lparr>state = PS_STATE_PASSIVE, estop_cause = 0, last_hb_seq = 6, last_hb_ms = 230, hb_streak_start_ms = 30,
     last_cmd_ms = 270, clear_counter = 0, estop_since_ms = 0, have_hb = True, want_operational = True,
     on_transition = True, calls = [(0, 1, 0), (1, 2, 0), (2, 3, 6)]\<rparr>"

lemma demo_reach: "safety_reach 0 True demo_run 270 demo_core"
proof -
  have "safety_run (ps_safety_core_init 0 True) (map (\<lambda>(t, e). (of_int t, e)) demo_run) = demo_core"
    by (simp add: demo_run_def demo_core_def core_defs go_def heartbeat_ok_def elapsed_def hb_of_def)
  then show ?thesis using reach_run [of 0 demo_run True] by (simp add: demo_run_def)
qed

lemma demo_reach_280: "safety_reach 0 True (demo_run @ [(280, Heartbeat (hb_of 7))]) 280
   (demo_core\<lparr>last_hb_seq := 7, last_hb_ms := 280\<rparr>)"
proof -
  have "safety_step demo_core 280 (Heartbeat (hb_of 7)) = demo_core\<lparr>last_hb_seq := 7, last_hb_ms := 280\<rparr>"
    by (simp add: demo_core_def core_defs go_def elapsed_def hb_of_def)
  then show ?thesis using safety_reach.step [OF demo_reach, of 280 "Heartbeat (hb_of 7)"] by simp
qed

theorem rearm_needs_continuous_link_witness:
  "state (demo_core\<lparr>last_hb_seq := 7, last_hb_ms := 280\<rparr>) = PS_STATE_PASSIVE \<and>
   state (ps_safety_core_tick (demo_core\<lparr>last_hb_seq := 7, last_hb_ms := 280\<rparr>) 280) = PS_STATE_OPERATIONAL \<and>
   (\<exists>tc. (tc, Cmd) \<in> set (demo_run @ [(280, Heartbeat (hb_of 7))]) \<and> 80 < tc)"
proof -
  have s: "state (demo_core\<lparr>last_hb_seq := 7, last_hb_ms := 280\<rparr>) = PS_STATE_PASSIVE"
    "state (ps_safety_core_tick (demo_core\<lparr>last_hb_seq := 7, last_hb_ms := 280\<rparr>) (of_int 280)) = PS_STATE_OPERATIONAL"
    by (simp_all add: demo_core_def core_defs heartbeat_ok_def streak_ms_def elapsed_def)
  show ?thesis using rearm_needs_continuous_link [OF demo_reach_280 _ _ s] s by auto
qed

theorem operational_implies_recent_beat_witness:
  "\<exists>c. safety_reach 0 True (demo_run @ [(280, Heartbeat (hb_of 7)), (280, Tick)]) 280 c \<and> state c = PS_STATE_OPERATIONAL \<and>
    (\<exists>b hb. (b, Heartbeat hb) \<in> set (demo_run @ [(280, Heartbeat (hb_of 7)), (280, Tick)]) \<and> 225 \<le> b)"
proof -
  let ?h = "demo_run @ [(280, Heartbeat (hb_of 7)), (280, Tick)]"
  let ?c = "safety_step (demo_core\<lparr>last_hb_seq := 7, last_hb_ms := 280\<rparr>) 280 Tick"
  have r: "safety_reach 0 True ?h 280 ?c"
    using safety_reach.step [OF demo_reach_280, of 280 Tick] by simp
  moreover have s: "state ?c = PS_STATE_OPERATIONAL"
    by (simp add: demo_core_def core_defs heartbeat_ok_def streak_ms_def elapsed_def)
  ultimately show ?thesis using operational_implies_recent_beat [OF r s, of 280] by auto
qed

text \<open>The streak that ends an e-stop is not counted from the CLEAR: a node that keeps
  hearing heartbeats while it is stopped leaves ESTOP on the very tick after the CLEAR.
  (\<open>docs/safety.md\<close> asks for a second of heartbeats after it.)\<close>

lemma estop_exit_right_after_clear:
  "let beats = map (\<lambda>i. (of_nat (50 * i), Heartbeat (hb_of (of_nat i)))) [0..<21];
       c = safety_run (ps_safety_core_init 0 True) ([(0, Tick), (0, Estop PS_ESTOP_THERMAL)] @ beats);
       c' = snd (ps_safety_core_on_clear c 1000 PS_CLEAR_ESTOP_MAGIC 1)
   in latched c \<and> state (ps_safety_core_tick c' 1000) = PS_STATE_STANDBY"
  by (simp add: upt_rec latched_def core_defs go_def heartbeat_ok_def streak_ms_def elapsed_def hb_of_def Let_def)

end
