(* ===== verification/Can_Id.thy ===== *)
theory Can_Id
  imports Prelude
begin

text \<open>
  The CAN identifier layout, \<open>common/c/include/powersuit_proto/can_id.h\<close>:
  \<open>class(3) | src(5) | dst(5) | type(8) | low(8)\<close>. The class sits in the top bits, so that
  numerically smaller identifiers, which win CAN arbitration, are the more urgent
  classes.
\<close>

section \<open>Enumerations\<close>

abbreviation PS_CLS_SAFETY :: u8 where "PS_CLS_SAFETY \<equiv> 0"
abbreviation PS_CLS_CONTROL :: u8 where "PS_CLS_CONTROL \<equiv> 1"
abbreviation PS_CLS_TELEM :: u8 where "PS_CLS_TELEM \<equiv> 2"
abbreviation PS_CLS_XRCE :: u8 where "PS_CLS_XRCE \<equiv> 3"
abbreviation PS_CLS_AUDIO :: u8 where "PS_CLS_AUDIO \<equiv> 4"
abbreviation PS_CLS_MGMT :: u8 where "PS_CLS_MGMT \<equiv> 5"

abbreviation PS_NODE_BROADCAST :: u8 where "PS_NODE_BROADCAST \<equiv> 0"
abbreviation PS_NODE_ARM_R :: u8 where "PS_NODE_ARM_R \<equiv> 1"
abbreviation PS_NODE_ARM_L :: u8 where "PS_NODE_ARM_L \<equiv> 2"
abbreviation PS_NODE_LEG_R :: u8 where "PS_NODE_LEG_R \<equiv> 3"
abbreviation PS_NODE_LEG_L :: u8 where "PS_NODE_LEG_L \<equiv> 4"
abbreviation PS_NODE_FLIGHT :: u8 where "PS_NODE_FLIGHT \<equiv> 5"
abbreviation PS_NODE_HELMET :: u8 where "PS_NODE_HELMET \<equiv> 6"
abbreviation PS_NODE_HUB :: u8 where "PS_NODE_HUB \<equiv> 7"
abbreviation PS_NODE_ORCH :: u8 where "PS_NODE_ORCH \<equiv> 8"

abbreviation PS_T_HEARTBEAT :: u8 where "PS_T_HEARTBEAT \<equiv> 0x01"
abbreviation PS_T_ESTOP :: u8 where "PS_T_ESTOP \<equiv> 0x02"
abbreviation PS_T_CLEAR_ESTOP :: u8 where "PS_T_CLEAR_ESTOP \<equiv> 0x03"
abbreviation PS_T_NODE_FAULT :: u8 where "PS_T_NODE_FAULT \<equiv> 0x04"
abbreviation PS_T_JOINT_CMD :: u8 where "PS_T_JOINT_CMD \<equiv> 0x10"
abbreviation PS_T_FLAP_CMD :: u8 where "PS_T_FLAP_CMD \<equiv> 0x11"
abbreviation PS_T_MODE_SET :: u8 where "PS_T_MODE_SET \<equiv> 0x12"
abbreviation PS_T_LED_PATTERN :: u8 where "PS_T_LED_PATTERN \<equiv> 0x13"
abbreviation PS_T_JOINT_STATE :: u8 where "PS_T_JOINT_STATE \<equiv> 0x20"
abbreviation PS_T_IMU_QUAT :: u8 where "PS_T_IMU_QUAT \<equiv> 0x21"
abbreviation PS_T_IMU_ACC :: u8 where "PS_T_IMU_ACC \<equiv> 0x22"
abbreviation PS_T_IMU_GYR :: u8 where "PS_T_IMU_GYR \<equiv> 0x23"
abbreviation PS_T_FORCE :: u8 where "PS_T_FORCE \<equiv> 0x24"
abbreviation PS_T_BMS_SUMMARY :: u8 where "PS_T_BMS_SUMMARY \<equiv> 0x25"
abbreviation PS_T_BMS_CELLS :: u8 where "PS_T_BMS_CELLS \<equiv> 0x26"
abbreviation PS_T_AERO_STATE :: u8 where "PS_T_AERO_STATE \<equiv> 0x27"
abbreviation PS_T_FLAP_STATE :: u8 where "PS_T_FLAP_STATE \<equiv> 0x28"
abbreviation PS_T_ENV :: u8 where "PS_T_ENV \<equiv> 0x29"
abbreviation PS_T_NODE_STATS :: u8 where "PS_T_NODE_STATS \<equiv> 0x2A"
abbreviation PS_T_XRCE_STREAM :: u8 where "PS_T_XRCE_STREAM \<equiv> 0x30"
abbreviation PS_T_AUDIO_DOWN :: u8 where "PS_T_AUDIO_DOWN \<equiv> 0x40"
abbreviation PS_T_AUDIO_UP :: u8 where "PS_T_AUDIO_UP \<equiv> 0x41"
abbreviation PS_T_AUDIO_SYNC :: u8 where "PS_T_AUDIO_SYNC \<equiv> 0x42"
abbreviation PS_T_AUDIO_CTL :: u8 where "PS_T_AUDIO_CTL \<equiv> 0x43"
abbreviation PS_T_TIME_SYNC :: u8 where "PS_T_TIME_SYNC \<equiv> 0x50"
abbreviation PS_T_FLOW_CTL :: u8 where "PS_T_FLOW_CTL \<equiv> 0x51"
abbreviation PS_T_STATS_REQ :: u8 where "PS_T_STATS_REQ \<equiv> 0x52"
abbreviation PS_T_LOG :: u8 where "PS_T_LOG \<equiv> 0x53"
abbreviation PS_T_VERSION :: u8 where "PS_T_VERSION \<equiv> 0x54"

section \<open>Packing and unpacking\<close>

record ps_can_id =
  id_cls :: u8
  id_src :: u8
  id_dst :: u8
  id_type :: u8
  id_low :: u8

abbreviation PS_CAN_ID_MASK :: u32 where "PS_CAN_ID_MASK \<equiv> 0x1FFFFFFF"

definition ps_can_id_pack :: "u8 \<Rightarrow> u8 \<Rightarrow> u8 \<Rightarrow> u8 \<Rightarrow> u8 \<Rightarrow> u32" where
  "ps_can_id_pack cls src dst ty low =
     push_bit 26 (ucast cls AND 0x7) OR
     push_bit 21 (ucast src AND 0x1F) OR
     push_bit 16 (ucast dst AND 0x1F) OR
     push_bit 8 (ucast ty) OR
     ucast low"

definition ps_can_id_unpack :: "u32 \<Rightarrow> ps_can_id" where
  "ps_can_id_unpack i =
     \<lparr> id_cls = ucast (drop_bit 26 i AND 0x7),
       id_src = ucast (drop_bit 21 i AND 0x1F),
       id_dst = ucast (drop_bit 16 i AND 0x1F),
       id_type = ucast (drop_bit 8 i AND 0xFF),
       id_low = ucast (i AND 0xFF) \<rparr>"

definition ps_can_id_cls :: "u32 \<Rightarrow> u8" where
  "ps_can_id_cls i = ucast (drop_bit 26 i AND 0x7)"

definition ps_can_id_src :: "u32 \<Rightarrow> u8" where
  "ps_can_id_src i = ucast (drop_bit 21 i AND 0x1F)"

definition ps_can_id_dst :: "u32 \<Rightarrow> u8" where
  "ps_can_id_dst i = ucast (drop_bit 16 i AND 0x1F)"

definition ps_can_id_type :: "u32 \<Rightarrow> u8" where
  "ps_can_id_type i = ucast (drop_bit 8 i AND 0xFF)"

definition ps_can_id_low :: "u32 \<Rightarrow> u8" where
  "ps_can_id_low i = ucast (i AND 0xFF)"

section \<open>Laws\<close>

lemmas ps_can_id_defs =
  ps_can_id_pack_def ps_can_id_cls_def ps_can_id_src_def ps_can_id_dst_def
  ps_can_id_type_def ps_can_id_low_def

lemma ps_can_id_unpack_fields [simp]:
  "id_cls (ps_can_id_unpack i) = ps_can_id_cls i"
  "id_src (ps_can_id_unpack i) = ps_can_id_src i"
  "id_dst (ps_can_id_unpack i) = ps_can_id_dst i"
  "id_type (ps_can_id_unpack i) = ps_can_id_type i"
  "id_low (ps_can_id_unpack i) = ps_can_id_low i"
  by (simp_all add: ps_can_id_unpack_def ps_can_id_defs)

lemma cls_pack: "ps_can_id_cls (ps_can_id_pack cls src dst ty low) = take_bit 3 cls"
  unfolding ps_can_id_defs mask_simps
  by (rule bit_word_eqI) (auto simp: bit_simps)

lemma src_pack: "ps_can_id_src (ps_can_id_pack cls src dst ty low) = take_bit 5 src"
  unfolding ps_can_id_defs mask_simps
  by (rule bit_word_eqI) (auto simp: bit_simps)

lemma dst_pack: "ps_can_id_dst (ps_can_id_pack cls src dst ty low) = take_bit 5 dst"
  unfolding ps_can_id_defs mask_simps
  by (rule bit_word_eqI) (auto simp: bit_simps)

lemma type_pack [simp]: "ps_can_id_type (ps_can_id_pack cls src dst ty low) = ty"
  unfolding ps_can_id_defs mask_simps
  by (rule bit_word_eqI) (auto simp: bit_simps)

lemma low_pack [simp]: "ps_can_id_low (ps_can_id_pack cls src dst ty low) = low"
  unfolding ps_can_id_defs mask_simps
  by (rule bit_word_eqI) (auto simp: bit_simps)

lemma cls_pack_small [simp]: "cls < 8 \<Longrightarrow> ps_can_id_cls (ps_can_id_pack cls src dst ty low) = cls"
  by (simp add: cls_pack take_bit_unat_small word_less_nat_alt)

lemma src_pack_small [simp]: "src < 32 \<Longrightarrow> ps_can_id_src (ps_can_id_pack cls src dst ty low) = src"
  by (simp add: src_pack take_bit_unat_small word_less_nat_alt)

lemma dst_pack_small [simp]: "dst < 32 \<Longrightarrow> ps_can_id_dst (ps_can_id_pack cls src dst ty low) = dst"
  by (simp add: dst_pack take_bit_unat_small word_less_nat_alt)

lemma ps_can_id_cls_less: "ps_can_id_cls i < 8"
  unfolding ps_can_id_cls_def mask_simps
  using unat_take_bit_less [of 3 "drop_bit 26 i"]
  by (simp add: word_less_nat_alt unsigned_ucast_eq take_bit_nat_eq_self)

lemma unat_ps_can_id_cls_less: "unat (ps_can_id_cls i) < 8"
  using ps_can_id_cls_less [of i] by (simp add: word_less_nat_alt)

lemma pack_fields:
  "ps_can_id_pack (ps_can_id_cls i) (ps_can_id_src i) (ps_can_id_dst i)
     (ps_can_id_type i) (ps_can_id_low i) = i AND PS_CAN_ID_MASK"
  unfolding ps_can_id_defs mask_simps
  apply (rule bit_word_eqI)
  subgoal for n
    by (cases "n < 8"; cases "n < 16"; cases "n < 21"; cases "n < 26"; cases "n < 29";
        (simp add: bit_simps)?) auto
  done

lemma drop_26_pack:
  "drop_bit 26 (ps_can_id_pack cls src dst ty low) = ucast (take_bit 3 cls)"
  unfolding ps_can_id_defs mask_simps
  by (rule bit_word_eqI) (auto simp: bit_simps)

section \<open>Properties\<close>

text \<open>Round trip of the identifier codec: unpacking a packed identifier gives back
  the five fields (class, source and destination cut to their 3, 5 and 5 bits), and packing
  the fields of any 32-bit value gives back its low 29 bits.\<close>

lemma can_id_roundtrip:
  "ps_can_id_unpack (ps_can_id_pack cls src dst ty low) =
     \<lparr> id_cls = cls AND 0x7, id_src = src AND 0x1F, id_dst = dst AND 0x1F,
       id_type = ty, id_low = low \<rparr> \<and>
   (let f = ps_can_id_unpack i in
      ps_can_id_pack (id_cls f) (id_src f) (id_dst f) (id_type f) (id_low f)
      = i AND PS_CAN_ID_MASK)"
proof -
  have "ps_can_id_unpack (ps_can_id_pack cls src dst ty low) =
     \<lparr> id_cls = cls AND 0x7, id_src = src AND 0x1F, id_dst = dst AND 0x1F,
       id_type = ty, id_low = low \<rparr>"
    by (rule ps_can_id.equality)
      (simp_all add: cls_pack src_pack dst_pack and_mask3 and_mask5)
  then show ?thesis by (simp add: Let_def pack_fields)
qed

text \<open>Arbitration: of two identifiers whose class fields differ, the one of the
  more urgent class (the smaller value) is numerically smaller whatever the other fields
  hold, so it wins the bus; SAFETY, class 0, wins against every other class.\<close>

lemma class_wins_arbitration:
  assumes "c1 AND 0x7 < c2 AND 0x7"
  shows "ps_can_id_pack c1 s1 d1 t1 l1 < ps_can_id_pack c2 s2 d2 t2 l2"
proof (rule drop_bit_less_imp_less [where n = 26])
  have "unat (take_bit 3 c1) < unat (take_bit 3 c2)"
    using assms by (simp only: and_mask3 word_less_nat_alt)
  then show "drop_bit 26 (ps_can_id_pack c1 s1 d1 t1 l1) < drop_bit 26 (ps_can_id_pack c2 s2 d2 t2 l2)"
    using unat_take_bit_less [of 3 c1] unat_take_bit_less [of 3 c2]
    by (simp add: drop_26_pack word_less_nat_alt unsigned_ucast_eq take_bit_nat_eq_self)
qed

end
