(* ===== verification/Can_Port.thy ===== *)
theory Can_Port
  imports Can_Id "HOL-Library.Multiset"
begin

text \<open>
  What the firmware's components see of the CAN transport (\<open>firmware/components/ps_can/include/ps_can.h\<close>):
  the frame, the link states, and, as the locale \<open>can_port\<close>, what a caller of \<open>ps_can_send\<close> may
  rely on. Also the FreeRTOS queues the components share: they are not part of the
  repository, so the model takes their operations as an argument and states what it needs of
  them as the predicate \<open>queue_ok\<close>.
\<close>

section \<open>Frames and link states\<close>

record ps_can_frame =
  f_id :: u32
  f_dlc :: u8
  f_data :: bytes \<comment> \<open>\<open>uint8_t data[8]\<close>\<close>

abbreviation PS_CAN_STATE_RUNNING :: int where "PS_CAN_STATE_RUNNING \<equiv> 0"
abbreviation PS_CAN_STATE_ERR_PASSIVE :: int where "PS_CAN_STATE_ERR_PASSIVE \<equiv> 1"
abbreviation PS_CAN_STATE_BUS_OFF :: int where "PS_CAN_STATE_BUS_OFF \<equiv> 2"
abbreviation PS_CAN_STATE_RECOVERING :: int where "PS_CAN_STATE_RECOVERING \<equiv> 3"

text \<open>What of a frame goes on the wire: the identifier and \<open>dlc\<close> payload bytes.\<close>

definition wire_image :: "ps_can_frame \<Rightarrow> u32 \<times> bytes" where
  "wire_image f = (f_id f, take (unat (f_dlc f)) (f_data f))"

text \<open>How a handler takes a payload that may be short: \<open>memset\<close> to 0, then \<open>memcpy\<close> of at most \<open>dlc\<close> and 8 bytes.\<close>

definition short_copy :: "ps_can_frame \<Rightarrow> bytes" where
  "short_copy f = (let n = (if f_dlc f < 8 then unat (f_dlc f) else 8) in blit 0 (take n (f_data f)) (replicate 8 0))"

section \<open>The port contract\<close>

text \<open>\<open>outbox\<close> is what the transport has accepted and not yet handed on: an accepted frame is added to it,
  a refused one leaves it as it is.\<close>

locale can_port =
  fixes inv :: "'w \<Rightarrow> bool" and send :: "'w \<Rightarrow> ps_can_frame \<Rightarrow> esp_err \<times> 'w"
    and outbox :: "'w \<Rightarrow> (u32 \<times> bytes) multiset"
  assumes inv_send: "inv w \<Longrightarrow> inv (snd (send w f))"
    and send_ok: "inv w \<Longrightarrow> length (f_data f) = 8 \<Longrightarrow> fst (send w f) = ESP_OK \<Longrightarrow>
      outbox (snd (send w f)) = add_mset (wire_image f) (outbox w)"
    and send_refused: "inv w \<Longrightarrow> fst (send w f) \<noteq> ESP_OK \<Longrightarrow> outbox (snd (send w f)) = outbox w"
begin

lemma outbox_mono: "inv w \<Longrightarrow> length (f_data f) = 8 \<Longrightarrow> outbox w \<subseteq># outbox (snd (send w f))"
  by (cases "fst (send w f) = ESP_OK") (auto simp: send_ok send_refused)

end

section \<open>FreeRTOS queues\<close>

text \<open>Send without waiting, receive (with \<open>None\<close> when the wait ran out), messages waiting.\<close>

record ('q, 'a) rtos_queue =
  q_send :: "'q \<Rightarrow> 'a \<Rightarrow> bool \<times> 'q"
  q_receive :: "'q \<Rightarrow> 'a option \<times> 'q"
  q_waiting :: "'q \<Rightarrow> nat"

text \<open>The documented behaviour: a FIFO of at most \<open>cap\<close> items; a send to a full queue fails
  and changes nothing.\<close>

definition queue_ok :: "('q, 'a) rtos_queue \<Rightarrow> ('q \<Rightarrow> 'a list) \<Rightarrow> nat \<Rightarrow> bool" where
  "queue_ok Q view cap \<longleftrightarrow>
     (\<forall>q x. fst (q_send Q q x) = (length (view q) < cap)
        \<and> view (snd (q_send Q q x)) = (if length (view q) < cap then view q @ [x] else view q)) \<and>
     (\<forall>q. (case view q of
            [] \<Rightarrow> fst (q_receive Q q) = None \<and> view (snd (q_receive Q q)) = []
          | x # xs \<Rightarrow> fst (q_receive Q q) = Some x \<and> view (snd (q_receive Q q)) = xs)
        \<and> q_waiting Q q = length (view q))"

lemma queue_ok_send:
  assumes "queue_ok Q view cap"
  shows "fst (q_send Q q x) \<longleftrightarrow> length (view q) < cap"
    and "length (view q) < cap \<Longrightarrow> view (snd (q_send Q q x)) = view q @ [x]"
    and "\<not> length (view q) < cap \<Longrightarrow> view (snd (q_send Q q x)) = view q"
  using assms by (simp_all add: queue_ok_def)

lemma queue_ok_receive:
  assumes "queue_ok Q view cap"
  shows "fst (q_receive Q q) = None \<longleftrightarrow> view q = []"
    and "fst (q_receive Q q) = Some x \<Longrightarrow> view q = x # view (snd (q_receive Q q))"
    and "view q = [] \<Longrightarrow> view (snd (q_receive Q q)) = []"
    and "q_waiting Q q = length (view q)"
proof -
  have "case view q of
            [] \<Rightarrow> fst (q_receive Q q) = None \<and> view (snd (q_receive Q q)) = []
          | x # xs \<Rightarrow> fst (q_receive Q q) = Some x \<and> view (snd (q_receive Q q)) = xs"
    "q_waiting Q q = length (view q)" using assms by (auto simp: queue_ok_def)
  then show "fst (q_receive Q q) = None \<longleftrightarrow> view q = []"
    "fst (q_receive Q q) = Some x \<Longrightarrow> view q = x # view (snd (q_receive Q q))"
    "view q = [] \<Longrightarrow> view (snd (q_receive Q q)) = []" "q_waiting Q q = length (view q)"
    by (auto split: list.splits)
qed

text \<open>A queue that behaves so, used where a statement about one is instantiated.\<close>

definition list_queue :: "nat \<Rightarrow> ('a list, 'a) rtos_queue" where
  "list_queue cap = \<lparr> q_send = (\<lambda>q x. if length q < cap then (True, q @ [x]) else (False, q)),
     q_receive = (\<lambda>q. case q of [] \<Rightarrow> (None, []) | x # xs \<Rightarrow> (Some x, xs)), q_waiting = length \<rparr>"

lemma list_queue_ok: "queue_ok (list_queue cap) (\<lambda>q. q) cap"
  by (auto simp: queue_ok_def list_queue_def split: list.splits)

end
