(* ===== verification/Can_Txq.thy ===== *)
theory Can_Txq
  imports Prelude "HOL-Library.Multiset"
begin

text \<open>
  The transmit order of a node, \<open>firmware/components/ps_can/src/ps_can_txq.c\<close>: eight class rings of
  16 slot indices, popped highest class first and FIFO within a class. The locale \<open>class_queue\<close>
  is the contract \<open>ps_can.c\<close> relies on; the rings implement it.
\<close>

abbreviation PS_CAN_TXQ_CLASSES :: nat where "PS_CAN_TXQ_CLASSES \<equiv> 8"
abbreviation PS_CAN_TXQ_DEPTH :: nat where "PS_CAN_TXQ_DEPTH \<equiv> 16"

record ps_can_txq =
  ring :: "u8 list list" \<comment> \<open>\<open>ring[PS_CAN_TXQ_CLASSES][PS_CAN_TXQ_DEPTH]\<close>\<close>
  head :: "u8 list"
  count :: "u8 list"

section \<open>Operations\<close>

definition ps_can_txq_init :: ps_can_txq where
  "ps_can_txq_init = \<lparr> ring = replicate PS_CAN_TXQ_CLASSES (replicate PS_CAN_TXQ_DEPTH 0),
     head = replicate PS_CAN_TXQ_CLASSES 0, count = replicate PS_CAN_TXQ_CLASSES 0 \<rparr>"

definition ps_can_txq_push :: "ps_can_txq \<Rightarrow> u8 \<Rightarrow> u8 \<Rightarrow> bool \<times> ps_can_txq" where
  "ps_can_txq_push q cls item =
     (let k = unat cls in
      if k \<ge> PS_CAN_TXQ_CLASSES \<or> unat (count q ! k) \<ge> PS_CAN_TXQ_DEPTH then (False, q)
      else
        let tail = (unat (head q ! k) + unat (count q ! k)) mod PS_CAN_TXQ_DEPTH
        in (True, q\<lparr>ring := (ring q)[k := (ring q ! k)[tail := item]],
                    count := (count q)[k := count q ! k + 1]\<rparr>))"

text \<open>The class loop of the pop from class \<open>k\<close> on; \<open>None\<close> is the \<open>-1\<close> of the code.\<close>

function txq_pop_from :: "nat \<Rightarrow> ps_can_txq \<Rightarrow> u8 option \<times> ps_can_txq" where
  "txq_pop_from k q =
     (if k < PS_CAN_TXQ_CLASSES then
        if count q ! k > 0 then
          let item = ring q ! k ! unat (head q ! k)
          in (Some item, q\<lparr>head := (head q)[k := of_nat ((unat (head q ! k) + 1) mod PS_CAN_TXQ_DEPTH)],
                           count := (count q)[k := count q ! k - 1]\<rparr>)
        else txq_pop_from (k + 1) q
      else (None, q))"
  by pat_completeness auto
termination
  by (relation "measure (\<lambda>(k, q). 8 - k)") auto

declare txq_pop_from.simps [simp del]

definition ps_can_txq_pop :: "ps_can_txq \<Rightarrow> u8 option \<times> ps_can_txq" where
  "ps_can_txq_pop q = txq_pop_from 0 q"

definition ps_can_txq_len :: "ps_can_txq \<Rightarrow> nat" where
  "ps_can_txq_len q = sum_list (map (\<lambda>k. unat (count q ! k)) [0..<PS_CAN_TXQ_CLASSES])"

section \<open>The contract of a class-ordered queue\<close>

text \<open>\<open>items q k\<close> is what waits in class \<open>k\<close>, oldest first.\<close>

locale class_queue =
  fixes inv :: "'q \<Rightarrow> bool" and items :: "'q \<Rightarrow> nat \<Rightarrow> 'i list"
    and push :: "'q \<Rightarrow> 'c \<Rightarrow> 'i \<Rightarrow> bool \<times> 'q" and pop :: "'q \<Rightarrow> 'i option \<times> 'q"
    and rank :: "'c \<Rightarrow> nat" and classes depth :: nat
  assumes inv_push: "inv q \<Longrightarrow> inv (snd (push q c x))"
    and inv_pop: "inv q \<Longrightarrow> inv (snd (pop q))"
    and push_ok: "inv q \<Longrightarrow> fst (push q c x) \<longleftrightarrow> rank c < classes \<and> length (items q (rank c)) < depth"
    and push_items: "inv q \<Longrightarrow> fst (push q c x) \<Longrightarrow> k < classes \<Longrightarrow>
      items (snd (push q c x)) k = (if k = rank c then items q k @ [x] else items q k)"
    and push_refused: "inv q \<Longrightarrow> \<not> fst (push q c x) \<Longrightarrow> snd (push q c x) = q"
    and pop_none: "inv q \<Longrightarrow> fst (pop q) = None \<longleftrightarrow> (\<forall>k < classes. items q k = [])"
    and pop_some: "inv q \<Longrightarrow> fst (pop q) = Some x \<Longrightarrow>
      \<exists>k < classes. (\<forall>j < k. items q j = []) \<and> items q k = x # items (snd (pop q)) k \<and>
        (\<forall>j < classes. j \<noteq> k \<longrightarrow> items (snd (pop q)) j = items q j)"
begin

text \<open>Everything that waits, in the order it will leave when nothing more is queued.\<close>

definition pending :: "'q \<Rightarrow> 'i list" where
  "pending q = concat (map (items q) [0..<classes])"

definition backlog :: "'q \<Rightarrow> nat" where
  "backlog q = length (pending q)"

lemma pending_split: "k < classes \<Longrightarrow>
    pending q = concat (map (items q) [0..<k]) @ items q k @ concat (map (items q) [Suc k..<classes])"
  unfolding pending_def
  by (metis (no_types, lifting) concat.simps(2) concat_append le_add1 less_imp_le_nat list.simps(9)
      map_append plus_nat.add_0 upt_add_eq_append upt_conv_Cons le_Suc_ex)

lemma pop_pending: "inv q \<Longrightarrow> fst (pop q) = Some x \<Longrightarrow> pending q = x # pending (snd (pop q))"
proof -
  assume q: "inv q" "fst (pop q) = Some x"
  obtain k where k: "k < classes" "\<forall>j < k. items q j = []" "items q k = x # items (snd (pop q)) k"
    "\<forall>j < classes. j \<noteq> k \<longrightarrow> items (snd (pop q)) j = items q j"
    using pop_some [OF q] by blast
  have "concat (map (items q) [0..<k]) = []" "concat (map (items (snd (pop q))) [0..<k]) = []"
    using k by auto
  moreover have "map (items (snd (pop q))) [Suc k..<classes] = map (items q) [Suc k..<classes]"
    using k by (intro map_cong) auto
  ultimately show ?thesis
    using pending_split [OF k(1), of q] pending_split [OF k(1), of "snd (pop q)"] k(3)
    by (simp only: append.simps)
qed

lemma pop_None_pending: "inv q \<Longrightarrow> fst (pop q) = None \<longleftrightarrow> pending q = []"
  by (auto simp: pop_none pending_def)

lemma push_position:
  assumes "inv q" "fst (push q c x)"
  shows "pending (snd (push q c x)) =
    concat (map (items q) [0..<Suc (rank c)]) @ x # concat (map (items q) [Suc (rank c)..<classes])"
proof -
  have c: "rank c < classes" using push_ok assms by blast
  have "map (items (snd (push q c x))) [0..<rank c] = map (items q) [0..<rank c]"
    "map (items (snd (push q c x))) [Suc (rank c)..<classes] = map (items q) [Suc (rank c)..<classes]"
    using assms c by (auto simp: push_items)
  then show ?thesis
    using pending_split [OF c, of "snd (push q c x)"] push_items [OF assms c]
    by (simp only: upt_Suc_append le0 map_append concat_append simp_thms if_True) simp
qed

lemma push_pending:
  assumes "inv q" "fst (push q c x)"
  shows "mset (pending (snd (push q c x))) = add_mset x (mset (pending q))"
proof -
  have "rank c < classes" using push_ok assms by blast
  then show ?thesis using push_position [OF assms] pending_split [of "rank c" q] by simp
qed

text \<open>Pop until empty (the flush loop of the client).\<close>

fun drain :: "nat \<Rightarrow> 'q \<Rightarrow> 'i list \<times> 'q" where
  "drain 0 q = ([], q)"
| "drain (Suc n) q = (case fst (pop q) of None \<Rightarrow> ([], q)
     | Some x \<Rightarrow> let (xs, q') = drain n (snd (pop q)) in (x # xs, q'))"

lemma drain_pending: "inv q \<Longrightarrow> backlog q \<le> n \<Longrightarrow> fst (drain n q) = pending q"
proof (induction n arbitrary: q)
  case (Suc n)
  show ?case
  proof (cases "fst (pop q)")
    case None
    then show ?thesis using pop_None_pending [OF Suc.prems(1)] by simp
  next
    case (Some x)
    have "pending q = x # pending (snd (pop q))" using pop_pending Suc.prems(1) Some by blast
    then show ?thesis
      using Suc.IH [of "snd (pop q)"] Suc.prems Some inv_pop [of q]
      by (cases "drain n (snd (pop q))") (auto simp: backlog_def)
  qed
qed (simp add: backlog_def)

end

section \<open>The rings implement the contract\<close>

definition txq_items :: "ps_can_txq \<Rightarrow> nat \<Rightarrow> u8 list" where
  "txq_items q k = ring_items PS_CAN_TXQ_DEPTH (ring q ! k) (unat (head q ! k)) (unat (count q ! k))"

definition txq_inv :: "ps_can_txq \<Rightarrow> bool" where
  "txq_inv q \<longleftrightarrow> length (ring q) = PS_CAN_TXQ_CLASSES \<and> length (head q) = PS_CAN_TXQ_CLASSES \<and>
     length (count q) = PS_CAN_TXQ_CLASSES \<and>
     (\<forall>k < PS_CAN_TXQ_CLASSES. length (ring q ! k) = PS_CAN_TXQ_DEPTH \<and>
        unat (head q ! k) < PS_CAN_TXQ_DEPTH \<and> unat (count q ! k) \<le> PS_CAN_TXQ_DEPTH)"

lemma length_txq_items [simp]: "length (txq_items q k) = unat (count q ! k)"
  by (simp add: txq_items_def)

lemma unat_Suc_u8: "unat (x :: u8) < 255 \<Longrightarrow> unat (x + 1) = unat x + 1"
  by (simp add: unat_word_ariths)

lemma unat_pred_u8: "0 < (x :: u8) \<Longrightarrow> unat (x - 1) = unat x - 1"
  by (simp add: unat_sub word_le_nat_alt word_less_nat_alt)

lemma unat_of_nat_mod16 [simp]: "unat (of_nat (n mod 16) :: u8) = n mod 16"
  by (simp add: unsigned_of_nat take_bit_nat_eq_self order_less_trans [of _ 16])

lemma txq_inv_init: "txq_inv ps_can_txq_init"
  by (simp add: txq_inv_def ps_can_txq_init_def nth_Cons')

lemma txq_push_ok:
  "txq_inv q \<Longrightarrow> fst (ps_can_txq_push q c x) \<longleftrightarrow> unat c < 8 \<and> length (txq_items q (unat c)) < 16"
  by (simp add: ps_can_txq_push_def Let_def)

lemma txq_inv_push: "txq_inv q \<Longrightarrow> txq_inv (snd (ps_can_txq_push q c x))"
  by (auto simp: ps_can_txq_push_def Let_def txq_inv_def nth_list_update unat_Suc_u8)

lemma txq_push_items:
  assumes "txq_inv q" "fst (ps_can_txq_push q c x)"
  shows "txq_items (snd (ps_can_txq_push q c x)) k = (if k = unat c then txq_items q k @ [x] else txq_items q k)"
proof (cases "k = unat c")
  case True
  have n: "unat (count q ! k) < 16" "k < 8" using assms True by (auto simp: ps_can_txq_push_def Let_def split: if_splits)
  then show ?thesis
    using assms True ring_items_put [OF n(1), of "ring q ! k" "unat (head q ! k)" x]
    by (simp add: ps_can_txq_push_def Let_def txq_inv_def txq_items_def unat_Suc_u8)
next
  case False
  then show ?thesis using assms by (auto simp: ps_can_txq_push_def Let_def txq_items_def split: if_splits)
qed

lemma txq_pop_item:
  assumes "txq_inv q" "k < 8" "0 < count q ! k"
  shows "txq_items q k = ring q ! k ! unat (head q ! k) #
    txq_items (q\<lparr>head := (head q)[k := of_nat ((unat (head q ! k) + 1) mod 16)], count := (count q)[k := count q ! k - 1]\<rparr>) k"
  using assms ring_items_get [of "unat (head q ! k)" 16 "unat (count q ! k)" "ring q ! k"]
  by (simp add: txq_items_def txq_inv_def unat_pred_u8 word_less_nat_alt)

lemma txq_pop_from_spec:
  assumes "txq_inv q" "k \<le> 8"
  shows "(\<forall>j. k \<le> j \<and> j < 8 \<longrightarrow> count q ! j = 0) \<and> txq_pop_from k q = (None, q) \<or>
    (\<exists>m. k \<le> m \<and> m < 8 \<and> (\<forall>j. k \<le> j \<and> j < m \<longrightarrow> count q ! j = 0) \<and> 0 < count q ! m \<and>
      txq_pop_from k q = (Some (ring q ! m ! unat (head q ! m)),
        q\<lparr>head := (head q)[m := of_nat ((unat (head q ! m) + 1) mod 16)], count := (count q)[m := count q ! m - 1]\<rparr>))"
  using assms
proof (induction k q rule: txq_pop_from.induct)
  case (1 k q)
  show ?case
  proof (cases "k < 8 \<and> count q ! k = 0")
    case True
    have ext: "k \<le> j \<Longrightarrow> j = k \<or> k + 1 \<le> j" for j by auto
    have "txq_pop_from k q = txq_pop_from (k + 1) q" using True by (simp add: txq_pop_from.simps [of k q])
    moreover have "txq_inv q" "k + 1 \<le> 8" "\<not> 0 < count q ! k" using True 1(2) by auto
    ultimately show ?thesis using 1(1) True ext by (metis add_leD1)
  next
    case False
    then show ?thesis using 1(2,3) by (auto simp: txq_pop_from.simps [of k q] word_gt_0 Let_def)
  qed
qed

lemma txq_items_other:
  "j \<noteq> m \<Longrightarrow> txq_items (q\<lparr>head := (head q)[m := a], count := (count q)[m := b]\<rparr>) j = txq_items q j"
  by (simp add: txq_items_def)

lemma txq_items_Nil: "txq_items q j = [] \<longleftrightarrow> count q ! j = 0"
  using length_txq_items [of q j] by (metis length_0_conv unat_eq_zero)

interpretation txq: class_queue txq_inv txq_items ps_can_txq_push ps_can_txq_pop unat 8 16
proof
  fix q :: ps_can_txq and c x :: u8 and k :: nat
  assume q: "txq_inv q"
  show "txq_inv (snd (ps_can_txq_push q c x))" using q by (rule txq_inv_push)
  show "fst (ps_can_txq_push q c x) \<longleftrightarrow> unat c < 8 \<and> length (txq_items q (unat c)) < 16"
    using q by (rule txq_push_ok)
  show "txq_items (snd (ps_can_txq_push q c x)) k = (if k = unat c then txq_items q k @ [x] else txq_items q k)"
    if "fst (ps_can_txq_push q c x)" using q that by (rule txq_push_items)
  show "snd (ps_can_txq_push q c x) = q" if "\<not> fst (ps_can_txq_push q c x)"
    using that by (auto simp: ps_can_txq_push_def Let_def split: if_splits)
  show "txq_inv (snd (ps_can_txq_pop q))"
    using txq_pop_from_spec [OF q, of 0] q
    by (auto simp: ps_can_txq_pop_def txq_inv_def nth_list_update unat_pred_u8 intro!: diff_le_self [THEN order_trans])
  show "fst (ps_can_txq_pop q) = None \<longleftrightarrow> (\<forall>k < 8. txq_items q k = [])"
    using txq_pop_from_spec [OF q, of 0] by (auto simp: ps_can_txq_pop_def txq_items_Nil)
  show "\<exists>k < 8. (\<forall>j < k. txq_items q j = []) \<and> txq_items q k = x # txq_items (snd (ps_can_txq_pop q)) k \<and>
      (\<forall>j < 8. j \<noteq> k \<longrightarrow> txq_items (snd (ps_can_txq_pop q)) j = txq_items q j)"
    if "fst (ps_can_txq_pop q) = Some x"
    using txq_pop_from_spec [OF q, of 0] that txq_pop_item [OF q]
    by (auto simp: ps_can_txq_pop_def txq_items_Nil txq_items_other)
qed

section \<open>Properties\<close>

text \<open>Where a frame queues: a successful push into class \<open>c\<close> puts the item behind everything of
  its own and of more urgent classes and in front of everything of less urgent ones; a
  SAFETY frame (class 0) therefore overtakes all waiting traffic of other classes, and no two
  items of one class ever swap.\<close>

lemma txq_push_position:
  assumes "txq_inv q" "fst (ps_can_txq_push q c x)"
  shows "concat (map (txq_items (snd (ps_can_txq_push q c x))) [0..<8]) =
    concat (map (txq_items q) [0..<Suc (unat c)]) @ x # concat (map (txq_items q) [Suc (unat c)..<8])"
  using txq.push_position [OF assms] by (simp only: txq.pending_def)

text \<open>Draining the queue delivers exactly what waits, in class order and FIFO within a
  class: every pop returns the first item of that order and leaves the others, and it
  reports empty only when all classes are.\<close>

lemma txq_pop_in_class_order:
  assumes "txq_inv q"
  shows "case ps_can_txq_pop q of
      (None, q') \<Rightarrow> q' = q \<and> concat (map (txq_items q) [0..<8]) = []
    | (Some x, q') \<Rightarrow> txq_inv q' \<and> concat (map (txq_items q) [0..<8]) = x # concat (map (txq_items q') [0..<8])"
proof (cases "fst (ps_can_txq_pop q)")
  case None
  then have "snd (ps_can_txq_pop q) = q"
    using txq_pop_from_spec [OF assms, of 0] by (auto simp: ps_can_txq_pop_def)
  then show ?thesis using txq.pop_None_pending [OF assms] None
    by (auto simp: txq.pending_def split: prod.splits)
next
  case (Some x)
  then show ?thesis using txq.pop_pending [OF assms Some] txq.inv_pop [OF assms]
    by (auto simp only: txq.pending_def split: prod.splits option.splits) simp_all
qed

end
