(* ===== verification/Ps_Can.thy ===== *)
theory Ps_Can
  imports Can_Port Can_Txq
begin

text \<open>
  The CAN transport, \<open>firmware/components/ps_can/src/ps_can.c\<close>: the pool of 16 transmit slots, the class-ordered
  queue, the one frame with the driver, the receive dispatch and the bus-off recovery. The
  TWAI driver and FreeRTOS are parameters: what a driver call returned is an argument, the
  queue of free slots is used through \<open>rtos_queue\<close> operations, and the driver's length codes are
  functions. Handles are valid (the \<open>NULL\<close> checks of the code have no counterpart).

  Each critical section and each queue operation between them is a definition of its own, so
  that \<open>can_step\<close> can interleave the sending tasks, the transmit task and the two interrupt
  handlers at exactly these points.
\<close>

section \<open>State\<close>

abbreviation PS_CAN_TX_SLOTS :: nat where "PS_CAN_TX_SLOTS \<equiv> 16"
abbreviation PS_CAN_RECOVER_MIN_MS :: u32 where "PS_CAN_RECOVER_MIN_MS \<equiv> 100"
abbreviation PS_CAN_RECOVER_MAX_MS :: u32 where "PS_CAN_RECOVER_MAX_MS \<equiv> 1600"
abbreviation PS_CAN_CLASS_COUNT :: nat where "PS_CAN_CLASS_COUNT \<equiv> 8"

text \<open>A transmit slot: the driver's frame header and buffer length, and the payload storage.\<close>

record ps_can_tx_slot =
  slot_id :: u32
  slot_dlc :: u16
  slot_ide :: bool
  slot_len :: u8
  slot_data :: bytes

record ps_can_stats =
  rx_frames :: u32
  tx_frames :: u32
  rx_dropped :: u32
  tx_timeouts :: u32
  bus_errors :: u32
  recoveries :: u32

record ('q, 'r, 'cb, 'sc) ps_can_ctx =
  node_id :: u8
  controller :: int
  rx_q :: 'r
  free_slots :: 'q
  slots :: "ps_can_tx_slot list"
  txq :: ps_can_txq
  tx_busy :: bool
  tx_slot :: u8
  cls_cb :: "'cb option list"
  state_cb :: "'sc option"
  link_state :: int
  pending_state :: int
  recover_backoff_ms :: u32
  recover_at_ms :: int
  stats :: ps_can_stats
  running :: bool
  tx_notified :: bool \<comment> \<open>the notification count of \<open>tx_task\<close> is not zero\<close>

datatype twai_error_state =
  TWAI_ERROR_ACTIVE | TWAI_ERROR_WARNING | TWAI_ERROR_PASSIVE | TWAI_ERROR_BUS_OFF

definition map_error_state :: "twai_error_state \<Rightarrow> int" where
  "map_error_state s = (case s of
      TWAI_ERROR_BUS_OFF \<Rightarrow> PS_CAN_STATE_BUS_OFF
    | TWAI_ERROR_PASSIVE \<Rightarrow> PS_CAN_STATE_ERR_PASSIVE
    | _ \<Rightarrow> PS_CAN_STATE_RUNNING)"

definition count_tx_timeout :: "('q, 'r, 'cb, 'sc) ps_can_ctx \<Rightarrow> ('q, 'r, 'cb, 'sc) ps_can_ctx" where
  "count_tx_timeout c = c\<lparr>stats := (stats c)\<lparr>tx_timeouts := tx_timeouts (stats c) + 1\<rparr>\<rparr>"

definition release_slot ::
    "('q, u8) rtos_queue \<Rightarrow> ('q, 'r, 'cb, 'sc) ps_can_ctx \<Rightarrow> u8 \<Rightarrow> ('q, 'r, 'cb, 'sc) ps_can_ctx" where
  "release_slot Q c slot = c\<lparr>free_slots := snd (q_send Q (free_slots c) slot)\<rparr>"

section \<open>Interrupt handlers\<close>

text \<open>\<open>rx\<close> is what the driver received into the zeroed 8-byte buffer, or \<open>None\<close> when
  \<open>twai_node_receive_from_isr\<close> failed.\<close>

definition on_rx_done ::
    "('r, ps_can_frame) rtos_queue \<Rightarrow> (u16 \<Rightarrow> u16) \<Rightarrow> (u32 \<times> u16 \<times> bytes) option \<Rightarrow>
     ('q, 'r, 'cb, 'sc) ps_can_ctx \<Rightarrow> ('q, 'r, 'cb, 'sc) ps_can_ctx" where
  "on_rx_done R dlc2len rx c = (case rx of None \<Rightarrow> c
     | Some (i, dlc, buf) \<Rightarrow>
        let len = (if dlc2len dlc > 8 then 8 else dlc2len dlc);
            f = \<lparr> f_id = i, f_dlc = ucast len,
                  f_data = take (unat len) buf @ replicate (8 - unat len) 0 \<rparr>;
            (sent, q) = q_send R (rx_q c) f;
            st = (stats c)\<lparr>rx_frames := rx_frames (stats c) + 1\<rparr>;
            st = (if sent then st else st\<lparr>rx_dropped := rx_dropped st + 1\<rparr>)
        in c\<lparr>rx_q := q, stats := st\<rparr>)"

text \<open>The critical section of \<open>on_tx_done\<close>: is the reported frame (named by its slot, \<open>None\<close> for a
  \<open>NULL\<close> report) the one that was handed over? Then the rest of the handler.\<close>

definition on_tx_done_claim ::
    "u8 option \<Rightarrow> ('q, 'r, 'cb, 'sc) ps_can_ctx \<Rightarrow> u8 option \<times> ('q, 'r, 'cb, 'sc) ps_can_ctx" where
  "on_tx_done_claim done_frame c = (case done_frame of None \<Rightarrow> (None, c)
     | Some i \<Rightarrow> if tx_busy c \<and> i = tx_slot c then (Some (tx_slot c), c\<lparr>tx_busy := False\<rparr>) else (None, c))"

definition on_tx_done_finish ::
    "('q, u8) rtos_queue \<Rightarrow> bool \<Rightarrow> u8 \<Rightarrow> ('q, 'r, 'cb, 'sc) ps_can_ctx \<Rightarrow> ('q, 'r, 'cb, 'sc) ps_can_ctx" where
  "on_tx_done_finish Q success slot c =
     (let c = release_slot Q c slot;
          st = stats c;
          c = c\<lparr>stats := if success then st\<lparr>tx_frames := tx_frames st + 1\<rparr>
                         else st\<lparr>bus_errors := bus_errors st + 1\<rparr>\<rparr>
      in c\<lparr>tx_notified := True\<rparr>)"

definition on_tx_done ::
    "('q, u8) rtos_queue \<Rightarrow> u8 option \<Rightarrow> bool \<Rightarrow> ('q, 'r, 'cb, 'sc) ps_can_ctx \<Rightarrow> ('q, 'r, 'cb, 'sc) ps_can_ctx" where
  "on_tx_done Q done_frame success c =
     (case on_tx_done_claim done_frame c of
        (None, c) \<Rightarrow> c
      | (Some slot, c) \<Rightarrow> on_tx_done_finish Q success slot c)"

definition on_state_change ::
    "twai_error_state option \<Rightarrow> ('q, 'r, 'cb, 'sc) ps_can_ctx \<Rightarrow> ('q, 'r, 'cb, 'sc) ps_can_ctx" where
  "on_state_change edata c = (case edata of None \<Rightarrow> c
     | Some s \<Rightarrow>
        let mapped = map_error_state s;
            c = c\<lparr>link_state := mapped, pending_state := mapped\<rparr>
        in if mapped = PS_CAN_STATE_BUS_OFF then c\<lparr>tx_notified := True\<rparr> else c)"

definition on_error :: "('q, 'r, 'cb, 'sc) ps_can_ctx \<Rightarrow> ('q, 'r, 'cb, 'sc) ps_can_ctx" where
  "on_error c = c\<lparr>stats := (stats c)\<lparr>bus_errors := bus_errors (stats c) + 1\<rparr>\<rparr>"

section \<open>The transmit task\<close>

text \<open>One round of \<open>tx_flush\<close>: the critical section picks a slot, which is then released and
  counted; \<open>None\<close> when there is none left.\<close>

definition tx_flush_pick ::
    "('q, 'r, 'cb, 'sc) ps_can_ctx \<Rightarrow> u8 option \<times> ('q, 'r, 'cb, 'sc) ps_can_ctx" where
  "tx_flush_pick c =
     (let (slot, q) = ps_can_txq_pop (txq c); c = c\<lparr>txq := q\<rparr>
      in case slot of
           Some s \<Rightarrow> (Some s, c)
         | None \<Rightarrow> if tx_busy c then (Some (tx_slot c), c\<lparr>tx_busy := False\<rparr>) else (None, c))"

definition tx_drop_slot ::
    "('q, u8) rtos_queue \<Rightarrow> u8 \<Rightarrow> ('q, 'r, 'cb, 'sc) ps_can_ctx \<Rightarrow> ('q, 'r, 'cb, 'sc) ps_can_ctx" where
  "tx_drop_slot Q slot c = count_tx_timeout (release_slot Q c slot)"

text \<open>The flush loop with fuel; \<open>None\<close> when the fuel is spent.\<close>

fun tx_flush ::
    "('q, u8) rtos_queue \<Rightarrow> nat \<Rightarrow> ('q, 'r, 'cb, 'sc) ps_can_ctx \<Rightarrow> ('q, 'r, 'cb, 'sc) ps_can_ctx option" where
  "tx_flush Q 0 c = None"
| "tx_flush Q (Suc n) c =
     (case tx_flush_pick c of
        (None, c) \<Rightarrow> Some c
      | (Some slot, c) \<Rightarrow> tx_flush Q n (tx_drop_slot Q slot c))"

text \<open>The critical section that takes the next frame, when none is with the driver.\<close>

definition tx_take ::
    "('q, 'r, 'cb, 'sc) ps_can_ctx \<Rightarrow> u8 option \<times> ('q, 'r, 'cb, 'sc) ps_can_ctx" where
  "tx_take c =
     (if \<not> tx_busy c then
        let (slot, q) = ps_can_txq_pop (txq c); c = c\<lparr>txq := q\<rparr>
        in case slot of
             Some s \<Rightarrow> (Some s, c\<lparr>tx_busy := True, tx_slot := s\<rparr>)
           | None \<Rightarrow> (None, c)
      else (None, c))"

text \<open>The submission loop with fuel. \<open>drv\<close> is what the successive calls of \<open>twai_node_transmit\<close> return
  (\<open>True\<close> for \<open>ESP_OK\<close>).\<close>

fun tx_pump ::
    "('q, u8) rtos_queue \<Rightarrow> (nat \<Rightarrow> bool) \<Rightarrow> nat \<Rightarrow> ('q, 'r, 'cb, 'sc) ps_can_ctx \<Rightarrow>
     ('q, 'r, 'cb, 'sc) ps_can_ctx option" where
  "tx_pump Q drv 0 c = None"
| "tx_pump Q drv (Suc n) c =
     (case tx_take c of
        (None, c) \<Rightarrow> Some c
      | (Some slot, c) \<Rightarrow>
          if drv 0 then Some c
          else tx_pump Q (\<lambda>i. drv (Suc i)) n (tx_drop_slot Q slot (c\<lparr>tx_busy := False\<rparr>)))"

text \<open>One turn of \<open>tx_task\<close> after its wait: the notification count is cleared on wake-up. The
  fuel \<open>17\<close> covers the 16 slots and the last, empty round.\<close>

definition tx_task_turn ::
    "('q, u8) rtos_queue \<Rightarrow> (nat \<Rightarrow> bool) \<Rightarrow> ('q, 'r, 'cb, 'sc) ps_can_ctx \<Rightarrow>
     ('q, 'r, 'cb, 'sc) ps_can_ctx option" where
  "tx_task_turn Q drv c =
     (let c = c\<lparr>tx_notified := False\<rparr> in
      if \<not> running c then Some c
      else if link_state c = PS_CAN_STATE_BUS_OFF then tx_flush Q (PS_CAN_TX_SLOTS + 1) c
      else tx_pump Q drv (PS_CAN_TX_SLOTS + 1) c)"

section \<open>The receive and housekeeping task\<close>

text \<open>The two halves of \<open>service_link\<close>: the deferred state report (returning the calls of the
  state callback), and the recovery attempt in bus-off. \<open>now\<close> is \<open>esp_timer_get_time () / 1000\<close> and
  \<open>recovered\<close> whether \<open>twai_node_recover\<close> returned \<open>ESP_OK\<close>.\<close>

definition report_pending ::
    "('q, 'r, 'cb, 'sc) ps_can_ctx \<Rightarrow> ('sc \<times> int) list \<times> ('q, 'r, 'cb, 'sc) ps_can_ctx" where
  "report_pending c =
     (let pending = pending_state c in
      if pending \<ge> 0 then
        let c = c\<lparr>pending_state := - 1\<rparr>;
            c = (if pending = PS_CAN_STATE_RUNNING
                 then c\<lparr>recover_backoff_ms := PS_CAN_RECOVER_MIN_MS\<rparr> else c)
        in (case state_cb c of None \<Rightarrow> [] | Some cb \<Rightarrow> [(cb, pending)], c)
      else ([], c))"

definition try_recover ::
    "int \<Rightarrow> bool \<Rightarrow> ('q, 'r, 'cb, 'sc) ps_can_ctx \<Rightarrow> ('q, 'r, 'cb, 'sc) ps_can_ctx" where
  "try_recover now recovered c =
     (if link_state c = PS_CAN_STATE_BUS_OFF \<and> now \<ge> recover_at_ms c then
        let c = (if recovered then
                   c\<lparr>link_state := PS_CAN_STATE_RECOVERING,
                     stats := (stats c)\<lparr>recoveries := recoveries (stats c) + 1\<rparr>\<rparr>
                 else c);
            c = c\<lparr>recover_at_ms := now + int (unat (recover_backoff_ms c))\<rparr>;
            c = c\<lparr>recover_backoff_ms := recover_backoff_ms c * 2\<rparr>
        in if recover_backoff_ms c > PS_CAN_RECOVER_MAX_MS
           then c\<lparr>recover_backoff_ms := PS_CAN_RECOVER_MAX_MS\<rparr> else c
      else c)"

definition service_link ::
    "int \<Rightarrow> bool \<Rightarrow> ('q, 'r, 'cb, 'sc) ps_can_ctx \<Rightarrow> ('sc \<times> int) list \<times> ('q, 'r, 'cb, 'sc) ps_can_ctx" where
  "service_link now recovered c =
     (case report_pending c of (calls, c) \<Rightarrow> (calls, try_recover now recovered c))"

text \<open>The software filter and the class dispatch for one received frame; returns the callback
  to run on it.\<close>

definition rx_dispatch ::
    "ps_can_frame \<Rightarrow> ('q, 'r, 'cb, 'sc) ps_can_ctx \<Rightarrow> 'cb option \<times> ('q, 'r, 'cb, 'sc) ps_can_ctx" where
  "rx_dispatch f c =
     (let dst = ps_can_id_dst (f_id f) in
      if node_id c = 0 \<or> dst = node_id c \<or> dst = PS_NODE_BROADCAST then
        (case cls_cb c ! unat (ps_can_id_cls (f_id f)) of
           Some cb \<Rightarrow> (Some cb, c)
         | None \<Rightarrow> (None, c\<lparr>stats := (stats c)\<lparr>rx_dropped := rx_dropped (stats c) + 1\<rparr>\<rparr>))
      else (None, c))"

definition rx_task_turn ::
    "('r, ps_can_frame) rtos_queue \<Rightarrow> int \<Rightarrow> bool \<Rightarrow> ('q, 'r, 'cb, 'sc) ps_can_ctx \<Rightarrow>
     ('cb \<times> ps_can_frame) option \<times> ('sc \<times> int) list \<times> ('q, 'r, 'cb, 'sc) ps_can_ctx" where
  "rx_task_turn R now recovered c =
     (let (got, q) = q_receive R (rx_q c);
          c = c\<lparr>rx_q := q\<rparr>;
          (call, c) = (case got of None \<Rightarrow> (None, c)
             | Some f \<Rightarrow> (case rx_dispatch f c of (cb, c) \<Rightarrow> (map_option (\<lambda>cb. (cb, f)) cb, c)));
          (states, c) = service_link now recovered c
      in (call, states, c))"

section \<open>Public operations\<close>

text \<open>The context right after \<open>ps_can_open\<close> filled it in: the queues as they were created, the slot
  indices 0 to 15 sent to the free queue.\<close>

definition ps_can_ctx_init ::
    "('q, u8) rtos_queue \<Rightarrow> u8 \<Rightarrow> int \<Rightarrow> 'r \<Rightarrow> 'q \<Rightarrow> ('q, 'r, 'cb, 'sc) ps_can_ctx" where
  "ps_can_ctx_init Q node ctrl rq fq =
     \<lparr> node_id = node, controller = ctrl, rx_q = rq,
       free_slots = foldl (\<lambda>q i. snd (q_send Q q (of_nat i))) fq [0..<PS_CAN_TX_SLOTS],
       slots = replicate PS_CAN_TX_SLOTS
         \<lparr>slot_id = 0, slot_dlc = 0, slot_ide = False, slot_len = 0, slot_data = replicate 8 0\<rparr>,
       txq = ps_can_txq_init, tx_busy = False, tx_slot = 0,
       cls_cb = replicate PS_CAN_CLASS_COUNT None, state_cb = None,
       link_state = PS_CAN_STATE_RUNNING, pending_state = - 1,
       recover_backoff_ms = PS_CAN_RECOVER_MIN_MS, recover_at_ms = 0,
       stats = \<lparr>rx_frames = 0, tx_frames = 0, rx_dropped = 0, tx_timeouts = 0, bus_errors = 0, recoveries = 0\<rparr>,
       running = True, tx_notified = False \<rparr>"

text \<open>What the platform answered while \<open>ps_can_open\<close> ran, in the order it asks.\<close>

record ('q, 'r) can_open_env =
  ctx_allocated :: bool
  rx_queue :: "'r option"
  slot_queue :: "'q option"
  new_node :: esp_err
  register_cbs :: esp_err
  tx_task_created :: bool
  node_enable :: esp_err
  rx_task_created :: bool

definition ps_can_open ::
    "('q, u8) rtos_queue \<Rightarrow> u8 \<Rightarrow> int \<Rightarrow> ('q, 'r) can_open_env \<Rightarrow>
     esp_err + ('q, 'r, 'cb, 'sc) ps_can_ctx" where
  "ps_can_open Q node ctrl env =
     (if \<not> ctx_allocated env then Inl ESP_ERR_NO_MEM
      else case (rx_queue env, slot_queue env) of
        (Some rq, Some fq) \<Rightarrow>
          let c = ps_can_ctx_init Q node ctrl rq fq in
          if new_node env \<noteq> ESP_OK then Inl ESP_FAIL
          else if register_cbs env \<noteq> ESP_OK then Inl ESP_FAIL
          else if \<not> tx_task_created env then Inl ESP_FAIL
          else if node_enable env \<noteq> ESP_OK then Inl ESP_FAIL
          else if \<not> rx_task_created env then Inl ESP_FAIL
          else Inr c
      | _ \<Rightarrow> Inl ESP_FAIL)"

text \<open>\<open>ps_can_send\<close> in three parts: the checks and the wait for a free slot, the fill, and the push.\<close>

definition send_take ::
    "('q, u8) rtos_queue \<Rightarrow> ps_can_frame \<Rightarrow> ('q, 'r, 'cb, 'sc) ps_can_ctx \<Rightarrow>
     (esp_err + u8) \<times> ('q, 'r, 'cb, 'sc) ps_can_ctx" where
  "send_take Q f c =
     (if f_dlc f > 8 \<or> f_id f AND NOT PS_CAN_ID_MASK \<noteq> 0 then (Inl ESP_ERR_INVALID_ARG, c)
      else if link_state c = PS_CAN_STATE_BUS_OFF then (Inl ESP_ERR_INVALID_STATE, c)
      else
        let (got, q) = q_receive Q (free_slots c); c = c\<lparr>free_slots := q\<rparr>
        in case got of
             None \<Rightarrow> (Inl ESP_ERR_TIMEOUT, count_tx_timeout c)
           | Some slot \<Rightarrow> (Inr slot, c))"

definition send_fill ::
    "(u8 \<Rightarrow> u16) \<Rightarrow> ps_can_frame \<Rightarrow> u8 \<Rightarrow> ('q, 'r, 'cb, 'sc) ps_can_ctx \<Rightarrow> ('q, 'r, 'cb, 'sc) ps_can_ctx" where
  "send_fill len2dlc f slot c =
     (let s = slots c ! unat slot;
          s = s\<lparr>slot_data := blit 0 (take (unat (f_dlc f)) (f_data f)) (slot_data s)\<rparr>;
          s = s\<lparr>slot_id := f_id f, slot_dlc := len2dlc (f_dlc f), slot_ide := True\<rparr>;
          s = s\<lparr>slot_len := f_dlc f\<rparr>
      in c\<lparr>slots := (slots c)[unat slot := s]\<rparr>)"

definition send_push ::
    "('q, u8) rtos_queue \<Rightarrow> ps_can_frame \<Rightarrow> u8 \<Rightarrow> ('q, 'r, 'cb, 'sc) ps_can_ctx \<Rightarrow>
     esp_err \<times> ('q, 'r, 'cb, 'sc) ps_can_ctx" where
  "send_push Q f slot c =
     (let (queued, q) = ps_can_txq_push (txq c) (ps_can_id_cls (f_id f)) slot;
          c = c\<lparr>txq := q\<rparr>
      in if \<not> queued then (ESP_ERR_NO_MEM, count_tx_timeout (release_slot Q c slot))
         else (ESP_OK, c\<lparr>tx_notified := True\<rparr>))"

definition ps_can_send ::
    "('q, u8) rtos_queue \<Rightarrow> (u8 \<Rightarrow> u16) \<Rightarrow> ('q, 'r, 'cb, 'sc) ps_can_ctx \<Rightarrow> ps_can_frame \<Rightarrow>
     esp_err \<times> ('q, 'r, 'cb, 'sc) ps_can_ctx" where
  "ps_can_send Q len2dlc c f =
     (case send_take Q f c of
        (Inl e, c) \<Rightarrow> (e, c)
      | (Inr slot, c) \<Rightarrow> send_push Q f slot (send_fill len2dlc f slot c))"

definition ps_can_close :: "('q, 'r, 'cb, 'sc) ps_can_ctx \<Rightarrow> ('q, 'r, 'cb, 'sc) ps_can_ctx" where
  "ps_can_close c = c\<lparr>running := False, tx_notified := True\<rparr>"

definition ps_can_register_class_cb ::
    "u8 \<Rightarrow> 'cb option \<Rightarrow> ('q, 'r, 'cb, 'sc) ps_can_ctx \<Rightarrow> esp_err \<times> ('q, 'r, 'cb, 'sc) ps_can_ctx" where
  "ps_can_register_class_cb cls cb c =
     (if unat cls \<ge> PS_CAN_CLASS_COUNT then (ESP_ERR_INVALID_ARG, c)
      else (ESP_OK, c\<lparr>cls_cb := (cls_cb c)[unat cls := cb]\<rparr>))"

definition ps_can_register_state_cb ::
    "'sc option \<Rightarrow> ('q, 'r, 'cb, 'sc) ps_can_ctx \<Rightarrow> esp_err \<times> ('q, 'r, 'cb, 'sc) ps_can_ctx" where
  "ps_can_register_state_cb cb c = (ESP_OK, c\<lparr>state_cb := cb\<rparr>)"

definition ps_can_state :: "('q, 'r, 'cb, 'sc) ps_can_ctx option \<Rightarrow> int" where
  "ps_can_state h = (case h of None \<Rightarrow> PS_CAN_STATE_BUS_OFF | Some c \<Rightarrow> link_state c)"

definition ps_can_get_stats :: "('q, 'r, 'cb, 'sc) ps_can_ctx \<Rightarrow> ps_can_stats" where
  "ps_can_get_stats c = stats c"

section \<open>Interleaved execution\<close>

text \<open>Where \<open>tx_task\<close> stands between two of its atomic actions.\<close>

datatype tx_pc = TxWait | TxFlushing | TxFlushDrop u8 | TxPumping | TxSubmit u8 | TxRefused u8 | TxDrop u8

text \<open>The tasks inside \<open>ps_can_send\<close> that hold a slot (with the frame they send and whether the slot is filled),
  and the slot the transmit interrupt has claimed and not yet released.\<close>

record ('q, 'r, 'cb, 'sc) can_sys =
  ctx :: "('q, 'r, 'cb, 'sc) ps_can_ctx"
  pc :: tx_pc
  senders :: "(u8 \<times> ps_can_frame \<times> bool) multiset"
  isr :: "u8 option"

text \<open>The driver may accept or refuse any frame, and may report any slot as done at any time: the frame it has, late reports of frames
  that were reclaimed at a bus-off, reports that are repeated or were never due, a \<open>NULL\<close> report. One report is left out: of the very slot
  \<open>tx_task\<close> has taken from the queue and not yet handed over. It is the window the comment at \<open>tx_flush\<close> leaves open (a frame of a reclaimed
  slot sent after recovery); \<open>stale_report_frees_twice\<close> below shows what it does.\<close>

inductive can_step ::
    "('q, u8) rtos_queue \<Rightarrow> ('r, ps_can_frame) rtos_queue \<Rightarrow> (u8 \<Rightarrow> u16) \<Rightarrow> (u16 \<Rightarrow> u16) \<Rightarrow>
     ('q, 'r, 'cb, 'sc) can_sys \<Rightarrow> ('q, 'r, 'cb, 'sc) can_sys \<Rightarrow> bool"
  for Q R len2dlc dlc2len where
  send_refused: "send_take Q f (ctx s) = (Inl e, c) \<Longrightarrow> can_step Q R len2dlc dlc2len s (s\<lparr>ctx := c\<rparr>)"
| send_take: "send_take Q f (ctx s) = (Inr i, c) \<Longrightarrow>
    can_step Q R len2dlc dlc2len s (s\<lparr>ctx := c, senders := add_mset (i, f, False) (senders s)\<rparr>)"
| send_fill: "senders s = add_mset (i, f, False) M \<Longrightarrow>
    can_step Q R len2dlc dlc2len s (s\<lparr>ctx := send_fill len2dlc f i (ctx s), senders := add_mset (i, f, True) M\<rparr>)"
| send_push: "senders s = add_mset (i, f, True) M \<Longrightarrow>
    can_step Q R len2dlc dlc2len s (s\<lparr>ctx := snd (send_push Q f i (ctx s)), senders := M\<rparr>)"
| wake_flush: "pc s = TxWait \<Longrightarrow> link_state (ctx s) = PS_CAN_STATE_BUS_OFF \<Longrightarrow>
    can_step Q R len2dlc dlc2len s (s\<lparr>ctx := (ctx s)\<lparr>tx_notified := False\<rparr>, pc := TxFlushing\<rparr>)"
| wake_pump: "pc s = TxWait \<Longrightarrow> link_state (ctx s) \<noteq> PS_CAN_STATE_BUS_OFF \<Longrightarrow>
    can_step Q R len2dlc dlc2len s (s\<lparr>ctx := (ctx s)\<lparr>tx_notified := False\<rparr>, pc := TxPumping\<rparr>)"
| flush_pick: "pc s = TxFlushing \<Longrightarrow> tx_flush_pick (ctx s) = (r, c) \<Longrightarrow>
    can_step Q R len2dlc dlc2len s
      (s\<lparr>ctx := c, pc := (case r of None \<Rightarrow> TxWait | Some i \<Rightarrow> TxFlushDrop i)\<rparr>)"
| flush_drop: "pc s = TxFlushDrop i \<Longrightarrow>
    can_step Q R len2dlc dlc2len s (s\<lparr>ctx := tx_drop_slot Q i (ctx s), pc := TxFlushing\<rparr>)"
| take: "pc s = TxPumping \<Longrightarrow> tx_take (ctx s) = (r, c) \<Longrightarrow>
    can_step Q R len2dlc dlc2len s
      (s\<lparr>ctx := c, pc := (case r of None \<Rightarrow> TxWait | Some i \<Rightarrow> TxSubmit i)\<rparr>)"
| submit_ok: "pc s = TxSubmit i \<Longrightarrow> can_step Q R len2dlc dlc2len s (s\<lparr>pc := TxWait\<rparr>)"
| submit_refused: "pc s = TxSubmit i \<Longrightarrow> can_step Q R len2dlc dlc2len s (s\<lparr>pc := TxRefused i\<rparr>)"
| refused_clear: "pc s = TxRefused i \<Longrightarrow>
    can_step Q R len2dlc dlc2len s (s\<lparr>ctx := (ctx s)\<lparr>tx_busy := False\<rparr>, pc := TxDrop i\<rparr>)"
| drop: "pc s = TxDrop i \<Longrightarrow>
    can_step Q R len2dlc dlc2len s (s\<lparr>ctx := tx_drop_slot Q i (ctx s), pc := TxPumping\<rparr>)"
| tx_done: "isr s = None \<Longrightarrow> pc s \<noteq> TxSubmit i \<Longrightarrow> pc s \<noteq> TxRefused i \<Longrightarrow> on_tx_done_claim (Some i) (ctx s) = (r, c) \<Longrightarrow>
    can_step Q R len2dlc dlc2len s (s\<lparr>ctx := c, isr := r\<rparr>)"
| tx_done_null: "isr s = None \<Longrightarrow> on_tx_done_claim None (ctx s) = (r, c) \<Longrightarrow>
    can_step Q R len2dlc dlc2len s (s\<lparr>ctx := c, isr := r\<rparr>)"
| tx_finish: "isr s = Some i \<Longrightarrow>
    can_step Q R len2dlc dlc2len s (s\<lparr>ctx := on_tx_done_finish Q ok i (ctx s), isr := None\<rparr>)"
| state_change: "can_step Q R len2dlc dlc2len s (s\<lparr>ctx := on_state_change e (ctx s)\<rparr>)"
| rx_done: "can_step Q R len2dlc dlc2len s (s\<lparr>ctx := on_rx_done R dlc2len rx (ctx s)\<rparr>)"
| bus_error: "can_step Q R len2dlc dlc2len s (s\<lparr>ctx := on_error (ctx s)\<rparr>)"
| rx_task: "can_step Q R len2dlc dlc2len s (s\<lparr>ctx := snd (snd (rx_task_turn R now ok (ctx s)))\<rparr>)"

inductive can_reach ::
    "('q, u8) rtos_queue \<Rightarrow> ('r, ps_can_frame) rtos_queue \<Rightarrow> (u8 \<Rightarrow> u16) \<Rightarrow> (u16 \<Rightarrow> u16) \<Rightarrow>
     ('q, 'r, 'cb, 'sc) can_sys \<Rightarrow> ('q, 'r, 'cb, 'sc) can_sys \<Rightarrow> bool"
  for Q R len2dlc dlc2len s0 where
  can_reach_refl: "can_reach Q R len2dlc dlc2len s0 s0"
| can_reach_step: "can_reach Q R len2dlc dlc2len s0 s \<Longrightarrow> can_step Q R len2dlc dlc2len s s' \<Longrightarrow>
    can_reach Q R len2dlc dlc2len s0 s'"

definition can_start :: "('q, 'r, 'cb, 'sc) ps_can_ctx \<Rightarrow> ('q, 'r, 'cb, 'sc) can_sys" where
  "can_start c = \<lparr> ctx = c, pc = TxWait, senders = {#}, isr = None \<rparr>"

section \<open>Slot ownership\<close>

definition all_slots :: "u8 multiset" where
  "all_slots = mset (map of_nat [0..<PS_CAN_TX_SLOTS])"

definition opt_mset :: "'a option \<Rightarrow> 'a multiset" where
  "opt_mset x = (case x of None \<Rightarrow> {#} | Some a \<Rightarrow> {#a#})"

definition pc_slot :: "tx_pc \<Rightarrow> u8 multiset" where
  "pc_slot p = (case p of TxFlushDrop i \<Rightarrow> {#i#} | TxDrop i \<Rightarrow> {#i#} | _ \<Rightarrow> {#})"

definition ctx_slots :: "('q \<Rightarrow> u8 list) \<Rightarrow> ('q, 'r, 'cb, 'sc) ps_can_ctx \<Rightarrow> u8 multiset" where
  "ctx_slots view c = mset (view (free_slots c)) + mset (txq.pending (txq c)) + (if tx_busy c then {#tx_slot c#} else {#})"

definition sys_slots :: "('q \<Rightarrow> u8 list) \<Rightarrow> ('q, 'r, 'cb, 'sc) can_sys \<Rightarrow> u8 multiset" where
  "sys_slots view s = ctx_slots view (ctx s) + image_mset fst (senders s) + pc_slot (pc s) + opt_mset (isr s)"

text \<open>Every slot is in exactly one place; the slot \<open>tx_task\<close> is handing over is the busy one.\<close>

definition can_inv :: "('q \<Rightarrow> u8 list) \<Rightarrow> ('q, 'r, 'cb, 'sc) can_sys \<Rightarrow> bool" where
  "can_inv view s \<longleftrightarrow> sys_slots view s = all_slots \<and> txq_inv (txq (ctx s)) \<and>
     (\<forall>i. pc s = TxSubmit i \<or> pc s = TxRefused i \<longrightarrow> tx_busy (ctx s) \<and> tx_slot (ctx s) = i)"

lemma size_all_slots: "size all_slots = 16"
  by (simp add: all_slots_def)

lemma distinct_all_slots: "Multiset.count all_slots i \<le> 1"
proof -
  have "distinct (map of_nat [0..<16] :: u8 list)"
    by (simp add: upt_rec)
  then show ?thesis unfolding all_slots_def by (metis count_mset_0_iff distinct_count_atmost_1 le0 le_numeral_extra(4))
qed

lemma txq_pending_size: "k < 8 \<Longrightarrow> length (txq_items q k) \<le> length (txq.pending q)"
  by (simp only: txq.pending_split length_append)

lemma txq_push_fits:
  assumes "txq_inv q" "length (txq.pending q) < 16" "unat c < 8"
  shows "fst (ps_can_txq_push q c x)"
  using txq.push_ok [OF assms(1)] txq_pending_size [OF assms(3), of q] assms(2,3) by (metis le_less_trans)

named_theorems slot_defs \<open>definitions unfolded for the slot accounting\<close>

declare ctx_slots_def [slot_defs] release_slot_def [slot_defs] tx_drop_slot_def [slot_defs]
  count_tx_timeout_def [slot_defs] send_take_def [slot_defs] send_fill_def [slot_defs]
  tx_flush_pick_def [slot_defs] tx_take_def [slot_defs] on_tx_done_claim_def [slot_defs]
  on_tx_done_finish_def [slot_defs]

lemma release_ctx_slots:
  assumes "queue_ok Q view 16" "size (ctx_slots view c) < 16"
  shows "ctx_slots view (release_slot Q c i) = add_mset i (ctx_slots view c)"
proof -
  have "length (view (free_slots c)) < 16" using assms(2) by (simp add: ctx_slots_def)
  then show ?thesis using queue_ok_send(2) [OF assms(1)] by (simp add: slot_defs)
qed

lemma release_fields [simp]:
  "txq (release_slot Q c i) = txq c" "tx_busy (release_slot Q c i) = tx_busy c"
  "tx_slot (release_slot Q c i) = tx_slot c" "link_state (release_slot Q c i) = link_state c"
  "slots (release_slot Q c i) = slots c"
  by (simp_all add: release_slot_def)

lemma count_tx_timeout_fields [simp]:
  "txq (count_tx_timeout c) = txq c" "tx_busy (count_tx_timeout c) = tx_busy c"
  "tx_slot (count_tx_timeout c) = tx_slot c" "link_state (count_tx_timeout c) = link_state c"
  "slots (count_tx_timeout c) = slots c" "free_slots (count_tx_timeout c) = free_slots c"
  "ctx_slots view (count_tx_timeout c) = ctx_slots view c"
  by (simp_all add: count_tx_timeout_def ctx_slots_def)

lemma drop_fields [simp]:
  "txq (tx_drop_slot Q i c) = txq c" "tx_busy (tx_drop_slot Q i c) = tx_busy c"
  "tx_slot (tx_drop_slot Q i c) = tx_slot c" "link_state (tx_drop_slot Q i c) = link_state c"
  "ctx_slots view (tx_drop_slot Q i c) = ctx_slots view (release_slot Q c i)"
  by (simp_all add: tx_drop_slot_def)

lemma send_take_slots:
  assumes "queue_ok Q view 16" "send_take Q f c = (r, c')"
  shows "ctx_slots view c = (case r of Inl e \<Rightarrow> ctx_slots view c' | Inr i \<Rightarrow> add_mset i (ctx_slots view c'))"
    and "txq c' = txq c" "tx_busy c' = tx_busy c" "tx_slot c' = tx_slot c" "link_state c' = link_state c" "slots c' = slots c"
  using assms(2) queue_ok_receive [OF assms(1), of "free_slots c"]
  by (auto simp: send_take_def ctx_slots_def Let_def split: if_splits prod.splits option.splits)

lemma send_fill_fields [simp]:
  "ctx_slots view (send_fill g f i c) = ctx_slots view c" "txq (send_fill g f i c) = txq c"
  "tx_busy (send_fill g f i c) = tx_busy c" "tx_slot (send_fill g f i c) = tx_slot c"
  "link_state (send_fill g f i c) = link_state c"
  by (simp_all add: send_fill_def ctx_slots_def Let_def)

lemma send_push_slots:
  assumes "txq_inv (txq c)" "size (ctx_slots view c) < 16"
  shows "fst (send_push Q f i c) = ESP_OK"
    and "ctx_slots view (snd (send_push Q f i c)) = add_mset i (ctx_slots view c)"
    and "txq_inv (txq (snd (send_push Q f i c)))"
    and "tx_busy (snd (send_push Q f i c)) = tx_busy c" "tx_slot (snd (send_push Q f i c)) = tx_slot c"
    and "link_state (snd (send_push Q f i c)) = link_state c"
proof -
  have "length (txq.pending (txq c)) < 16" using assms(2) by (simp add: ctx_slots_def)
  then have ok: "fst (ps_can_txq_push (txq c) (ps_can_id_cls (f_id f)) i)"
    using txq_push_fits [OF assms(1) _ unat_ps_can_id_cls_less] by blast
  have "txq_inv (snd (ps_can_txq_push (txq c) (ps_can_id_cls (f_id f)) i))"
    using assms(1) by (rule txq_inv_push)
  then show "fst (send_push Q f i c) = ESP_OK"
    "ctx_slots view (snd (send_push Q f i c)) = add_mset i (ctx_slots view c)"
    "txq_inv (txq (snd (send_push Q f i c)))" "tx_busy (snd (send_push Q f i c)) = tx_busy c"
    "tx_slot (snd (send_push Q f i c)) = tx_slot c" "link_state (snd (send_push Q f i c)) = link_state c"
    using ok txq.push_pending [OF assms(1) ok]
    by (auto simp: send_push_def ctx_slots_def Let_def split: prod.splits)
qed

lemma txq_pop_slots:
  assumes "txq_inv q" "ps_can_txq_pop q = (r, q')"
  shows "mset (txq.pending q) = opt_mset r + mset (txq.pending q')" "txq_inv q'"
proof -
  show "txq_inv q'" using txq.inv_pop [OF assms(1)] assms(2) by simp
  show "mset (txq.pending q) = opt_mset r + mset (txq.pending q')"
  proof (cases r)
    case None
    then have "q' = q" using txq_pop_from_spec [OF assms(1), of 0] assms(2) by (auto simp: ps_can_txq_pop_def)
    then show ?thesis using None by (simp add: opt_mset_def)
  next
    case (Some x)
    then show ?thesis using txq.pop_pending [OF assms(1), of x] assms(2) by (simp add: opt_mset_def)
  qed
qed

lemma flush_pick_slots:
  assumes "txq_inv (txq c)" "tx_flush_pick c = (r, c')"
  shows "ctx_slots view c = opt_mset r + ctx_slots view c'" "txq_inv (txq c')" "link_state c' = link_state c"
    and "tx_busy c' \<longrightarrow> tx_busy c" "tx_slot c' = tx_slot c"
  using assms txq_pop_slots [OF assms(1)]
  by (auto simp: tx_flush_pick_def ctx_slots_def opt_mset_def Let_def split: prod.splits option.splits if_splits)

lemma take_slots:
  assumes "txq_inv (txq c)" "tx_take c = (r, c')"
  shows "ctx_slots view c' = ctx_slots view c" "txq_inv (txq c')" "link_state c' = link_state c"
    and "r = Some i \<Longrightarrow> \<not> tx_busy c \<and> tx_busy c' \<and> tx_slot c' = i"
    and "r = None \<Longrightarrow> tx_busy c' = tx_busy c \<and> tx_slot c' = tx_slot c"
  using assms txq_pop_slots [OF assms(1)]
  by (auto simp: tx_take_def ctx_slots_def opt_mset_def Let_def split: prod.splits option.splits if_splits)

lemma finish_slots:
  "ctx_slots view (on_tx_done_finish Q ok i c) = ctx_slots view (release_slot Q c i)"
  "txq (on_tx_done_finish Q ok i c) = txq c" "tx_busy (on_tx_done_finish Q ok i c) = tx_busy c"
  "tx_slot (on_tx_done_finish Q ok i c) = tx_slot c" "link_state (on_tx_done_finish Q ok i c) = link_state c"
  by (simp_all add: on_tx_done_finish_def Let_def ctx_slots_def)

lemma state_change_slots:
  "ctx_slots view (on_state_change e c) = ctx_slots view c" "txq (on_state_change e c) = txq c"
  "tx_busy (on_state_change e c) = tx_busy c" "tx_slot (on_state_change e c) = tx_slot c"
  by (simp_all add: on_state_change_def Let_def ctx_slots_def split: option.splits)

lemma rx_done_slots:
  "ctx_slots view (on_rx_done R g rx c) = ctx_slots view c" "txq (on_rx_done R g rx c) = txq c"
  "tx_busy (on_rx_done R g rx c) = tx_busy c" "tx_slot (on_rx_done R g rx c) = tx_slot c"
  "link_state (on_rx_done R g rx c) = link_state c"
  by (simp_all add: on_rx_done_def Let_def ctx_slots_def split: option.splits prod.splits)

lemma report_pending_fields:
  assumes "report_pending c = (calls, c')"
  shows "ctx_slots view c' = ctx_slots view c" "txq c' = txq c" "tx_busy c' = tx_busy c" "tx_slot c' = tx_slot c"
    "link_state c' = link_state c" "recover_at_ms c' = recover_at_ms c"
    "recover_backoff_ms c' = recover_backoff_ms c \<or> recover_backoff_ms c' = PS_CAN_RECOVER_MIN_MS"
  using assms by (auto simp: report_pending_def Let_def ctx_slots_def split: if_splits option.splits)

lemma try_recover_fields:
  "ctx_slots view (try_recover now ok c) = ctx_slots view c" "txq (try_recover now ok c) = txq c"
  "tx_busy (try_recover now ok c) = tx_busy c" "tx_slot (try_recover now ok c) = tx_slot c"
  "link_state (try_recover now ok c) = link_state c \<or>
     link_state c = PS_CAN_STATE_BUS_OFF \<and> link_state (try_recover now ok c) = PS_CAN_STATE_RECOVERING"
  by (simp_all add: try_recover_def Let_def ctx_slots_def)

lemma service_link_slots:
  assumes "service_link now ok c = (r, c')"
  shows "ctx_slots view c' = ctx_slots view c" "txq c' = txq c" "tx_busy c' = tx_busy c" "tx_slot c' = tx_slot c"
    "link_state c' = link_state c \<or> link_state c = PS_CAN_STATE_BUS_OFF \<and> link_state c' = PS_CAN_STATE_RECOVERING"
proof -
  obtain calls c1 where c1: "report_pending c = (calls, c1)" by fastforce
  then have "c' = try_recover now ok c1" using assms by (simp add: service_link_def)
  then show "ctx_slots view c' = ctx_slots view c" "txq c' = txq c" "tx_busy c' = tx_busy c" "tx_slot c' = tx_slot c"
    "link_state c' = link_state c \<or> link_state c = PS_CAN_STATE_BUS_OFF \<and> link_state c' = PS_CAN_STATE_RECOVERING"
    using report_pending_fields [OF c1] try_recover_fields(5) [of now ok c1]
    by (simp_all add: try_recover_fields(1-4))
qed

lemma rx_dispatch_slots:
  assumes "rx_dispatch f c = (r, c')"
  shows "ctx_slots view c' = ctx_slots view c" "txq c' = txq c" "tx_busy c' = tx_busy c" "tx_slot c' = tx_slot c"
    "link_state c' = link_state c"
  using assms by (auto simp: rx_dispatch_def Let_def ctx_slots_def split: if_splits option.splits)

lemma rx_task_slots:
  assumes "rx_task_turn R now ok c = (r, t, c')"
  shows "ctx_slots view c' = ctx_slots view c \<and> txq c' = txq c \<and> tx_busy c' = tx_busy c \<and> tx_slot c' = tx_slot c \<and>
    (link_state c' = PS_CAN_STATE_BUS_OFF \<longrightarrow> link_state c = PS_CAN_STATE_BUS_OFF)"
proof -
  let ?c1 = "c\<lparr>rx_q := snd (q_receive R (rx_q c))\<rparr>"
  obtain c2 where "service_link now ok c2 = (t, c')" "c2 = ?c1 \<or> (\<exists>f r. rx_dispatch f ?c1 = (r, c2))"
    using assms by (auto simp: rx_task_turn_def Let_def split: prod.splits option.splits)
  then show ?thesis using service_link_slots [of now ok c2 t c'] rx_dispatch_slots [of _ ?c1 _ c2]
    by (auto simp: ctx_slots_def)
qed

lemmas inv_unfold = can_inv_def sys_slots_def pc_slot_def opt_mset_def

lemma slot_outside:
  assumes "can_inv view s" "senders s \<noteq> {#} \<or> pc_slot (pc s) \<noteq> {#} \<or> isr s \<noteq> None"
  shows "size (ctx_slots view (ctx s)) < 16"
proof -
  have "size (sys_slots view s) = 16" using assms(1) size_all_slots by (simp add: can_inv_def)
  moreover have "0 < size (senders s) + size (pc_slot (pc s)) + size (opt_mset (isr s))"
    using assms(2) by (auto simp: opt_mset_def nonempty_has_size split: option.splits)
  ultimately show ?thesis unfolding sys_slots_def by (simp only: size_union size_image_mset)
qed

lemma can_inv_step:
  assumes q: "queue_ok Q view 16" and st: "can_step Q R g h s s'" and inv: "can_inv view s"
  shows "can_inv view s'"
  using st
proof cases
  case (send_refused f e c)
  then show ?thesis using inv send_take_slots [OF q send_refused(2)] by (simp add: inv_unfold)
next
  case (send_take f i c)
  then show ?thesis using inv send_take_slots [OF q send_take(2)] by (simp add: inv_unfold)
next
  case (send_fill i f M)
  then show ?thesis using inv by (simp add: inv_unfold)
next
  case (send_push i f M)
  have sz: "size (ctx_slots view (ctx s)) < 16"
    using send_push(2) by (intro slot_outside [OF inv]) (simp add: pc_slot_def)
  show ?thesis using inv send_push send_push_slots [OF _ sz]
    by (simp add: inv_unfold size_all_slots)
next
  case wake_flush
  then show ?thesis using inv by (auto simp: inv_unfold ctx_slots_def)
next
  case wake_pump
  then show ?thesis using inv by (auto simp: inv_unfold ctx_slots_def)
next
  case (flush_pick r c)
  then show ?thesis using inv flush_pick_slots [of "ctx s" r c]
    by (cases r) (auto simp: inv_unfold)
next
  case (flush_drop i)
  have sz: "size (ctx_slots view (ctx s)) < 16"
    using flush_drop(2) by (intro slot_outside [OF inv]) (simp add: pc_slot_def)
  show ?thesis using inv flush_drop release_ctx_slots [OF q sz]
    by (auto simp: inv_unfold size_all_slots)
next
  case (take r c)
  then show ?thesis using inv take_slots [of "ctx s" r c]
    by (cases r) (auto simp: inv_unfold)
next
  case (submit_ok i)
  then show ?thesis using inv by (auto simp: inv_unfold)
next
  case (submit_refused i)
  then show ?thesis using inv by (auto simp: inv_unfold)
next
  case (refused_clear i)
  then show ?thesis using inv by (auto simp: inv_unfold ctx_slots_def)
next
  case (drop i)
  have sz: "size (ctx_slots view (ctx s)) < 16"
    using drop(2) by (intro slot_outside [OF inv]) (simp add: pc_slot_def)
  show ?thesis using inv drop release_ctx_slots [OF q sz]
    by (auto simp: inv_unfold size_all_slots)
next
  case (tx_done i r c)
  show ?thesis
  proof (cases "tx_busy (ctx s) \<and> tx_slot (ctx s) = i")
    case True
    then have "r = Some i" "c = (ctx s)\<lparr>tx_busy := False\<rparr>" using tx_done(5) by (auto simp: on_tx_done_claim_def)
    then show ?thesis using inv tx_done(1-4) True by (auto simp: inv_unfold ctx_slots_def)
  next
    case False
    then have "r = None" "c = ctx s" using tx_done(5) by (auto simp: on_tx_done_claim_def)
    then show ?thesis using inv tx_done(1,2) by (simp add: inv_unfold)
  qed
next
  case (tx_done_null r c)
  then show ?thesis using inv by (simp add: on_tx_done_claim_def inv_unfold)
next
  case (tx_finish i ok)
  have sz: "size (ctx_slots view (ctx s)) < 16"
    using tx_finish(2) by (intro slot_outside [OF inv]) (simp add: pc_slot_def)
  show ?thesis using inv tx_finish release_ctx_slots [OF q sz]
    by (auto simp: inv_unfold size_all_slots finish_slots)
next
  case (state_change e)
  then show ?thesis using inv by (simp add: inv_unfold state_change_slots)
next
  case (rx_done rx)
  then show ?thesis using inv by (simp add: inv_unfold rx_done_slots)
next
  case bus_error
  then show ?thesis using inv by (auto simp: inv_unfold on_error_def ctx_slots_def)
next
  case (rx_task now ok)
  obtain r t c' where c: "rx_task_turn R now ok (ctx s) = (r, t, c')" by (metis prod_cases3)
  then show ?thesis using inv rx_task rx_task_slots [OF c] by (auto simp: inv_unfold)
qed

lemma can_inv_start:
  assumes "queue_ok Q view 16" "view fq = []"
  shows "can_inv view (can_start (ps_can_ctx_init Q node ctrl rq fq))"
proof -
  have "view (foldl (\<lambda>q i. snd (q_send Q q (of_nat i))) fq [0..<n]) = map of_nat [0..<n]" if "n \<le> 16" for n
    using that
  proof (induction n)
    case (Suc n)
    then show ?case using queue_ok_send(2) [OF assms(1)] by simp
  qed (simp add: assms(2))
  moreover have "txq_items ps_can_txq_init k = []" if "k < 8" for k
    using that by (simp add: txq_items_def ps_can_txq_init_def)
  then have "txq.pending ps_can_txq_init = []" by (simp add: txq.pending_def)
  ultimately show ?thesis
    by (simp add: can_start_def inv_unfold ps_can_ctx_init_def ctx_slots_def txq_inv_init all_slots_def)
qed

lemma can_inv_reach:
  assumes "queue_ok Q view 16" "can_inv view s0" "can_reach Q R g h s0 s"
  shows "can_inv view s"
  using assms(3) by (induction rule: can_reach.induct) (use assms(1,2) can_inv_step in blast)+

section \<open>Sequential use: the port\<close>

definition slot_image :: "ps_can_tx_slot \<Rightarrow> u32 \<times> bytes" where
  "slot_image s = (slot_id s, take (unat (slot_len s)) (slot_data s))"

text \<open>What is queued, as it will go on the wire.\<close>

definition queued :: "('q, 'r, 'cb, 'sc) ps_can_ctx \<Rightarrow> (u32 \<times> bytes) multiset" where
  "queued c = image_mset (\<lambda>i. slot_image (slots c ! unat i)) (mset (txq.pending (txq c)))"

text \<open>The invariant of a context no other task is inside of, on a conforming platform.\<close>

definition can_ctx_ok ::
    "('q, u8) rtos_queue \<Rightarrow> ('q \<Rightarrow> u8 list) \<Rightarrow> ('q, 'r, 'cb, 'sc) ps_can_ctx \<Rightarrow> bool" where
  "can_ctx_ok Q view c \<longleftrightarrow> queue_ok Q view 16 \<and> ctx_slots view c = all_slots \<and> txq_inv (txq c) \<and>
     length (slots c) = 16 \<and> (\<forall>s \<in> set (slots c). length (slot_data s) = 8)"

lemma all_slots_less: "i \<in># all_slots \<Longrightarrow> unat i < 16"
  by (auto simp: all_slots_def unsigned_of_nat take_bit_nat_eq_self order_less_trans [of _ 16])

lemma send_error_keeps:
  assumes "can_ctx_ok Q view c" "send_take Q f c = (Inl e, c')"
  shows "can_ctx_ok Q view c'" "queued c' = queued c"
  using assms send_take_slots [of Q view f c "Inl e" c'] by (simp_all add: can_ctx_ok_def queued_def)

lemma send_take_free:
  assumes "can_ctx_ok Q view c" "send_take Q f c = (Inr i, c')"
  shows "unat i < 16" "i \<notin># mset (txq.pending (txq c'))" "size (ctx_slots view c') < 16"
    "f_dlc f \<le> 8" "txq_inv (txq c')" "queue_ok Q view 16"
proof -
  have sl: "add_mset i (ctx_slots view c') = all_slots"
    using assms send_take_slots [of Q view f c "Inr i" c'] by (simp add: can_ctx_ok_def)
  show "unat i < 16" using sl by (intro all_slots_less) (metis union_single_eq_member)
  have "Multiset.count (ctx_slots view c') i = 0" using sl distinct_all_slots [of i] by (metis count_add_mset le_zero_eq Suc_le_mono One_nat_def)
  then show "i \<notin># mset (txq.pending (txq c'))" by (simp add: ctx_slots_def count_eq_zero_iff)
  show "size (ctx_slots view c') < 16" using sl size_all_slots by (metis size_add_mset lessI)
  show "f_dlc f \<le> 8" using assms(2) by (auto simp: send_take_def split: if_splits)
  show "txq_inv (txq c')" "queue_ok Q view 16"
    using assms send_take_slots [of Q view f c "Inr i" c'] by (simp_all add: can_ctx_ok_def)
qed

lemma queued_send:
  assumes c: "can_ctx_ok Q view c" and t: "send_take Q f c = (Inr i, c')" and d: "length (f_data f) = 8"
  shows "queued (snd (send_push Q f i (send_fill g f i c'))) = add_mset (wire_image f) (queued c)"
proof -
  note free = send_take_free [OF c t]
  let ?c = "send_fill g f i c'"
  have same: "txq c' = txq c" "slots c' = slots c"
    using c t send_take_slots [of Q view f c "Inr i" c'] by (simp_all add: can_ctx_ok_def)
  have i: "unat i < length (slots c')" using c same free(1) by (simp add: can_ctx_ok_def)
  have "length (slot_data (slots c' ! unat i)) = 8" using c same i by (auto simp: can_ctx_ok_def)
  moreover have n: "unat (f_dlc f) \<le> 8" using free(4) by (simp add: word_le_nat_alt)
  ultimately have img: "slot_image (slots ?c ! unat i) = wire_image f"
    using i d by (simp add: send_fill_def Let_def slot_image_def wire_image_def blit_def)
  have "slots ?c ! unat j = slots c ! unat j" if "j \<in># mset (txq.pending (txq c'))" for j
  proof -
    have "j \<noteq> i" using that free(2) by blast
    then have "unat i \<noteq> unat j" by (simp add: word_unat_eq_iff)
    then show ?thesis using same by (simp add: send_fill_def Let_def)
  qed
  then have old: "image_mset (\<lambda>i. slot_image (slots ?c ! unat i)) (mset (txq.pending (txq c'))) = queued c"
    unfolding queued_def same(1) by (intro image_mset_cong) (simp add: same(1))
  have "fst (ps_can_txq_push (txq ?c) (ps_can_id_cls (f_id f)) i)"
    using send_push_slots(1) [of ?c view Q f i] free(3,5)
    by (auto simp: send_push_def Let_def split: prod.splits if_splits)
  then have "mset (txq.pending (txq (snd (send_push Q f i ?c)))) = add_mset i (mset (txq.pending (txq c')))"
      "slots (snd (send_push Q f i ?c)) = slots ?c"
    using txq.push_pending [of "txq ?c" "ps_can_id_cls (f_id f)" i] free(5)
    by (auto simp: send_push_def Let_def split: prod.splits)
  then show ?thesis using img old by (simp add: queued_def)
qed

lemma ctx_ok_send:
  assumes c: "can_ctx_ok Q view c" and t: "send_take Q f c = (Inr i, c')"
  shows "can_ctx_ok Q view (snd (send_push Q f i (send_fill g f i c')))"
    and "fst (send_push Q f i (send_fill g f i c')) = ESP_OK"
proof -
  note free = send_take_free [OF c t]
  let ?c = "send_fill g f i c'"
  have "txq_inv (txq ?c)" "size (ctx_slots view ?c) < 16" using free by simp_all
  note push = send_push_slots [OF this, of Q f i]
  have same: "slots c' = slots c" "ctx_slots view c = add_mset i (ctx_slots view c')"
    using c t send_take_slots [of Q view f c "Inr i" c'] by (simp_all add: can_ctx_ok_def)
  have sl: "slots (snd (send_push Q f i ?c)) = slots ?c"
    using push(1) by (auto simp: send_push_def Let_def split: prod.splits if_splits)
  have n: "unat (f_dlc f) \<le> 8" using free(4) by (simp add: word_le_nat_alt)
  have i: "unat i < length (slots c)" using c free(1) by (simp add: can_ctx_ok_def)
  have "length (slot_data (slots c ! unat i)) = 8" using c i by (auto simp: can_ctx_ok_def)
  then have "\<forall>s \<in> set (slots ?c). length (slot_data s) = 8"
    using c n same(1) unfolding can_ctx_ok_def send_fill_def
    by (auto simp: Let_def blit_def dest!: set_update_subset_insert [THEN subsetD])
  then show "can_ctx_ok Q view (snd (send_push Q f i ?c))"
    using c push same sl by (simp add: can_ctx_ok_def) (simp add: send_fill_def Let_def)
  show "fst (send_push Q f i ?c) = ESP_OK" by (rule push(1))
qed

lemma ps_can_send_cases:
  assumes "can_ctx_ok Q view c"
  shows "(\<exists>e c'. send_take Q f c = (Inl e, c') \<and> ps_can_send Q g c f = (e, c') \<and> e \<noteq> ESP_OK) \<or>
    (\<exists>i c'. send_take Q f c = (Inr i, c') \<and>
       ps_can_send Q g c f = (ESP_OK, snd (send_push Q f i (send_fill g f i c'))))"
proof (cases "send_take Q f c")
  case (Pair r c')
  show ?thesis
  proof (cases r)
    case (Inl e)
    then have "e \<noteq> ESP_OK" using Pair by (auto simp: send_take_def Let_def split: if_splits prod.splits option.splits)
    then show ?thesis using Inl Pair by (simp add: ps_can_send_def)
  next
    case (Inr i)
    then show ?thesis using Pair ctx_ok_send(2) [OF assms, of f i c' g]
      by (cases "send_push Q f i (send_fill g f i c')") (simp add: ps_can_send_def)
  qed
qed

interpretation ps_can: can_port "can_ctx_ok Q view" "ps_can_send Q g" queued for Q view g
proof
  fix w :: "('a, 'b, 'c, 'd) ps_can_ctx" and f
  assume w: "can_ctx_ok Q view w"
  note c = ps_can_send_cases [OF w, of f g]
  show "can_ctx_ok Q view (snd (ps_can_send Q g w f))"
    using c send_error_keeps [OF w] ctx_ok_send [OF w] by fastforce
  show "queued (snd (ps_can_send Q g w f)) = add_mset (wire_image f) (queued w)"
    if "length (f_data f) = 8" "fst (ps_can_send Q g w f) = ESP_OK"
    using c queued_send [OF w _ that(1)] that(2) by fastforce
  show "queued (snd (ps_can_send Q g w f)) = queued w" if "fst (ps_can_send Q g w f) \<noteq> ESP_OK"
    using c send_error_keeps [OF w] that by fastforce
qed

section \<open>The loops of the transmit task end\<close>

definition tx_load :: "('q, 'r, 'cb, 'sc) ps_can_ctx \<Rightarrow> nat" where
  "tx_load c = length (txq.pending (txq c)) + (if tx_busy c then 1 else 0)"

lemma tx_load_le: "ctx_slots view c = all_slots \<Longrightarrow> tx_load c \<le> 16"
  using size_all_slots by (auto simp: tx_load_def ctx_slots_def dest: arg_cong [of _ _ size])

lemma drop_slot_ok:
  assumes "queue_ok Q view 16" "add_mset i (ctx_slots view c) = all_slots"
  shows "ctx_slots view (tx_drop_slot Q i c) = all_slots"
proof -
  have "size (ctx_slots view c) < 16" using assms(2) size_all_slots by (metis size_add_mset lessI)
  from release_ctx_slots [OF assms(1) this] show ?thesis using assms(2) by simp
qed

lemma tx_timeouts_drop: "tx_timeouts (stats (tx_drop_slot Q i c)) = tx_timeouts (stats c) + 1"
  by (simp add: tx_drop_slot_def count_tx_timeout_def release_slot_def)

lemma flush_pick_load:
  assumes "txq_inv (txq c)" "tx_flush_pick c = (Some i, c')"
  shows "tx_load c = Suc (tx_load c')" "stats c' = stats c"
  using assms txq_pop_slots(1) [OF assms(1), THEN arg_cong [of _ _ size]]
  by (auto simp: tx_flush_pick_def tx_load_def opt_mset_def Let_def split: prod.splits option.splits if_splits)

lemma tx_flush_returns:
  assumes "queue_ok Q view 16" "ctx_slots view c = all_slots" "txq_inv (txq c)" "tx_load c < n"
  shows "\<exists>c'. tx_flush Q n c = Some c' \<and> txq.pending (txq c') = [] \<and> \<not> tx_busy c' \<and>
    ctx_slots view c' = all_slots \<and> txq_inv (txq c') \<and>
    tx_timeouts (stats c') = tx_timeouts (stats c) + of_nat (tx_load c)"
  using assms(2-4)
proof (induction n arbitrary: c)
  case (Suc n)
  obtain r c1 where pick: "tx_flush_pick c = (r, c1)" by fastforce
  note sl = flush_pick_slots [OF Suc.prems(2) pick]
  show ?case
  proof (cases r)
    case None
    then have "fst (ps_can_txq_pop (txq c)) = None" "\<not> tx_busy c" "\<not> tx_busy c1" "txq c1 = snd (ps_can_txq_pop (txq c))" "stats c1 = stats c"
      using pick by (auto simp: tx_flush_pick_def Let_def split: prod.splits option.splits if_splits)
    moreover from this have "txq.pending (txq c) = []" using txq.pop_None_pending [OF Suc.prems(2)] by blast
    moreover have "txq.pending (txq c1) = []"
      using calculation txq_pop_slots(1) [OF Suc.prems(2)] by (metis prod.collapse mset.simps(1) mset_zero_iff empty_eq_union)
    ultimately show ?thesis using pick None sl Suc.prems(1) by (simp add: tx_load_def opt_mset_def)
  next
    case (Some i)
    let ?d = "tx_drop_slot Q i c1"
    have ld: "tx_load c = Suc (tx_load c1)" "stats c1 = stats c"
      using flush_pick_load [OF Suc.prems(2)] pick Some by auto
    have "ctx_slots view ?d = all_slots"
      using drop_slot_ok [OF assms(1)] sl(1) Suc.prems(1) Some by (simp add: opt_mset_def)
    moreover have "txq_inv (txq ?d)" "tx_load ?d < n" using sl(2) ld Suc.prems(3) by (simp_all add: tx_load_def)
    ultimately obtain c' where "tx_flush Q n ?d = Some c'" "txq.pending (txq c') = []" "\<not> tx_busy c'"
      "ctx_slots view c' = all_slots" "txq_inv (txq c')"
      "tx_timeouts (stats c') = tx_timeouts (stats ?d) + of_nat (tx_load ?d)" using Suc.IH by blast
    then show ?thesis using pick Some ld by (simp add: tx_timeouts_drop) (simp add: tx_load_def)
  qed
qed simp

lemma take_load:
  assumes "txq_inv (txq c)" "tx_take c = (Some i, c')"
  shows "tx_load c' = tx_load c" "\<not> tx_busy c" "tx_busy c'" "tx_slot c' = i"
  using assms txq_pop_slots(1) [OF assms(1), THEN arg_cong [of _ _ size]]
  by (auto simp: tx_take_def tx_load_def opt_mset_def Let_def split: prod.splits option.splits if_splits)

lemma backoff_step:
  assumes "100 \<le> b" "b \<le> (1600 :: u32)"
  shows "100 \<le> b * 2" "100 \<le> uint b" "uint b \<le> 1600"
proof -
  have n: "100 \<le> unat b" "unat b \<le> 1600" using assms by (simp_all add: word_le_nat_alt)
  then have "unat (b * 2) = unat b * 2" by (simp add: unat_word_ariths)
  then show "100 \<le> b * 2" using n by (simp add: word_le_nat_alt)
qed (use assms in \<open>simp_all add: word_le_def\<close>)

lemma tx_pump_returns:
  assumes "queue_ok Q view 16" "ctx_slots view c = all_slots" "txq_inv (txq c)" "tx_load c < n"
  shows "\<exists>c'. tx_pump Q outs n c = Some c' \<and> ctx_slots view c' = all_slots \<and> txq_inv (txq c') \<and>
    (tx_busy c' \<or> txq.pending (txq c') = [])"
  using assms(2-4)
proof (induction n arbitrary: c outs)
  case (Suc n)
  obtain r c1 where take: "tx_take c = (r, c1)" by fastforce
  note sl = take_slots [OF Suc.prems(2) take]
  show ?case
  proof (cases r)
    case None
    have "tx_busy c1 \<or> txq.pending (txq c1) = []"
      using take None txq.pop_None_pending [OF Suc.prems(2)] txq_pop_slots(1) [OF Suc.prems(2)]
      by (auto simp: tx_take_def opt_mset_def Let_def split: prod.splits option.splits if_splits)
    then show ?thesis using take None sl Suc.prems(1) by simp
  next
    case (Some i)
    let ?d = "tx_drop_slot Q i (c1\<lparr>tx_busy := False\<rparr>)"
    have ld: "tx_load c1 = tx_load c" "tx_busy c1" "tx_slot c1 = i" using take_load [OF Suc.prems(2)] take Some by auto
    have "ctx_slots view ?d = all_slots"
      using ld sl(1) Suc.prems(1) by (intro drop_slot_ok [OF assms(1)]) (simp add: ctx_slots_def)
    moreover have "txq_inv (txq ?d)" "tx_load ?d < n" using sl(2) ld Suc.prems(3) by (simp_all add: tx_load_def)
    ultimately obtain c' where "tx_pump Q (\<lambda>i. outs (Suc i)) n ?d = Some c'" "ctx_slots view c' = all_slots"
       "txq_inv (txq c')" "tx_busy c' \<or> txq.pending (txq c') = []" using Suc.IH by blast
    then show ?thesis using take Some sl Suc.prems(1) ld by auto
  qed
qed simp

section \<open>Properties\<close>



text \<open>The report that is left out does free a slot twice: when the slot \<open>tx_task\<close> has taken is reported done (from an earlier use of the slot) while the driver refuses
  it, both the interrupt handler and \<open>tx_task\<close> give it back, and two later sends get the same slot.\<close>

lemma stale_report_frees_twice:
  assumes "queue_ok Q view 16" "tx_busy c" "tx_slot c = i" "length (view (free_slots c)) < 15"
    and "on_tx_done_claim (Some i) c = (r, c1)"
  shows "r = Some i \<and> view (free_slots (tx_drop_slot Q i ((on_tx_done_finish Q ok i c1)\<lparr>tx_busy := False\<rparr>))) = view (free_slots c) @ [i, i]"
proof -
  have r: "r = Some i" "free_slots c1 = free_slots c" using assms(2,3,5) by (auto simp: on_tx_done_claim_def)
  have "view (free_slots (on_tx_done_finish Q ok i c1)) = view (free_slots c) @ [i]"
    using queue_ok_send(2) [OF assms(1), of "free_slots c" i] assms(4) r(2) by (simp add: on_tx_done_finish_def release_slot_def Let_def)
  then show ?thesis
    using queue_ok_send(2) [OF assms(1), of "free_slots (on_tx_done_finish Q ok i c1)" i] assms(4) r(1)
    by (simp add: tx_drop_slot_def release_slot_def count_tx_timeout_def)
qed

text \<open>A frame in flight is never overwritten: the slot a task is filling is neither waiting in the
  class queue nor with the driver, so filling it leaves every accepted frame as it was.\<close>

lemma can_fill_touches_no_pending:
  assumes "queue_ok Q view 16" "view fq = []"
    and "can_reach Q R len2dlc dlc2len (can_start (ps_can_ctx_init Q node ctrl rq fq)) s"
    and "(i, f, b) \<in># senders s" "j \<in> set (txq.pending (txq (ctx s))) \<or> tx_busy (ctx s) \<and> j = tx_slot (ctx s)"
  shows "i \<noteq> j \<and> slots (send_fill len2dlc f i (ctx s)) ! unat j = slots (ctx s) ! unat j"
proof -
  have inv: "can_inv view s" using can_inv_reach [OF assms(1) can_inv_start [OF assms(1,2)] assms(3)] .
  have "i \<in># image_mset fst (senders s)" using assms(4) by force
  then have one: "1 \<le> Multiset.count (image_mset fst (senders s)) i" by (simp only: count_greater_eq_one_iff)
  have "Multiset.count (sys_slots view s) i \<le> 1" using inv distinct_all_slots by (simp add: can_inv_def)
  then have "Multiset.count (ctx_slots view (ctx s)) i = 0" using one unfolding sys_slots_def count_union by linarith
  then have "i \<noteq> j" using assms(5) by (auto simp: ctx_slots_def count_eq_zero_iff split: if_splits)
  then show ?thesis by (simp add: send_fill_def Let_def word_unat_eq_iff)
qed

lemma can_ctx_ok_init: "can_ctx_ok (list_queue 16) (\<lambda>q. q) (ps_can_ctx_init (list_queue 16) node ctrl rq [])"
  using can_inv_start [OF list_queue_ok, of "[]" node ctrl rq]
  by (simp add: can_ctx_ok_def can_inv_def list_queue_ok sys_slots_def can_start_def pc_slot_def opt_mset_def)
    (simp add: ps_can_ctx_init_def)

text \<open>Claim C11. Nothing queued survives a bus-off: the flush always ends (within 17 rounds for the 16 slots), leaves
  no frame waiting and none with the driver, gives every slot back, and counts each dropped frame
  once.\<close>

theorem tx_flush_empties:
  assumes "can_ctx_ok Q view c"
  shows "\<exists>c'. tx_flush Q (PS_CAN_TX_SLOTS + 1) c = Some c' \<and> queued c' = {#} \<and> \<not> tx_busy c' \<and>
    mset (view (free_slots c')) = all_slots \<and>
    tx_timeouts (stats c') = tx_timeouts (stats c) + of_nat (tx_load c)"
proof -
  have "tx_load c < PS_CAN_TX_SLOTS + 1" using tx_load_le [of view c] assms by (simp add: can_ctx_ok_def)
  then obtain c' where "tx_flush Q (PS_CAN_TX_SLOTS + 1) c = Some c'" "txq.pending (txq c') = []" "\<not> tx_busy c'"
    "ctx_slots view c' = all_slots" "tx_timeouts (stats c') = tx_timeouts (stats c) + of_nat (tx_load c)"
    using tx_flush_returns [of Q view c "PS_CAN_TX_SLOTS + 1"] assms unfolding can_ctx_ok_def by blast
  then show ?thesis by (auto simp: queued_def ctx_slots_def)
qed

theorem tx_flush_empties_witness:
  "let c = snd (ps_can_send (list_queue 16) ucast (ps_can_ctx_init (list_queue 16) 1 0 () [] :: (u8 list, unit, unit, unit) ps_can_ctx)
             \<lparr>f_id = 5, f_dlc = 1, f_data = [1, 0, 0, 0, 0, 0, 0, 0]\<rparr>)
   in can_ctx_ok (list_queue 16) (\<lambda>q. q) c \<and> (\<exists>c'. tx_flush (list_queue 16) (PS_CAN_TX_SLOTS + 1) c = Some c' \<and> queued c' = {#})"
proof -
  let ?c = "snd (ps_can_send (list_queue 16) ucast (ps_can_ctx_init (list_queue 16) 1 0 () [] :: (u8 list, unit, unit, unit) ps_can_ctx)
             \<lparr>f_id = 5, f_dlc = 1, f_data = [1, 0, 0, 0, 0, 0, 0, 0]\<rparr>)"
  have c: "can_ctx_ok (list_queue 16) (\<lambda>q. q) ?c" by (rule ps_can.inv_send [OF can_ctx_ok_init])
  show ?thesis using tx_flush_empties [OF c] c unfolding Let_def by blast
qed

text \<open>A turn of the transmit task always ends, whatever the driver answers: when it sleeps again, the driver has
  a frame or none is waiting (in bus-off: neither), and no slot is lost.\<close>

lemma tx_task_turn_ends:
  assumes "can_ctx_ok Q view c"
  shows "\<exists>c'. tx_task_turn Q outs c = Some c' \<and> ctx_slots view c' = all_slots \<and>
    (running c \<longrightarrow> tx_busy c' \<or> queued c' = {#}) \<and>
    (running c \<and> link_state c = PS_CAN_STATE_BUS_OFF \<longrightarrow> \<not> tx_busy c' \<and> queued c' = {#})"
proof -
  let ?c = "c\<lparr>tx_notified := False\<rparr>"
  have c: "queue_ok Q view 16" "ctx_slots view ?c = all_slots" "txq_inv (txq ?c)" "ctx_slots view c = all_slots"
    using assms by (auto simp: can_ctx_ok_def ctx_slots_def)
  have ld: "tx_load ?c < PS_CAN_TX_SLOTS + 1" using tx_load_le [OF c(2)] by simp
  show ?thesis
    using tx_flush_returns [OF c(1-3) ld] tx_pump_returns [OF c(1-3) ld, of outs] c(2)
    by (auto simp: tx_task_turn_def Let_def queued_def)
qed

text \<open>Bus-off recovery backs off within bounds: the delay before the next attempt stays between 100 ms
  and 1600 ms through every housekeeping turn, an attempt is made only in bus-off and not before its time,
  and the next one is at least 100 ms later.\<close>

lemma recovery_backoff_bounds:
  assumes "100 \<le> recover_backoff_ms c" "recover_backoff_ms c \<le> 1600" "service_link now ok c = (calls, c')"
  shows "100 \<le> recover_backoff_ms c' \<and> recover_backoff_ms c' \<le> 1600 \<and>
    (recover_at_ms c' \<noteq> recover_at_ms c \<longrightarrow>
       link_state c = PS_CAN_STATE_BUS_OFF \<and> recover_at_ms c \<le> now \<and> now + 100 \<le> recover_at_ms c' \<and> recover_at_ms c' \<le> now + 1600) \<and>
    (link_state c' \<noteq> link_state c \<longrightarrow> link_state c = PS_CAN_STATE_BUS_OFF \<and> link_state c' = PS_CAN_STATE_RECOVERING)"
proof -
  obtain calls c1 where c1: "report_pending c = (calls, c1)" by fastforce
  then have c': "c' = try_recover now ok c1" using assms(3) by (simp add: service_link_def)
  have b: "100 \<le> recover_backoff_ms c1" "recover_backoff_ms c1 \<le> 1600"
    using report_pending_fields(7) [OF c1] assms(1,2) by auto
  show ?thesis
    using backoff_step [OF b] report_pending_fields(5,6) [OF c1] b
    by (auto simp: c' try_recover_def Let_def)
qed

end
