(* ===== verification/Safety_Esp.thy ===== *)
theory Safety_Esp
  imports Safety_Core Ps_Can
begin

text \<open>
  The glue between the safety core and the CAN plane, \<open>firmware/components/ps_safety/src/ps_safety_esp.c\<close>:
  decoding of SAFETY frames, the periodic tick, the bus-state callback, the actuation gate and the
  senders. The static struct \<open>s\<close> is the record \<open>safety_esp\<close>; its CAN handle is the state \<open>'w\<close> of a
  transport used through the function \<open>send\<close> (in the firmware \<open>ps_can_send\<close>); a call of \<open>now_ms\<close> is an
  argument. The lock makes each operation atomic.
\<close>

section \<open>State\<close>

record 'w safety_esp =
  core :: ps_safety_core
  can :: 'w
  s_node_id :: u8
  safety_low :: u8
  estop_seq :: u16
  started :: bool

abbreviation PS_SAFETY_TICK_US :: nat where "PS_SAFETY_TICK_US \<equiv> 5000"

section \<open>Operations\<close>

definition send_safety ::
    "('w \<Rightarrow> ps_can_frame \<Rightarrow> esp_err \<times> 'w) \<Rightarrow> u8 \<Rightarrow> bytes \<Rightarrow> 'w safety_esp \<Rightarrow> esp_err \<times> 'w safety_esp" where
  "send_safety send ty payload s =
     (let f = \<lparr> f_id = ps_can_id_pack PS_CLS_SAFETY (s_node_id s) PS_NODE_BROADCAST ty (safety_low s),
                f_dlc = of_nat (length payload),
                f_data = blit 0 payload (replicate 8 0) \<rparr>;
          s = s\<lparr>safety_low := safety_low s + 1\<rparr>;
          (err, w) = send (can s) f
      in (err, s\<lparr>can := w\<rparr>))"

definition safety_rx :: "u32 \<Rightarrow> ps_can_frame \<Rightarrow> 'w safety_esp \<Rightarrow> 'w safety_esp" where
  "safety_rx t frame s =
     (let ty = ps_can_id_type (f_id frame) in
      if ty = PS_T_HEARTBEAT then
        s\<lparr>core := ps_safety_core_on_heartbeat (core s) t (PS_WIRE_READ dec_heartbeat (f_data frame))\<rparr>
      else if ty = PS_T_ESTOP then
        s\<lparr>core := ps_safety_core_on_estop (core s) t (es_cause (PS_WIRE_READ dec_estop (f_data frame)))\<rparr>
      else if ty = PS_T_CLEAR_ESTOP then
        let c = PS_WIRE_READ dec_clear_estop (f_data frame)
        in s\<lparr>core := snd (ps_safety_core_on_clear (core s) t (ce_magic c) (ce_counter c))\<rparr>
      else s)"

definition tick_cb :: "u32 \<Rightarrow> 'w safety_esp \<Rightarrow> 'w safety_esp" where
  "tick_cb t s = s\<lparr>core := ps_safety_core_tick (core s) t\<rparr>"

definition can_state_cb :: "u32 \<Rightarrow> int \<Rightarrow> 'w safety_esp \<Rightarrow> 'w safety_esp" where
  "can_state_cb t st s =
     (if st = PS_CAN_STATE_BUS_OFF \<or> st = PS_CAN_STATE_ERR_PASSIVE
      then s\<lparr>core := ps_safety_core_on_bus_down (core s) t\<rparr> else s)"

text \<open>The configuration, and what the platform answers while the service starts. The static
  struct is cleared on entry, so a failed start leaves it not started.\<close>

record 'w ps_safety_config =
  cfg_can :: "'w option"
  cfg_node_id :: u8

record safety_start_env =
  mutex_created :: bool
  register_class :: esp_err
  register_state :: esp_err
  timer_create :: esp_err
  timer_start :: esp_err

definition ps_safety_start ::
    "u32 \<Rightarrow> 'w ps_safety_config \<Rightarrow> safety_start_env \<Rightarrow> 'w safety_esp \<Rightarrow> esp_err \<times> 'w safety_esp" where
  "ps_safety_start t cfg env s =
     (case cfg_can cfg of
        None \<Rightarrow> (ESP_ERR_INVALID_ARG, s)
      | Some w \<Rightarrow>
          if started s then (ESP_ERR_INVALID_ARG, s)
          else
            let s = \<lparr> core = core s, can = w, s_node_id = cfg_node_id cfg, safety_low = 0,
                      estop_seq = 0, started = False \<rparr> in
            if \<not> mutex_created env then (ESP_ERR_NO_MEM, s)
            else
              let s = s\<lparr>core := ps_safety_core_init t True\<rparr> in
              if register_class env \<noteq> ESP_OK then (register_class env, s)
              else if register_state env \<noteq> ESP_OK then (register_state env, s)
              else if timer_create env \<noteq> ESP_OK then (timer_create env, s)
              else if timer_start env \<noteq> ESP_OK then (timer_start env, s)
              else (ESP_OK, s\<lparr>started := True\<rparr>))"

definition ps_safety_state :: "'w safety_esp \<Rightarrow> u8" where
  "ps_safety_state s = (if started s then state (core s) else PS_STATE_BOOT)"

definition ps_safety_can_actuate :: "'w safety_esp \<Rightarrow> bool" where
  "ps_safety_can_actuate s \<longleftrightarrow> started s \<and> state (core s) = PS_STATE_OPERATIONAL"

definition ps_safety_cmd_fresh :: "u32 \<Rightarrow> 'w safety_esp \<Rightarrow> bool" where
  "ps_safety_cmd_fresh t s \<longleftrightarrow> started s \<and> ps_safety_core_cmd_fresh (core s) t"

definition ps_safety_note_cmd :: "u32 \<Rightarrow> 'w safety_esp \<Rightarrow> 'w safety_esp" where
  "ps_safety_note_cmd t s =
     (if \<not> started s then s else s\<lparr>core := ps_safety_core_on_cmd (core s) t\<rparr>)"

definition ps_safety_note_mode_set :: "u32 \<Rightarrow> u8 \<Rightarrow> 'w safety_esp \<Rightarrow> 'w safety_esp" where
  "ps_safety_note_mode_set t target s =
     (if \<not> started s then s else s\<lparr>core := ps_safety_core_on_mode_set (core s) t target\<rparr>)"

text \<open>The send loop of \<open>ps_safety_raise_estop\<close>; the results of its rounds in order.\<close>

fun send_estops ::
    "('w \<Rightarrow> ps_can_frame \<Rightarrow> esp_err \<times> 'w) \<Rightarrow> nat \<Rightarrow> bytes \<Rightarrow> 'w safety_esp \<Rightarrow> esp_err list \<times> 'w safety_esp" where
  "send_estops send 0 payload s = ([], s)"
| "send_estops send (Suc n) payload s =
     (let (err, s) = send_safety send PS_T_ESTOP payload s;
          (errs, s) = send_estops send n payload s
      in (err # errs, s))"

text \<open>\<open>t\<close> and \<open>t'\<close> are the times read before and after the frames went out.\<close>

definition ps_safety_raise_estop ::
    "('w \<Rightarrow> ps_can_frame \<Rightarrow> esp_err \<times> 'w) \<Rightarrow> u32 \<Rightarrow> u32 \<Rightarrow> u8 \<Rightarrow> 'w safety_esp \<Rightarrow> esp_err \<times> 'w safety_esp" where
  "ps_safety_raise_estop send t t' cause s =
     (if \<not> started s then (ESP_ERR_INVALID_STATE, s)
      else
        let s = s\<lparr>estop_seq := estop_seq s + 1\<rparr>;
            e = \<lparr> es_cause = cause, es_origin_node = s_node_id s, es_seq = estop_seq s, es_uptime_ms = t \<rparr>;
            (errs, s) = send_estops send PS_ESTOP_REPEAT (enc_estop e) s
        in (hd errs, s\<lparr>core := ps_safety_core_on_estop (core s) t' cause\<rparr>))"

definition ps_safety_send_fault ::
    "('w \<Rightarrow> ps_can_frame \<Rightarrow> esp_err \<times> 'w) \<Rightarrow> u32 \<Rightarrow> u8 \<Rightarrow> u8 \<Rightarrow> u16 \<Rightarrow> 'w safety_esp \<Rightarrow> esp_err \<times> 'w safety_esp" where
  "ps_safety_send_fault send t code severity detail s =
     (if \<not> started s then (ESP_ERR_INVALID_STATE, s)
      else send_safety send PS_T_NODE_FAULT
        (enc_node_fault \<lparr> nf_fault_code = code, nf_severity = severity, nf_detail = detail, nf_uptime_ms = t \<rparr>) s)"

section \<open>Clients of the transport\<close>

text \<open>The frame \<open>send_safety\<close> makes, as it goes on the wire.\<close>

definition safety_image :: "u8 \<Rightarrow> u8 \<Rightarrow> bytes \<Rightarrow> u8 \<Rightarrow> u32 \<times> bytes" where
  "safety_image node ty payload low = (ps_can_id_pack PS_CLS_SAFETY node PS_NODE_BROADCAST ty low, payload)"

lemma send_safety_fields [simp]:
  "s_node_id (snd (send_safety send ty p s)) = s_node_id s"
  "safety_low (snd (send_safety send ty p s)) = safety_low s + 1"
  "core (snd (send_safety send ty p s)) = core s" "started (snd (send_safety send ty p s)) = started s"
  by (simp_all add: send_safety_def Let_def split: prod.splits)

lemma send_estops_fields [simp]:
  "s_node_id (snd (send_estops send n p s)) = s_node_id s"
  "core (snd (send_estops send n p s)) = core s" "started (snd (send_estops send n p s)) = started s"
  "length (fst (send_estops send n p s)) = n"
  by (induction n arbitrary: s) (simp_all add: Let_def case_prod_unfold)

context can_port
begin

lemma send_safety_outbox:
  assumes "inv (can s)" "length p = 8" "send_safety send ty p s = (err, s')"
  shows "inv (can s')" "outbox (can s') =
    (if err = ESP_OK then add_mset (safety_image (s_node_id s) ty p (safety_low s)) (outbox (can s)) else outbox (can s))"
proof -
  let ?f = "\<lparr> f_id = ps_can_id_pack PS_CLS_SAFETY (s_node_id s) PS_NODE_BROADCAST ty (safety_low s),
                f_dlc = of_nat (length p), f_data = blit 0 p (replicate 8 0) \<rparr>"
  have "wire_image ?f = safety_image (s_node_id s) ty p (safety_low s)" "length (f_data ?f) = 8"
    using assms(2) by (simp_all add: wire_image_def safety_image_def blit_def)
  moreover have "err = fst (send (can s) ?f)" "can s' = snd (send (can s) ?f)"
    using assms(3) by (auto simp: send_safety_def Let_def split: prod.splits)
  ultimately show "inv (can s')" "outbox (can s') =
    (if err = ESP_OK then add_mset (safety_image (s_node_id s) ty p (safety_low s)) (outbox (can s)) else outbox (can s))"
    using inv_send [OF assms(1)] send_ok [OF assms(1)] send_refused [OF assms(1)] by auto
qed

lemma send_estops_outbox:
  assumes "inv (can s)" "length p = 8" "send_estops send n p s = (errs, s')"
  shows "inv (can s') \<and> outbox (can s') = outbox (can s) +
    mset (map (\<lambda>i. safety_image (s_node_id s) PS_T_ESTOP p (safety_low s + of_nat i))
      (filter (\<lambda>i. errs ! i = ESP_OK) [0..<n]))"
  using assms
proof (induction n arbitrary: s errs)
  case (Suc n)
  obtain err s1 where s1: "send_safety send PS_T_ESTOP p s = (err, s1)" by fastforce
  obtain es where es: "send_estops send n p s1 = (es, s')" "errs = err # es"
    using Suc.prems(3) s1 by (auto split: prod.splits)
  note one = send_safety_outbox [OF Suc.prems(1,2) s1]
  have f: "s_node_id s1 = s_node_id s" "safety_low s1 = safety_low s + 1"
    using send_safety_fields [of send PS_T_ESTOP p s] s1 by simp_all
  have "filter (\<lambda>i. errs ! i = ESP_OK) [0..<Suc n] =
    (if err = ESP_OK then [0] else []) @ map Suc (filter (\<lambda>i. es ! i = ESP_OK) [0..<n])"
    unfolding es(2) upt_conv_Cons [OF zero_less_Suc] map_Suc_upt [symmetric] by (simp add: filter_map comp_def)
  then show ?case
    using Suc.IH [OF one(1) Suc.prems(2) es(1)] one(2) f by (simp add: comp_def ac_simps)
qed simp

end

section \<open>Properties\<close>

text \<open>Claim C8. The actuation gate closes at once: after an ESTOP frame, a local e-stop, a report of bus-off or
  error-passive, or a MODE_SET to STANDBY, PASSIVE or ESTOP, no actuation write passes the gate, whatever
  the state before and whatever the transport did.\<close>

theorem gate_closes:
  "(ps_can_id_type (f_id f) = PS_T_ESTOP \<longrightarrow> \<not> ps_safety_can_actuate (safety_rx t f s)) \<and>
   \<not> ps_safety_can_actuate (snd (ps_safety_raise_estop send t t' cause s)) \<and>
   (st \<in> {PS_CAN_STATE_BUS_OFF, PS_CAN_STATE_ERR_PASSIVE} \<longrightarrow> \<not> ps_safety_can_actuate (can_state_cb t st s)) \<and>
   (m \<in> {PS_STATE_STANDBY, PS_STATE_PASSIVE, PS_STATE_ESTOP} \<longrightarrow>
      \<not> ps_safety_can_actuate (ps_safety_note_mode_set t m s))"
  by (auto simp: ps_safety_can_actuate_def safety_rx_def ps_safety_raise_estop_def can_state_cb_def
    ps_safety_note_mode_set_def core_defs Let_def case_prod_unfold split: if_splits)

theorem gate_closes_witness:
  "let s = \<lparr> core = (ps_safety_core_init 0 True)\<lparr>state := PS_STATE_OPERATIONAL\<rparr>, can = (), s_node_id = 1, safety_low = 0,
             estop_seq = 0, started = True \<rparr>;
       f = \<lparr>f_id = ps_can_id_pack 0 8 0 PS_T_ESTOP 0, f_dlc = 8, f_data = replicate 8 0\<rparr>
   in ps_safety_can_actuate s \<and> ps_can_id_type (f_id f) = PS_T_ESTOP \<and> \<not> ps_safety_can_actuate (safety_rx 1 f s)"
proof -
  let ?s = "\<lparr> core = (ps_safety_core_init 0 True)\<lparr>state := PS_STATE_OPERATIONAL\<rparr>, can = (), s_node_id = 1, safety_low = 0,
             estop_seq = 0, started = True \<rparr>"
  let ?f = "\<lparr>f_id = ps_can_id_pack 0 8 0 PS_T_ESTOP 0, f_dlc = 8, f_data = replicate 8 0\<rparr>"
  have "ps_safety_can_actuate ?s" "ps_can_id_type (f_id ?f) = PS_T_ESTOP" by (simp_all add: ps_safety_can_actuate_def)
  then show ?thesis using gate_closes [of ?f 1 ?s "\<lambda>w f. (ESP_OK, w)" 1 0 0 0] unfolding Let_def by blast
qed

text \<open>Raising an e-stop latches the node whatever happens to the frames, and hands the transport
  three ESTOP frames with this cause, the node as origin and consecutive counters: exactly the ones it
  accepted are added to what is queued on the bus.\<close>

lemma raise_estop_broadcasts:
  assumes "can_ctx_ok Q view (can s)" "started s"
    and "ps_safety_raise_estop (ps_can_send Q g) t t' cause s = (err, s')"
  shows "state (core s') = PS_STATE_ESTOP \<and> estop_cause (core s') \<noteq> 0 \<and>
    (\<exists>errs. length errs = 3 \<and> err = errs ! 0 \<and> queued (can s') = queued (can s) +
       mset (map (\<lambda>i. safety_image (s_node_id s) PS_T_ESTOP
            (enc_estop \<lparr>es_cause = cause, es_origin_node = s_node_id s, es_seq = estop_seq s + 1, es_uptime_ms = t\<rparr>)
            (safety_low s + of_nat i)) (filter (\<lambda>i. errs ! i = ESP_OK) [0..<3])))"
proof -
  let ?s = "s\<lparr>estop_seq := estop_seq s + 1\<rparr>"
  let ?p = "enc_estop \<lparr>es_cause = cause, es_origin_node = s_node_id s, es_seq = estop_seq s + 1, es_uptime_ms = t\<rparr>"
  obtain errs s1 where e: "send_estops (ps_can_send Q g) 3 ?p ?s = (errs, s1)" by fastforce
  have r: "err = hd errs" "s' = s1\<lparr>core := ps_safety_core_on_estop (core s1) t' cause\<rparr>"
    using assms(2,3) e by (simp_all add: ps_safety_raise_estop_def)
  have n: "length errs = 3" using send_estops_fields(4) [of "ps_can_send Q g" 3 ?p ?s] e by simp
  have "queued (can s1) = queued (can s) + mset (map (\<lambda>i. safety_image (s_node_id s) PS_T_ESTOP ?p
            (safety_low s + of_nat i)) (filter (\<lambda>i. errs ! i = ESP_OK) [0..<3]))"
    using ps_can.send_estops_outbox [of Q view ?s ?p g 3 errs s1] assms(1) e esc.length_enc by simp
  moreover have "hd errs = errs ! 0" using n by (cases errs) auto
  ultimately show ?thesis
    using r n by (auto simp: ps_safety_core_on_estop_def Let_def intro!: exI [of _ errs])
qed

end
