(* ===== verification/Router.thy ===== *)
theory Router
  imports Can_Id
begin

text \<open>
  The hub's routing table, \<open>firmware/components/ps_router/src/ps_router.c\<close>: from the port a frame came in
  on and its identifier to the set of ports it goes out on, as a bit mask.
\<close>

section \<open>Definitions\<close>

abbreviation PS_PORT_CAN1 :: u8 where "PS_PORT_CAN1 \<equiv> 0"
abbreviation PS_PORT_CAN2 :: u8 where "PS_PORT_CAN2 \<equiv> 1"
abbreviation PS_PORT_SPI :: u8 where "PS_PORT_SPI \<equiv> 2"
abbreviation PS_PORT_LOCAL :: u8 where "PS_PORT_LOCAL \<equiv> 3"

definition PS_PORT_BIT :: "u8 \<Rightarrow> u8" where
  "PS_PORT_BIT p = push_bit (unat p) 1"

definition PS_ROUTER_ALL_PORTS :: u8 where
  "PS_ROUTER_ALL_PORTS =
     PS_PORT_BIT PS_PORT_CAN1 OR PS_PORT_BIT PS_PORT_CAN2 OR
     PS_PORT_BIT PS_PORT_SPI OR PS_PORT_BIT PS_PORT_LOCAL"

text \<open>\<open>None\<close> is the \<open>-1\<close> of the code.\<close>

definition ps_router_bus_of_node :: "u8 \<Rightarrow> u8 option" where
  "ps_router_bus_of_node node =
     (if node = PS_NODE_ARM_R \<or> node = PS_NODE_ARM_L \<or> node = PS_NODE_HELMET then Some PS_PORT_CAN1
      else if node = PS_NODE_LEG_R \<or> node = PS_NODE_LEG_L \<or> node = PS_NODE_FLIGHT then Some PS_PORT_CAN2
      else None)"

definition bus_bit_of :: "u8 \<Rightarrow> u8" where
  "bus_bit_of dst = (case ps_router_bus_of_node dst of None \<Rightarrow> 0 | Some bus \<Rightarrow> PS_PORT_BIT bus)"

text \<open>The switch on the class, before the origin is stripped.\<close>

definition route_mask :: "u8 \<Rightarrow> ps_can_id \<Rightarrow> u8" where
  "route_mask origin f =
     (let from_spi = (origin = PS_PORT_SPI) in
      if id_cls f = PS_CLS_SAFETY then PS_ROUTER_ALL_PORTS
      else if id_cls f = PS_CLS_CONTROL then
        (if from_spi then
           if id_dst f = PS_NODE_HUB then PS_PORT_BIT PS_PORT_LOCAL else bus_bit_of (id_dst f)
         else if id_dst f = PS_NODE_ORCH then PS_PORT_BIT PS_PORT_SPI else 0)
      else if id_cls f = PS_CLS_TELEM then
        (if from_spi then
           if id_dst f = PS_NODE_HUB then PS_PORT_BIT PS_PORT_LOCAL else bus_bit_of (id_dst f)
         else if id_dst f = PS_NODE_HUB then PS_PORT_BIT PS_PORT_SPI OR PS_PORT_BIT PS_PORT_LOCAL
         else PS_PORT_BIT PS_PORT_SPI)
      else if id_cls f = PS_CLS_XRCE then
        (if from_spi then
           if id_dst f = PS_NODE_HUB then PS_PORT_BIT PS_PORT_LOCAL else bus_bit_of (id_dst f)
         else if id_dst f = PS_NODE_HUB then PS_PORT_BIT PS_PORT_SPI OR PS_PORT_BIT PS_PORT_LOCAL
         else PS_PORT_BIT PS_PORT_SPI)
      else if id_cls f = PS_CLS_AUDIO then
        (if origin = PS_PORT_CAN1 \<and> id_dst f = PS_NODE_ORCH then PS_PORT_BIT PS_PORT_SPI
         else if from_spi \<and> id_dst f = PS_NODE_HELMET then PS_PORT_BIT PS_PORT_CAN1
         else 0)
      else if id_cls f = PS_CLS_MGMT then
        (if from_spi then
           PS_PORT_BIT PS_PORT_CAN1 OR PS_PORT_BIT PS_PORT_CAN2 OR PS_PORT_BIT PS_PORT_LOCAL
         else
           let mask = PS_PORT_BIT PS_PORT_SPI OR PS_PORT_BIT PS_PORT_LOCAL
           in if id_dst f = PS_NODE_BROADCAST
              then mask OR PS_PORT_BIT PS_PORT_CAN1 OR PS_PORT_BIT PS_PORT_CAN2 else mask)
      else 0)"

definition ps_router_route :: "u8 \<Rightarrow> u32 \<Rightarrow> u8" where
  "ps_router_route origin i =
     (if origin > PS_PORT_LOCAL then 0
      else route_mask origin (ps_can_id_unpack i) AND NOT (PS_PORT_BIT origin))"

text \<open>Whether a frame goes out on port \<open>p\<close>.\<close>

definition routed :: "u8 \<Rightarrow> u32 \<Rightarrow> u8 \<Rightarrow> bool" where
  "routed origin i p \<longleftrightarrow> ps_router_route origin i AND PS_PORT_BIT p \<noteq> 0"

section \<open>Laws\<close>

lemma port_bits [simp]:
  "PS_PORT_BIT 0 = 1" "PS_PORT_BIT 1 = 2" "PS_PORT_BIT 2 = 4" "PS_PORT_BIT 3 = 8"
  "PS_ROUTER_ALL_PORTS = 15"
  by (simp_all add: PS_PORT_BIT_def PS_ROUTER_ALL_PORTS_def)

lemma port_cases:
  assumes "p \<le> (3 :: u8)"
  obtains "p = 0" | "p = 1" | "p = 2" | "p = 3"
proof -
  have "unat p = 0 \<or> unat p = 1 \<or> unat p = 2 \<or> unat p = 3" using assms by (simp add: word_le_nat_alt) linarith
  then show ?thesis using that by (auto simp: word_unat_eq_iff)
qed

lemma bus_bit_cases: "bus_bit_of d = 0 \<or> bus_bit_of d = 1 \<or> bus_bit_of d = 2"
  by (simp add: bus_bit_of_def ps_router_bus_of_node_def)

lemma routed_iff:
  assumes "origin \<le> 3" "p \<le> 3"
  shows "routed origin i p \<longleftrightarrow> p \<noteq> origin \<and> route_mask origin (ps_can_id_unpack i) AND PS_PORT_BIT p \<noteq> 0"
  by (rule port_cases [OF assms(1)]; rule port_cases [OF assms(2)])
     (simp_all add: routed_def ps_router_route_def and.assoc)

lemma routed_origin: "routed origin i p \<Longrightarrow> origin \<le> 3"
  by (rule ccontr) (simp add: routed_def ps_router_route_def not_le)

section \<open>Properties\<close>

text \<open>SAFETY goes everywhere and nothing is echoed: a SAFETY frame from any port goes out on
  exactly the three other ports (both buses, the orchestrator, the hub itself), and no frame of any class is
  ever sent back to the port it came from.\<close>

lemma safety_cut_through_no_echo:
  "origin \<le> 3 \<Longrightarrow> (ps_can_id_cls i = PS_CLS_SAFETY \<longrightarrow> (\<forall>p \<le> 3. routed origin i p \<longleftrightarrow> p \<noteq> origin))
     \<and> \<not> routed origin i origin"
proof -
  assume o: "origin \<le> 3"
  have "route_mask origin (ps_can_id_unpack i) AND PS_PORT_BIT p \<noteq> 0"
    if "ps_can_id_cls i = PS_CLS_SAFETY" "p \<le> 3" for p
    by (rule port_cases [OF that(2)]) (simp_all add: route_mask_def that(1) Let_def)
  then show ?thesis using o routed_iff by auto
qed

text \<open>The planes keep to their paths: joint and mode commands reach a bus only from the
  orchestrator and only the bus of their destination; telemetry and XRCE streams never cross from one bus to
  the other; audio never touches CAN 2 and reaches CAN 1 only from the orchestrator for the helmet; frames of
  the unassigned classes 6 and 7 go nowhere.\<close>

lemma planes_keep_their_paths:
  "routed origin i p \<Longrightarrow> p \<le> 3 \<Longrightarrow>
    (ps_can_id_cls i \<in> {PS_CLS_CONTROL, PS_CLS_TELEM, PS_CLS_XRCE} \<and> p \<in> {PS_PORT_CAN1, PS_PORT_CAN2} \<longrightarrow>
       origin = PS_PORT_SPI \<and> ps_router_bus_of_node (ps_can_id_dst i) = Some p) \<and>
    (ps_can_id_cls i = PS_CLS_AUDIO \<longrightarrow>
       origin = PS_PORT_CAN1 \<and> p = PS_PORT_SPI \<or>
       origin = PS_PORT_SPI \<and> p = PS_PORT_CAN1 \<and> ps_can_id_dst i = PS_NODE_HELMET) \<and>
    ps_can_id_cls i < 6"
proof -
  assume r: "routed origin i p" and p: "p \<le> 3"
  note o = routed_origin [OF r]
  have c: "ps_can_id_cls i \<in> {0, 1, 2, 3, 4, 5}"
    using r routed_iff [OF o p] by (auto simp: route_mask_def Let_def split: if_splits)
  have m: "route_mask origin (ps_can_id_unpack i) AND PS_PORT_BIT p \<noteq> 0" "p \<noteq> origin"
    using r routed_iff [OF o p] by auto
  have bus: "ps_router_bus_of_node d = Some p" if "bus_bit_of d AND PS_PORT_BIT p \<noteq> 0" for d
    using that by (rule_tac port_cases [OF p]) (auto simp: bus_bit_of_def ps_router_bus_of_node_def split: if_splits)
  show ?thesis
    using m c bus o p
    by (rule_tac port_cases [OF p]; rule_tac port_cases [OF o])
       (auto simp: route_mask_def Let_def split: if_splits)
qed

end
