(* ===== verification/Crc16.thy ===== *)
theory Crc16
  imports Prelude
begin

text \<open>
  CRC16-CCITT-FALSE, \<open>common/c/src/crc16.c\<close>: polynomial \<open>0x1021\<close>, initial value \<open>0xFFFF\<close>,
  one bit at a time, most significant bit first. The laws say that the checksum can be
  computed in pieces, that the step is linear and a bijection on the register, and hence
  that no corruption confined to two neighbouring bytes escapes it.
\<close>

section \<open>The computation\<close>

text \<open>One round of the inner loop over \<open>b\<close>.\<close>

definition crc16_bit :: "u16 \<Rightarrow> u16" where
  "crc16_bit crc =
     (if crc AND 0x8000 \<noteq> 0 then push_bit 1 crc XOR 0x1021 else push_bit 1 crc)"

text \<open>The body of the outer loop: absorb one byte, then eight rounds.\<close>

definition crc16_byte :: "u16 \<Rightarrow> u8 \<Rightarrow> u16" where
  "crc16_byte crc b = (crc16_bit ^^ 8) (crc XOR push_bit 8 (ucast b))"

fun ps_crc16_update :: "u16 \<Rightarrow> bytes \<Rightarrow> u16" where
  "ps_crc16_update crc [] = crc"
| "ps_crc16_update crc (b # bs) = ps_crc16_update (crc16_byte crc b) bs"

definition ps_crc16 :: "bytes \<Rightarrow> u16" where
  "ps_crc16 bs = ps_crc16_update 0xFFFF bs"

section \<open>Linearity and injectivity of the register step\<close>

lemma and_msb_u16: "(x AND 0x8000 \<noteq> 0) = bit x 15" for x :: u16
proof -
  have "(0x8000 :: u16) = 2 ^ 15" by simp
  then show ?thesis by (simp only: and_exp_eq_0_iff_not_bit) simp
qed

lemma xor_cancel_left: "b XOR (a XOR b) = a" for a b :: "'a::len word"
  by (rule bit_word_eqI) (auto simp: bit_simps)

lemma crc16_bit_alt: "crc16_bit x = push_bit 1 x XOR (if bit x 15 then 0x1021 else 0)"
  by (simp add: crc16_bit_def and_msb_u16)

lemma push_bit_xor_u16: "push_bit n (x XOR y) = push_bit n x XOR push_bit n y" for x y :: u16
  by (rule bit_word_eqI) (auto simp: bit_simps)

lemma crc16_bit_xor: "crc16_bit (x XOR y) = crc16_bit x XOR crc16_bit y"
  unfolding crc16_bit_alt push_bit_xor_u16
  by (cases "bit x 15"; cases "bit y 15") (simp_all add: bit_simps ac_simps)

lemma crc16_bit_eq_0: "crc16_bit x = 0 \<longleftrightarrow> x = 0"
proof
  assume z: "crc16_bit x = 0"
  have b15: "\<not> bit x 15"
  proof
    assume "bit x 15"
    moreover have "\<not> bit (push_bit 1 x) 0" by (simp only: bit_push_bit_iff) simp
    ultimately have "bit (crc16_bit x) 0" by (simp add: crc16_bit_alt bit_xor_iff del: push_bit_of_1)
    then show False by (simp add: z)
  qed
  then have p: "push_bit 1 x = 0" using z by (simp add: crc16_bit_alt)
  show "x = 0"
  proof (rule bit_word_eqI)
    fix n :: nat
    assume "n < LENGTH(16)"
    then consider "n = 15" | "n < 15" by fastforce
    then show "bit x n = bit 0 n"
    proof cases
      case 2
      have "bit (push_bit 1 x) (Suc n) = bit x n"
        using 2 by (simp only: bit_push_bit_iff) simp
      then show ?thesis by (simp only: p) simp
    qed (simp add: b15)
  qed
qed (simp add: crc16_bit_alt)

lemma funpow_crc16_bit_xor:
  "(crc16_bit ^^ n) (x XOR y) = (crc16_bit ^^ n) x XOR (crc16_bit ^^ n) y"
  by (induction n) (simp_all add: crc16_bit_xor)

lemma funpow_crc16_bit_eq_0: "(crc16_bit ^^ n) x = 0 \<longleftrightarrow> x = 0"
  by (induction n) (simp_all add: crc16_bit_eq_0)

lemma xor_eq_0_iff_u16: "x XOR y = 0 \<longleftrightarrow> x = y" for x y :: u16
  by (metis bit.xor_self xor.assoc xor.right_neutral)

lemma funpow_crc16_bit_inj: "(crc16_bit ^^ n) x = (crc16_bit ^^ n) y \<longleftrightarrow> x = y"
  by (metis funpow_crc16_bit_xor funpow_crc16_bit_eq_0 xor_eq_0_iff_u16)

text \<open>While the top eight bits are clear, eight rounds are a plain shift.\<close>

lemma funpow_crc16_bit_byte: "(crc16_bit ^^ 8) (ucast (e :: u8)) = push_bit 8 (ucast e)"
proof -
  have "(crc16_bit ^^ k) (ucast e) = push_bit k (ucast e)" if "k \<le> 8" for k
    using that
  proof (induction k)
    case (Suc k)
    then have "\<not> bit (push_bit k (ucast e :: u16)) 15"
      by (auto simp: bit_simps)
    then have "crc16_bit (push_bit k (ucast e)) = push_bit 1 (push_bit k (ucast e))"
      by (simp add: crc16_bit_alt)
    with Suc show ?case by (simp add: push_bit_push_bit)
  qed simp
  then show ?thesis by simp
qed

lemma crc16_byte_xor:
  "crc16_byte (c XOR d) (a XOR b) = crc16_byte c a XOR (crc16_bit ^^ 8) (d XOR push_bit 8 (ucast b))"
proof -
  have "(c XOR d) XOR push_bit 8 (ucast (a XOR b)) =
      (c XOR push_bit 8 (ucast a)) XOR (d XOR push_bit 8 (ucast b))"
    by (rule bit_word_eqI) (auto simp: bit_simps)
  then show ?thesis
    by (simp only: crc16_byte_def funpow_crc16_bit_xor)
qed

lemma crc16_byte_inj: "crc16_byte c b = crc16_byte d b \<longleftrightarrow> c = d"
proof -
  have "c XOR p = d XOR p \<longleftrightarrow> c = d" for p :: u16
    by (metis bit.xor_self xor.assoc xor.right_neutral)
  then show ?thesis by (simp add: crc16_byte_def funpow_crc16_bit_inj)
qed

lemma crc_update_inj: "ps_crc16_update c bs = ps_crc16_update d bs \<longleftrightarrow> c = d"
  by (induction bs arbitrary: c d) (simp_all add: crc16_byte_inj)

lemma push_ucast_u8_eq:
  "push_bit 8 (ucast (a :: u8) :: u16) = ucast (e :: u8) \<longleftrightarrow> a = 0 \<and> e = 0"
proof
  assume h: "push_bit 8 (ucast a :: u16) = ucast e"
  have "bit a n = bit 0 n" if "n < 8" for n
  proof -
    have "bit (push_bit 8 (ucast a :: u16)) (n + 8) = bit a n"
      using that by (simp add: bit_simps)
    moreover have "\<not> bit (ucast e :: u16) (n + 8)"
      by (auto simp: bit_simps)
    ultimately show ?thesis using h by simp
  qed
  then have a: "a = 0" by (intro bit_word_eqI) simp
  have "bit e n = bit 0 n" if "n < 8" for n
  proof -
    have "bit (ucast e :: u16) n = bit e n" using that by (simp add: bit_simps)
    then show ?thesis using h a by (metis push_bit_of_0 unsigned_0 bit_0_eq bot_apply bot_bool_def)
  qed
  then have "e = 0" by (intro bit_word_eqI) simp
  with a show "a = 0 \<and> e = 0" by simp
qed simp

text \<open>Two bytes drive the register injectively.\<close>

lemma crc16_two_bytes_inj:
  assumes "crc16_byte (crc16_byte c a1) a2 = crc16_byte (crc16_byte c b1) b2"
  shows "a1 = b1 \<and> a2 = b2"
proof -
  let ?d1 = "a1 XOR b1" and ?d2 = "a2 XOR b2"
  let ?t1 = "(crc16_bit ^^ 8) (push_bit 8 (ucast ?d1))"
  have x1: "crc16_byte c a1 = crc16_byte c b1 XOR ?t1"
    using crc16_byte_xor [of c 0 b1 "?d1"] by (simp add: xor_cancel_left)
  have "crc16_byte (crc16_byte c a1) a2 =
      crc16_byte (crc16_byte c b1) b2 XOR (crc16_bit ^^ 8) (?t1 XOR push_bit 8 (ucast ?d2))"
    using crc16_byte_xor [of "crc16_byte c b1" ?t1 b2 ?d2] by (simp add: x1 xor_cancel_left)
  then have "(crc16_bit ^^ 8) (?t1 XOR push_bit 8 (ucast ?d2)) = 0"
    using assms by (metis xor_cancel_left bit.xor_self)
  then have "?t1 = push_bit 8 (ucast ?d2)"
    by (simp only: funpow_crc16_bit_eq_0 xor_eq_0_iff_u16)
  then have "(crc16_bit ^^ 8) (push_bit 8 (ucast ?d1)) = (crc16_bit ^^ 8) (ucast ?d2)"
    by (simp only: funpow_crc16_bit_byte)
  then have "push_bit 8 (ucast ?d1 :: u16) = ucast ?d2"
    by (simp only: funpow_crc16_bit_inj)
  then have "?d1 = 0 \<and> ?d2 = 0" by (simp only: push_ucast_u8_eq)
  then show ?thesis by (metis xor_cancel_left xor.right_neutral)
qed

lemma funpow_8: "(f ^^ 8) x = f (f (f (f (f (f (f (f x)))))))"
  by (simp add: numeral_eq_Suc)

lemma crc_update_append: "ps_crc16_update c (xs @ ys) = ps_crc16_update (ps_crc16_update c xs) ys"
  by (induction xs arbitrary: c) simp_all

lemma crc_update_byte_changed:
  assumes "i < length bs" "b \<noteq> bs ! i"
  shows "ps_crc16_update c (bs[i := b]) \<noteq> ps_crc16_update c bs"
proof -
  let ?c = "ps_crc16_update c (take i bs)"
  have upd: "ps_crc16_update c (take i bs @ x # drop (Suc i) bs)
      = ps_crc16_update (crc16_byte ?c x) (drop (Suc i) bs)" for x
    by (simp add: crc_update_append)
  have "crc16_byte ?c b \<noteq> crc16_byte ?c (bs ! i)"
    using crc16_two_bytes_inj [of ?c b 0 "bs ! i" 0] assms(2) by auto
  then show ?thesis
    using assms(1) upd [of b] upd [of "bs ! i"] id_take_nth_drop [OF assms(1)]
    by (simp add: upd_conv_take_nth_drop crc_update_inj)
qed

section \<open>Properties\<close>

text \<open>The checksum detects every corruption confined to two neighbouring bytes:
  if two byte strings agree except in one pair of adjacent bytes, their checksums differ,
  from any starting register. (Every burst of at most nine bits and every single-byte error
  lies in such a pair.)\<close>

lemma crc16_detects_two_byte_error:
  assumes "(a1, a2) \<noteq> (b1, b2)"
  shows "ps_crc16_update c (pre @ [a1, a2] @ post) \<noteq> ps_crc16_update c (pre @ [b1, b2] @ post)"
  using assms crc16_two_bytes_inj [of "ps_crc16_update c pre" a1 a2 b1 b2]
  by (auto simp: crc_update_append crc_update_inj)

text \<open>The checksum may be computed in pieces, as the SPI framing does, with the same
  result; and the implementation meets the published check value of CRC16-CCITT-FALSE,
  \<open>0x29B1\<close> for the nine ASCII digits.\<close>

lemma crc16_streaming:
  "ps_crc16 (xs @ ys) = ps_crc16_update (ps_crc16_update 0xFFFF xs) ys \<and>
   ps_crc16 [0x31, 0x32, 0x33, 0x34, 0x35, 0x36, 0x37, 0x38, 0x39] = 0x29B1"
proof -
  have "ps_crc16 [0x31, 0x32, 0x33, 0x34, 0x35, 0x36, 0x37, 0x38, 0x39] = 0x29B1"
    by (simp add: ps_crc16_def crc16_byte_def funpow_8 crc16_bit_def)
  then show ?thesis by (simp add: ps_crc16_def crc_update_append)
qed

end
