(* ===== verification/Spi_Frame.thy ===== *)
theory Spi_Frame
  imports Can_Id Crc16
begin

text \<open>
  The SPI bridge framing between the hub (Node 7) and the orchestrator (Node 8),
  \<open>common/c/src/spi_frame.c\<close> and \<open>spi_frame.h\<close>: an 8-byte header and up to 31 CAN records of
  16 bytes in a 512-byte transaction. A pointer into a buffer is an offset into a byte
  list; a write returns the updated list.
\<close>

section \<open>Constants, records, results\<close>

abbreviation PS_SPI_MAGIC :: u16 where "PS_SPI_MAGIC \<equiv> 0xA55A"
abbreviation PS_SPI_VER :: u8 where "PS_SPI_VER \<equiv> 1"
abbreviation PS_SPI_XFER_SIZE :: nat where "PS_SPI_XFER_SIZE \<equiv> 512"
abbreviation PS_SPI_HDR_SIZE :: nat where "PS_SPI_HDR_SIZE \<equiv> 8"
abbreviation PS_SPI_REC_SIZE :: nat where "PS_SPI_REC_SIZE \<equiv> 16"
abbreviation PS_SPI_MAX_RECORDS :: nat where "PS_SPI_MAX_RECORDS \<equiv> 31"

abbreviation PS_SPIF_ESTOP_LATCHED :: u8 where "PS_SPIF_ESTOP_LATCHED \<equiv> 1"
abbreviation PS_SPIF_OVERFLOW :: u8 where "PS_SPIF_OVERFLOW \<equiv> 2"
abbreviation PS_SPIF_MORE_PENDING :: u8 where "PS_SPIF_MORE_PENDING \<equiv> 4"
abbreviation PS_SPIF_HUB_FAULT :: u8 where "PS_SPIF_HUB_FAULT \<equiv> 8"

abbreviation PS_SPI_BUS_CAN1 :: u8 where "PS_SPI_BUS_CAN1 \<equiv> 0"
abbreviation PS_SPI_BUS_CAN2 :: u8 where "PS_SPI_BUS_CAN2 \<equiv> 1"
abbreviation PS_SPI_BUS_HUB_LOCAL :: u8 where "PS_SPI_BUS_HUB_LOCAL \<equiv> 3"

datatype spi_status =
  PS_SPI_OK | PS_SPI_EBADMAGIC | PS_SPI_EBADVER | PS_SPI_EBADCOUNT | PS_SPI_EBADCRC | PS_SPI_ESHORT

record ps_can_record =
  rec_id :: u32
  rec_bus :: u8
  rec_dlc :: u8
  rec_ts_ms :: u16
  rec_data :: bytes \<comment> \<open>\<open>uint8_t data[8]\<close>\<close>

record ps_spi_view =
  view_flags :: u8
  view_count :: u8
  view_seq :: u8
  view_records :: bytes \<comment> \<open>the buffer from the first record on, still serialised\<close>

section \<open>Little-endian access\<close>

definition rd_u16 :: "bytes \<Rightarrow> nat \<Rightarrow> u16" where
  "rd_u16 p off = ucast (p ! off) OR push_bit 8 (ucast (p ! (off + 1)))"

definition rd_u32 :: "bytes \<Rightarrow> nat \<Rightarrow> u32" where
  "rd_u32 p off = ucast (p ! off) OR push_bit 8 (ucast (p ! (off + 1))) OR
     push_bit 16 (ucast (p ! (off + 2))) OR push_bit 24 (ucast (p ! (off + 3)))"

definition wr_u16 :: "nat \<Rightarrow> u16 \<Rightarrow> bytes \<Rightarrow> bytes" where
  "wr_u16 off v p = p[off := ucast v, off + 1 := ucast (drop_bit 8 v)]"

definition wr_u32 :: "nat \<Rightarrow> u32 \<Rightarrow> bytes \<Rightarrow> bytes" where
  "wr_u32 off v p = p[off := ucast v, off + 1 := ucast (drop_bit 8 v),
     off + 2 := ucast (drop_bit 16 v), off + 3 := ucast (drop_bit 24 v)]"

section \<open>Records\<close>

definition ps_spi_record_write :: "nat \<Rightarrow> ps_can_record \<Rightarrow> bytes \<Rightarrow> bytes" where
  "ps_spi_record_write off r p =
     (let p = wr_u32 off (rec_id r AND 0x1FFFFFFF) p;
          p = p[off + 4 := push_bit 4 (rec_bus r AND 0xF) OR (rec_dlc r AND 0xF)];
          p = p[off + 5 := 0];
          p = wr_u16 (off + 6) (rec_ts_ms r) p
      in blit (off + 8) (rec_data r) p)"

definition ps_spi_record_read :: "bytes \<Rightarrow> nat \<Rightarrow> spi_status \<times> ps_can_record" where
  "ps_spi_record_read p off =
     (let r = \<lparr> rec_id = rd_u32 p off AND 0x1FFFFFFF,
                rec_bus = drop_bit 4 (p ! (off + 4)),
                rec_dlc = p ! (off + 4) AND 0xF,
                rec_ts_ms = rd_u16 p (off + 6),
                rec_data = window (off + 8) 8 p \<rparr>
      in (if rec_dlc r \<le> 8 then PS_SPI_OK else PS_SPI_EBADCOUNT, r))"

section \<open>Frames\<close>

text \<open>The loop that serialises the records, from index \<open>i\<close>.\<close>

fun write_records :: "nat \<Rightarrow> ps_can_record list \<Rightarrow> bytes \<Rightarrow> bytes" where
  "write_records i [] p = p"
| "write_records i (r # rs) p =
     write_records (Suc i) rs
       (ps_spi_record_write (PS_SPI_HDR_SIZE + i * PS_SPI_REC_SIZE) r p)"

text \<open>The checksum both directions compute: bytes 2 to 5, then the record bytes.\<close>

definition frame_crc :: "bytes \<Rightarrow> nat \<Rightarrow> u16" where
  "frame_crc p n =
     ps_crc16_update (ps_crc16_update 0xFFFF (window 2 4 p))
       (window PS_SPI_HDR_SIZE (n * PS_SPI_REC_SIZE) p)"

text \<open>Returns the buffer and the number of bytes used (0 when there are too many records,
  and the buffer is then untouched).\<close>

definition ps_spi_frame_build ::
    "bytes \<Rightarrow> u8 \<Rightarrow> u8 \<Rightarrow> ps_can_record list \<Rightarrow> bytes \<times> nat" where
  "ps_spi_frame_build buf flags sq recs =
     (let n = length recs in
      if n > PS_SPI_MAX_RECORDS then (buf, 0)
      else
        let p = blit 0 (replicate PS_SPI_XFER_SIZE 0) buf;
            p = wr_u16 0 PS_SPI_MAGIC p;
            p = p[2 := PS_SPI_VER];
            p = p[3 := flags];
            p = p[4 := of_nat n];
            p = p[5 := sq];
            p = write_records 0 recs p;
            p = wr_u16 6 (frame_crc p n) p
        in (p, PS_SPI_HDR_SIZE + n * PS_SPI_REC_SIZE))"

definition ps_spi_frame_parse :: "bytes \<Rightarrow> spi_status + ps_spi_view" where
  "ps_spi_frame_parse p =
     (if length p < PS_SPI_HDR_SIZE then Inl PS_SPI_ESHORT
      else if rd_u16 p 0 \<noteq> PS_SPI_MAGIC then Inl PS_SPI_EBADMAGIC
      else if p ! 2 \<noteq> PS_SPI_VER then Inl PS_SPI_EBADVER
      else
        let count = p ! 4 in
        if unat count > PS_SPI_MAX_RECORDS then Inl PS_SPI_EBADCOUNT
        else if length p < PS_SPI_HDR_SIZE + unat count * PS_SPI_REC_SIZE then Inl PS_SPI_ESHORT
        else if frame_crc p (unat count) \<noteq> rd_u16 p 6 then Inl PS_SPI_EBADCRC
        else Inr \<lparr> view_flags = p ! 3, view_count = count, view_seq = p ! 5,
                   view_records = drop PS_SPI_HDR_SIZE p \<rparr>)"

text \<open>The record is not written when the index is out of range.\<close>

definition ps_spi_view_record :: "ps_spi_view \<Rightarrow> nat \<Rightarrow> spi_status \<times> ps_can_record option" where
  "ps_spi_view_record v i =
     (if i \<ge> unat (view_count v) then (PS_SPI_EBADCOUNT, None)
      else let (st, r) = ps_spi_record_read (view_records v) (i * PS_SPI_REC_SIZE) in (st, Some r))"

text \<open>The scan loop from index \<open>i\<close>, and its entry point; \<open>-1\<close> is not found.\<close>

function frame_scan_from :: "bytes \<Rightarrow> nat \<Rightarrow> int" where
  "frame_scan_from p i =
     (if i + 1 < length p then
        (if p ! i = ucast (PS_SPI_MAGIC AND 0xFF) \<and> p ! (i + 1) = ucast (drop_bit 8 PS_SPI_MAGIC)
         then int i
         else frame_scan_from p (i + 1))
      else - 1)"
  by pat_completeness auto
termination
  by (relation "measure (\<lambda>(p, i). length p - i)") auto

declare frame_scan_from.simps [simp del]

definition ps_spi_frame_scan :: "bytes \<Rightarrow> nat \<Rightarrow> int" where
  "ps_spi_frame_scan p start = (if length p < 2 then - 1 else frame_scan_from p start)"

section \<open>Serialised form\<close>

definition record_bytes :: "ps_can_record \<Rightarrow> bytes" where
  "record_bytes r =
     le_bytes32 (rec_id r AND 0x1FFFFFFF) @
     [push_bit 4 (rec_bus r AND 0xF) OR (rec_dlc r AND 0xF), 0] @
     le_bytes16 (rec_ts_ms r) @ rec_data r"

text \<open>A record as the C type allows it: eight data bytes.\<close>

definition wf_record :: "ps_can_record \<Rightarrow> bool" where
  "wf_record r \<longleftrightarrow> length (rec_data r) = 8"

text \<open>What a record looks like after a trip through a slot.\<close>

definition trunc_record :: "ps_can_record \<Rightarrow> ps_can_record" where
  "trunc_record r = r\<lparr>rec_id := rec_id r AND 0x1FFFFFFF, rec_bus := rec_bus r AND 0xF,
     rec_dlc := rec_dlc r AND 0xF\<rparr>"

text \<open>The whole frame on the wire.\<close>

definition frame_payload :: "ps_can_record list \<Rightarrow> bytes" where
  "frame_payload recs = concat (map record_bytes recs)"

definition frame_bytes :: "u8 \<Rightarrow> u8 \<Rightarrow> ps_can_record list \<Rightarrow> bytes" where
  "frame_bytes flags sq recs =
     (let hdr = [PS_SPI_VER, flags, of_nat (length recs), sq] in
      le_bytes16 PS_SPI_MAGIC @ hdr @ le_bytes16 (ps_crc16 (hdr @ frame_payload recs)) @ frame_payload recs)"

section \<open>Lemmas\<close>

lemma wr_u16_blit: "off + 2 \<le> length p \<Longrightarrow> wr_u16 off v p = blit off (le_bytes16 v) p"
  using blit_adjacent [of off "[ucast v]" "[ucast (drop_bit 8 v)]" p]
  by (simp add: wr_u16_def le_bytes16_def list_update_blit)

lemma wr_u32_blit: "off + 4 \<le> length p \<Longrightarrow> wr_u32 off v p = blit off (le_bytes32 v) p"
  using blit_adjacent [of off "[ucast v]" "[ucast (drop_bit 8 v)]" p]
    blit_adjacent [of off "[ucast v, ucast (drop_bit 8 v)]" "[ucast (drop_bit 16 v)]" p]
    blit_adjacent [of off "[ucast v, ucast (drop_bit 8 v), ucast (drop_bit 16 v)]" "[ucast (drop_bit 24 v)]" p]
  by (simp add: wr_u32_def le_bytes32_def list_update_blit ac_simps numeral_eq_Suc)

lemma length_record_bytes: "wf_record r \<Longrightarrow> length (record_bytes r) = 16"
  by (simp add: record_bytes_def wf_record_def)

lemma record_write_blit:
  assumes "off + 16 \<le> length p" "wf_record r"
  shows "ps_spi_record_write off r p = blit off (record_bytes r) p"
proof -
  let ?id = "le_bytes32 (rec_id r AND 0x1FFFFFFF)"
  let ?bd = "push_bit 4 (rec_bus r AND 0xF) OR (rec_dlc r AND 0xF)"
  have "ps_spi_record_write off r p = blit (off + 8) (rec_data r) (blit (off + 6) (le_bytes16 (rec_ts_ms r))
     (blit (off + 5) [0] (blit (off + 4) [?bd] (blit off ?id p))))"
    using assms by (simp add: ps_spi_record_write_def wr_u32_blit wr_u16_blit list_update_blit)
  also have "\<dots> = blit off (record_bytes r) p"
    using assms blit_adjacent [of off ?id "[?bd]" p] blit_adjacent [of off "?id @ [?bd]" "[0]" p]
      blit_adjacent [of off "?id @ [?bd, 0]" "le_bytes16 (rec_ts_ms r)" p]
      blit_adjacent [of off "?id @ [?bd, 0] @ le_bytes16 (rec_ts_ms r)" "rec_data r" p]
    by (simp add: record_bytes_def wf_record_def)
  finally show ?thesis .
qed

lemma length_concat_record_bytes:
  "\<forall>r \<in> set rs. wf_record r \<Longrightarrow> length (concat (map record_bytes rs)) = length rs * 16"
  by (induction rs) (auto simp: length_record_bytes)

lemma write_records_blit:
  assumes "8 + (i + length rs) * 16 \<le> length p" "\<forall>r \<in> set rs. wf_record r"
  shows "write_records i rs p = blit (8 + i * 16) (concat (map record_bytes rs)) p"
  using assms
proof (induction rs arbitrary: i p)
  case (Cons r rs)
  have "write_records i (r # rs) p
      = blit (8 + Suc i * 16) (concat (map record_bytes rs)) (blit (8 + i * 16) (record_bytes r) p)"
    using Cons.IH [of "Suc i" "blit (8 + i * 16) (record_bytes r) p"] Cons.prems
    by (simp add: record_write_blit length_blit length_record_bytes)
  also have "\<dots> = blit (8 + i * 16) (concat (map record_bytes (r # rs))) p"
    using blit_adjacent [of "8 + i * 16" "record_bytes r" "concat (map record_bytes rs)" p] Cons.prems
    by (simp add: length_record_bytes length_concat_record_bytes ac_simps)
  finally show ?case .
qed simp

lemma rd_le_bytes16:
  "off + 2 \<le> length p \<Longrightarrow> window off 2 p = le_bytes16 v \<Longrightarrow> rd_u16 p off = v"
proof -
  assume a: "off + 2 \<le> length p" "window off 2 p = le_bytes16 v"
  have "p ! off = ucast v" "p ! (off + 1) = ucast (drop_bit 8 v)"
    using a nth_window [of 0 2 off p] nth_window [of 1 2 off p] by (simp_all add: le_bytes16_def)
  then show ?thesis unfolding rd_u16_def
    by (intro bit_word_eqI) (auto simp: bit_simps)
qed

lemma rd_le_bytes32:
  assumes "off + 4 \<le> length p" "window off 4 p = le_bytes32 v"
  shows "rd_u32 p off = v"
proof -
  have "p ! off = ucast v" "p ! (off + 1) = ucast (drop_bit 8 v)"
      "p ! (off + 2) = ucast (drop_bit 16 v)" "p ! (off + 3) = ucast (drop_bit 24 v)"
    using assms nth_window [of 0 4 off p] nth_window [of 1 4 off p] nth_window [of 2 4 off p]
      nth_window [of 3 4 off p] by (simp_all add: le_bytes32_def)
  then show ?thesis unfolding rd_u32_def
    apply (intro bit_word_eqI)
    subgoal for n by (cases "n < 8"; cases "n < 16"; cases "n < 24"; (simp add: bit_simps)?) auto
    done
qed
lemma record_read_bytes:
  assumes "off + 16 \<le> length p" "window off 16 p = record_bytes r" "wf_record r"
  shows "ps_spi_record_read p off =
    (if rec_dlc r AND 0xF \<le> 8 then PS_SPI_OK else PS_SPI_EBADCOUNT, trunc_record r)"
proof -
  have sub: "window (off + a) n p = window a n (record_bytes r)" if "a + n \<le> 16" for a n
    using window_window [OF that, of off p] assms(2) by simp
  have "rd_u32 p off = rec_id r AND 0x1FFFFFFF"
    using assms sub [of 0 4] by (intro rd_le_bytes32) (simp_all add: record_bytes_def window_def le_bytes32_def)
  moreover have "rd_u16 p (off + 6) = rec_ts_ms r"
    using assms sub [of 6 2] by (intro rd_le_bytes16) (simp_all add: record_bytes_def window_def le_bytes32_def le_bytes16_def)
  moreover have "window (off + 8) 8 p = rec_data r"
    using assms sub [of 8 8] by (simp add: record_bytes_def window_def le_bytes32_def le_bytes16_def wf_record_def)
  moreover have "p ! (off + 4) = push_bit 4 (rec_bus r AND 0xF) OR (rec_dlc r AND 0xF)"
    using assms sub [of 4 1] nth_window [of 0 1 "off + 4" p] by (simp add: record_bytes_def window_def le_bytes32_def)
  moreover have "drop_bit 4 (push_bit 4 (rec_bus r AND 0xF) OR (rec_dlc r AND 0xF)) = rec_bus r AND 0xF"
    "(push_bit 4 (rec_bus r AND 0xF) OR (rec_dlc r AND 0xF)) AND 0xF = rec_dlc r AND 0xF"
    by (simp_all only: mask_simps) (rule bit_word_eqI; auto simp: bit_simps)+
  ultimately show ?thesis
    by (simp add: ps_spi_record_read_def trunc_record_def Let_def del: push_bit_numeral)
qed

lemma length_frame_payload: "\<forall>r \<in> set rs. wf_record r \<Longrightarrow> length (frame_payload rs) = length rs * 16"
  by (simp add: frame_payload_def length_concat_record_bytes)

lemma length_frame_bytes:
  "\<forall>r \<in> set rs. wf_record r \<Longrightarrow> length (frame_bytes fl sq rs) = 8 + length rs * 16"
  by (simp add: frame_bytes_def length_frame_payload Let_def)

lemma frame_build_bytes:
  assumes "PS_SPI_XFER_SIZE \<le> length buf" "length recs \<le> PS_SPI_MAX_RECORDS" "\<forall>r \<in> set recs. wf_record r"
  shows "ps_spi_frame_build buf flags sq recs =
    (frame_bytes flags sq recs @ replicate (PS_SPI_XFER_SIZE - (8 + length recs * 16)) 0 @ drop PS_SPI_XFER_SIZE buf,
     8 + length recs * 16)"
proof -
  let ?n = "length recs" and ?pl = "frame_payload recs"
  let ?hdr = "[PS_SPI_VER, flags, of_nat ?n, sq]"
  let ?tl = "replicate (PS_SPI_XFER_SIZE - (8 + ?n * 16)) 0 @ drop PS_SPI_XFER_SIZE buf"
  let ?z = "replicate 512 0 @ drop 512 buf"
  have z: "blit 0 (replicate 512 0) buf = ?z" by (simp add: blit_def)
  have e8: "replicate 8 (0 :: u8) = [0, 0, 0, 0, 0, 0, 0, 0]" by (simp add: numeral_eq_Suc)
  have "replicate 512 (0 :: u8) = replicate 8 0 @ replicate (?n * 16) 0 @ replicate (512 - (8 + ?n * 16)) 0"
    using assms(2) by (simp only: replicate_add [symmetric]) simp
  then have zz: "?z = [0, 0, 0, 0, 0, 0, 0, 0] @ replicate (?n * 16) 0 @ ?tl"
    by (simp only: append_assoc e8)
  have "([0, 0, 0, 0, 0, 0, 0, 0] @ R)[0 := x, 0 + 1 := y, 2 := PS_SPI_VER, 3 := flags, 4 := of_nat ?n, 5 := sq]
      = [x, y] @ ?hdr @ [0, 0] @ R" for R x y
    by (simp add: numeral_eq_Suc)
  then have hd: "(wr_u16 0 PS_SPI_MAGIC ([0, 0, 0, 0, 0, 0, 0, 0] @ R))[2 := PS_SPI_VER, 3 := flags, 4 := of_nat ?n, 5 := sq]
      = (le_bytes16 PS_SPI_MAGIC @ ?hdr @ [0, 0]) @ R" for R
    by (simp only: wr_u16_def le_bytes16_def append_assoc)
  then have h: "(wr_u16 0 PS_SPI_MAGIC ?z)[2 := PS_SPI_VER, 3 := flags, 4 := of_nat ?n, 5 := sq]
      = (le_bytes16 PS_SPI_MAGIC @ ?hdr @ [0, 0]) @ replicate (?n * 16) 0 @ ?tl"
    by (simp only: zz)
  have pl: "length ?pl = ?n * 16" using assms(3) by (rule length_frame_payload)
  have w: "write_records 0 recs ((le_bytes16 PS_SPI_MAGIC @ ?hdr @ [0, 0]) @ replicate (?n * 16) 0 @ ?tl)
      = (le_bytes16 PS_SPI_MAGIC @ ?hdr @ [0, 0]) @ ?pl @ ?tl"
  proof (subst write_records_blit)
    show "blit (8 + 0 * 16) (concat (map record_bytes recs))
        ((le_bytes16 PS_SPI_MAGIC @ ?hdr @ [0, 0]) @ replicate (?n * 16) 0 @ ?tl)
      = (le_bytes16 PS_SPI_MAGIC @ ?hdr @ [0, 0]) @ ?pl @ ?tl"
      unfolding frame_payload_def [symmetric] using pl by (intro blit_middle) simp_all
  qed (use assms in auto)
  have c: "frame_crc ((le_bytes16 PS_SPI_MAGIC @ ?hdr @ [0, 0]) @ ?pl @ ?tl) ?n = ps_crc16 (?hdr @ ?pl)"
    using pl by (simp add: frame_crc_def ps_crc16_def crc_update_append window_def le_bytes16_def)
  have "([a, b, c, d, e, f, 0, 0] @ R)[6 := x, 6 + 1 := y] = [a, b, c, d, e, f, x, y] @ R"
      for a b c d e f x y :: u8 and R
    by (simp add: numeral_eq_Suc)
  then have f: "wr_u16 6 v ((le_bytes16 PS_SPI_MAGIC @ ?hdr @ [0, 0]) @ R)
      = le_bytes16 PS_SPI_MAGIC @ ?hdr @ le_bytes16 v @ R" for v R
    by (simp only: wr_u16_def le_bytes16_def append.simps)
  then show ?thesis
    using assms(2) by (simp only: ps_spi_frame_build_def Let_def z h w c f frame_bytes_def) simp
qed

lemma frame_parse_bytes:
  assumes "length recs \<le> PS_SPI_MAX_RECORDS" "\<forall>r \<in> set recs. wf_record r"
  shows "ps_spi_frame_parse (frame_bytes flags sq recs @ rest) =
    Inr \<lparr> view_flags = flags, view_count = of_nat (length recs), view_seq = sq,
          view_records = frame_payload recs @ rest \<rparr>"
proof -
  let ?n = "length recs" and ?pl = "frame_payload recs" and ?p = "frame_bytes flags sq recs @ rest"
  let ?hdr = "[PS_SPI_VER, flags, of_nat ?n, sq]"
  have pl: "length ?pl = ?n * 16" using assms(2) by (rule length_frame_payload)
  have n: "unat (of_nat ?n :: u8) = ?n"
    using assms(1) by (simp add: unsigned_of_nat take_bit_nat_eq_self)
  have m: "rd_u16 ?p 0 = PS_SPI_MAGIC"
    by (rule rd_le_bytes16) (simp_all add: frame_bytes_def Let_def le_bytes16_def window_def)
  have crc: "rd_u16 ?p 6 = ps_crc16 (?hdr @ ?pl)"
    by (rule rd_le_bytes16) (simp_all add: frame_bytes_def Let_def le_bytes16_def window_def)
  have fc: "frame_crc ?p ?n = ps_crc16 (?hdr @ ?pl)"
    using pl by (simp add: frame_crc_def frame_bytes_def Let_def ps_crc16_def crc_update_append window_def le_bytes16_def)
  have b: "?p ! 2 = PS_SPI_VER" "?p ! 3 = flags" "?p ! 4 = of_nat ?n" "?p ! 5 = sq"
    "drop 8 ?p = ?pl @ rest" "length ?p = 8 + ?n * 16 + length rest"
    using pl by (simp_all add: frame_bytes_def Let_def le_bytes16_def)
  show ?thesis
    using assms(1) by (simp only: ps_spi_frame_parse_def Let_def b m n crc fc) simp
qed

lemma view_record_bytes:
  assumes "length recs \<le> PS_SPI_MAX_RECORDS" "\<forall>r \<in> set recs. wf_record r" "i < length recs"
    and "view_count v = of_nat (length recs)" "view_records v = frame_payload recs @ rest"
  shows "ps_spi_view_record v i =
    (if rec_dlc (recs ! i) AND 0xF \<le> 8 then PS_SPI_OK else PS_SPI_EBADCOUNT, Some (trunc_record (recs ! i)))"
proof -
  have n: "unat (of_nat (length recs) :: u8) = length recs"
    using assms(1) by (simp add: unsigned_of_nat take_bit_nat_eq_self)
  have "window (i * 16) 16 (view_records v) = record_bytes (recs ! i)"
    using assms by (simp add: frame_payload_def window_concat length_record_bytes)
  then have "ps_spi_record_read (view_records v) (i * 16) =
    (if rec_dlc (recs ! i) AND 0xF \<le> 8 then PS_SPI_OK else PS_SPI_EBADCOUNT, trunc_record (recs ! i))"
    using assms by (intro record_read_bytes) (simp_all add: length_frame_payload)
  then show ?thesis using assms(3,4) n by (simp add: ps_spi_view_record_def)
qed

lemma frame_scan_from_spec:
  assumes "frame_scan_from p i = k"
  shows "(k = - 1 \<and> (\<forall>j \<ge> i. j + 1 < length p \<longrightarrow> \<not> (p ! j = 0x5A \<and> p ! (j + 1) = 0xA5)))
    \<or> (\<exists>m \<ge> i. k = int m \<and> m + 1 < length p \<and> p ! m = 0x5A \<and> p ! (m + 1) = 0xA5
          \<and> (\<forall>j. i \<le> j \<and> j < m \<longrightarrow> \<not> (p ! j = 0x5A \<and> p ! (j + 1) = 0xA5)))"
  using assms
proof (induction p i rule: frame_scan_from.induct)
  case (1 p i)
  have step: "j = i \<or> Suc i \<le> j" if "i \<le> j" for j using that by auto
  show ?case
  proof (cases "i + 1 < length p \<and> \<not> (p ! i = 0x5A \<and> p ! (i + 1) = 0xA5)")
    case True
    then have k: "frame_scan_from p (i + 1) = k" and g: "\<not> (p ! i = 0x5A \<and> p ! (i + 1) = 0xA5)"
      using 1(2) by (auto simp: frame_scan_from.simps [of p i])
    have "\<not> (p ! i = ucast (PS_SPI_MAGIC AND 255) \<and> p ! (i + 1) = ucast (drop_bit PS_SPI_HDR_SIZE PS_SPI_MAGIC))"
      using g by simp
    then have "(k = - 1 \<and> (\<forall>j \<ge> i + 1. j + 1 < length p \<longrightarrow> \<not> (p ! j = 0x5A \<and> p ! (j + 1) = 0xA5)))
    \<or> (\<exists>m \<ge> i + 1. k = int m \<and> m + 1 < length p \<and> p ! m = 0x5A \<and> p ! (m + 1) = 0xA5
          \<and> (\<forall>j. i + 1 \<le> j \<and> j < m \<longrightarrow> \<not> (p ! j = 0x5A \<and> p ! (j + 1) = 0xA5)))"
      using 1(1) [OF _ _ k] True by blast
    then show ?thesis using g step by (metis Suc_eq_plus1 Suc_leD)
  next
    case False
    then show ?thesis using 1(2) by (auto simp: frame_scan_from.simps [of p i])
  qed
qed

lemma frame_crc_byte_changed:
  assumes "8 + n * 16 \<le> length p" "b \<noteq> p ! i" "2 \<le> i \<and> i < 6 \<or> 8 \<le> i \<and> i < 8 + n * 16"
  shows "frame_crc (p[i := b]) n \<noteq> frame_crc p n"
proof -
  have w: "window off k (p[i := b]) = (if off \<le> i \<and> i < off + k then (window off k p)[i - off := b] else window off k p)"
    for off k
    by (auto simp: window_def drop_update_swap take_update_swap list_update_beyond)
  let ?q = "window 2 4 p @ window 8 (n * 16) p"
  have f: "frame_crc q n = ps_crc16_update 0xFFFF (window 2 4 q @ window 8 (n * 16) q)" for q
    by (simp add: frame_crc_def crc_update_append)
  define j where "j = (if i < 6 then i - 2 else i - 4)"
  have "window 2 4 (p[i := b]) @ window 8 (n * 16) (p[i := b]) = ?q[j := b]"
    using assms by (auto simp: w j_def list_update_append)
  moreover have "j < length ?q" "b \<noteq> ?q ! j"
    using assms by (auto simp: j_def nth_append nth_window le_add_diff_inverse simp del: add_2_eq_Suc)
  ultimately show ?thesis by (simp add: f crc_update_byte_changed)
qed

lemma parse_accepts:
  assumes "ps_spi_frame_parse p = Inr v"
  shows "8 + unat (p ! 4) * 16 \<le> length p" "rd_u16 p 0 = PS_SPI_MAGIC" "p ! 2 = PS_SPI_VER"
    "unat (p ! 4) \<le> PS_SPI_MAX_RECORDS" "frame_crc p (unat (p ! 4)) = rd_u16 p 6"
  using assms by (auto simp: ps_spi_frame_parse_def Let_def split: if_splits)

lemma rd_u16_inj: "rd_u16 p i = rd_u16 q j \<Longrightarrow> p ! i = q ! j \<and> p ! (i + 1) = q ! (j + 1)"
proof -
  assume a: "rd_u16 p i = rd_u16 q j"
  have lo: "ucast (rd_u16 r k) = r ! k" and hi: "ucast (drop_bit 8 (rd_u16 r k)) = r ! (k + 1)" for r k
    unfolding rd_u16_def by (rule bit_word_eqI; auto simp: bit_simps)+
  show ?thesis using a lo [of p i] lo [of q j] hi [of p i] hi [of q j] by simp
qed

lemma frame_roundtrip_view:
  assumes "PS_SPI_XFER_SIZE \<le> length buf" "length recs \<le> PS_SPI_MAX_RECORDS"
    and "\<forall>r \<in> set recs. wf_record r"
  shows "\<exists>p v. ps_spi_frame_build buf flags sq recs = (p, 8 + length recs * 16)
    \<and> length p = length buf
    \<and> (\<forall>i. 8 + length recs * 16 \<le> i \<and> i < PS_SPI_XFER_SIZE \<longrightarrow> p ! i = 0)
    \<and> ps_spi_frame_parse p = Inr v
    \<and> view_flags v = flags \<and> view_seq v = sq \<and> unat (view_count v) = length recs
    \<and> (\<forall>i < length recs. ps_spi_view_record v i =
         (if rec_dlc (recs ! i) AND 0xF \<le> 8 then PS_SPI_OK else PS_SPI_EBADCOUNT,
          Some (trunc_record (recs ! i))))"
proof -
  let ?rest = "replicate (PS_SPI_XFER_SIZE - (8 + length recs * 16)) 0 @ drop PS_SPI_XFER_SIZE buf"
  let ?p = "frame_bytes flags sq recs @ ?rest"
  let ?v = "\<lparr> view_flags = flags, view_count = of_nat (length recs), view_seq = sq,
             view_records = frame_payload recs @ ?rest \<rparr>"
  have "length ?p = length buf" "\<forall>i. 8 + length recs * 16 \<le> i \<and> i < PS_SPI_XFER_SIZE \<longrightarrow> ?p ! i = 0"
    using assms by (auto simp: length_frame_bytes nth_append)
  moreover have "unat (of_nat (length recs) :: u8) = length recs"
    using assms(2) by (simp add: unsigned_of_nat take_bit_nat_eq_self)
  moreover have "\<forall>i < length recs. ps_spi_view_record ?v i =
         (if rec_dlc (recs ! i) AND 0xF \<le> 8 then PS_SPI_OK else PS_SPI_EBADCOUNT,
          Some (trunc_record (recs ! i)))"
    using assms by (intro allI impI view_record_bytes) simp_all
  ultimately show ?thesis
    using frame_build_bytes [OF assms, of flags sq] frame_parse_bytes [OF assms(2,3), of flags sq ?rest]
    by (intro exI [of _ ?p] exI [of _ ?v]) simp
qed

section \<open>Properties\<close>

text \<open>Claim C12. Build then parse is the identity on what the format carries: for at most 31
  records the frame fills exactly \<open>8 + 16 n\<close> bytes of the transaction buffer and leaves the rest of
  the 512 bytes zero, the parser accepts it whatever follows, and record \<open>i\<close> of the view
  is record \<open>i\<close> of the input with id, bus and dlc cut to their fields.\<close>

theorem spi_frame_roundtrip:
  assumes "PS_SPI_XFER_SIZE \<le> length buf" "length recs \<le> PS_SPI_MAX_RECORDS"
    and "\<forall>r \<in> set recs. wf_record r"
  shows "\<exists>p v. ps_spi_frame_build buf flags sq recs = (p, 8 + length recs * 16)
    \<and> length p = length buf
    \<and> (\<forall>i. 8 + length recs * 16 \<le> i \<and> i < PS_SPI_XFER_SIZE \<longrightarrow> p ! i = 0)
    \<and> ps_spi_frame_parse p = Inr v
    \<and> view_flags v = flags \<and> view_seq v = sq \<and> unat (view_count v) = length recs
    \<and> (\<forall>i < length recs. ps_spi_view_record v i =
         (if rec_dlc (recs ! i) AND 0xF \<le> 8 then PS_SPI_OK else PS_SPI_EBADCOUNT,
          Some (trunc_record (recs ! i))))"
  by (rule frame_roundtrip_view [OF assms])

theorem spi_frame_roundtrip_witness:
  "PS_SPI_XFER_SIZE \<le> length (replicate 512 (7 :: u8)) \<and>
   (\<exists>p v. ps_spi_frame_build (replicate 512 7) PS_SPIF_ESTOP_LATCHED 3
       [\<lparr>rec_id = 0x1234, rec_bus = 1, rec_dlc = 2, rec_ts_ms = 500, rec_data = [1, 2, 0, 0, 0, 0, 0, 0]\<rparr>]
     = (p, 24) \<and> ps_spi_frame_parse p = Inr v \<and> view_flags v = 1 \<and> view_seq v = 3)"
  using spi_frame_roundtrip [of "replicate 512 7"
    "[\<lparr>rec_id = 0x1234, rec_bus = 1, rec_dlc = 2, rec_ts_ms = 500, rec_data = [1, 2, 0, 0, 0, 0, 0, 0]\<rparr>]"
    PS_SPIF_ESTOP_LATCHED 3]
  by (auto simp: wf_record_def)

text \<open>Claim C13. A frame with one corrupted byte never gets through: if the parser accepts a
  buffer, then changing any single byte of it (of the header or of the records; the count
  byte aside, which changes how many bytes the checksum covers) makes it refuse the buffer.\<close>

theorem spi_frame_corruption_rejected:
  assumes "ps_spi_frame_parse p = Inr v" "i < 8 + unat (view_count v) * 16" "i \<noteq> 4" "b \<noteq> p ! i"
  shows "\<exists>e. ps_spi_frame_parse (p[i := b]) = Inl e"
proof (rule ccontr)
  assume "\<not> ?thesis"
  then obtain v' where v': "ps_spi_frame_parse (p[i := b]) = Inr v'"
    by (cases "ps_spi_frame_parse (p[i := b])") auto
  have c: "view_count v = p ! 4"
    using assms(1) by (auto simp: ps_spi_frame_parse_def Let_def split: if_splits)
  note old = parse_accepts [OF assms(1)] and new = parse_accepts [OF v']
  have i: "i < length p" and n: "p[i := b] ! 4 = p ! 4" using assms(2,3) old(1) c by auto
  have b: "p[i := b] ! i \<noteq> p ! i" using assms(4) i by simp
  have magic: "p[i := b] ! 0 = p ! 0 \<and> p[i := b] ! 1 = p ! 1"
    using rd_u16_inj [of "p[i := b]" 0 p 0] old(2) new(2) by simp
  have "p[i := b] ! 2 = p ! 2" using old(3) new(3) by simp
  then have "2 < i" using magic b by (metis less_2_cases_iff linorder_neqE_nat One_nat_def)
  show False
  proof (cases "i = 6 \<or> i = 7")
    case True
    then have "frame_crc (p[i := b]) (unat (p ! 4)) = frame_crc p (unat (p ! 4))"
      by (auto simp: frame_crc_def window_def drop_update_swap take_update_swap list_update_beyond)
    then have "rd_u16 (p[i := b]) 6 = rd_u16 p 6" using old(5) new(5) n by simp
    then show False using rd_u16_inj [of "p[i := b]" 6 p 6] b True by auto
  next
    case False
    then have "frame_crc (p[i := b]) (unat (p ! 4)) \<noteq> frame_crc p (unat (p ! 4))"
      using assms c old(1) \<open>2 < i\<close> by (intro frame_crc_byte_changed) auto
    moreover have "rd_u16 (p[i := b]) 6 = rd_u16 p 6" using False by (simp add: rd_u16_def)
    ultimately show False using old(5) new(5) n by simp
  qed
qed

theorem spi_frame_corruption_rejected_witness:
  "(\<exists>v. ps_spi_frame_parse [0x5A, 0xA5, 1, 0, 0, 9, 0x5D, 0x63] = Inr v) \<and>
   (\<exists>e. ps_spi_frame_parse ([0x5A, 0xA5, 1, 0, 0, 9, 0x5D, 0x63][5 := 8]) = Inl e)"
proof -
  have p: "ps_spi_frame_parse [0x5A, 0xA5, 1, 0, 0, 9, 0x5D, 0x63] =
    Inr \<lparr>view_flags = 0, view_count = 0, view_seq = 9, view_records = []\<rparr>"
    by (simp add: ps_spi_frame_parse_def frame_crc_def rd_u16_def window_def crc16_byte_def crc16_bit_def funpow_8)
  then show ?thesis
    using spi_frame_corruption_rejected [OF p, of 5 8] by auto
qed

text \<open>Resynchronisation: the scan returns the first offset at or after \<open>start\<close> where the
  two magic bytes stand, and \<open>-1\<close> exactly when there is none.\<close>

lemma spi_scan_first_magic:
  "(ps_spi_frame_scan p start = - 1 \<longleftrightarrow>
      (\<forall>j \<ge> start. j + 1 < length p \<longrightarrow> \<not> (p ! j = 0x5A \<and> p ! (j + 1) = 0xA5))) \<and>
   (\<forall>m. ps_spi_frame_scan p start = int m \<longleftrightarrow>
      start \<le> m \<and> m + 1 < length p \<and> p ! m = 0x5A \<and> p ! (m + 1) = 0xA5 \<and>
      (\<forall>j. start \<le> j \<and> j < m \<longrightarrow> \<not> (p ! j = 0x5A \<and> p ! (j + 1) = 0xA5)))"
proof -
  have short: "frame_scan_from p start = - 1" if "length p < 2"
    using that by (simp add: frame_scan_from.simps [of p start])
  then have "ps_spi_frame_scan p start = frame_scan_from p start" by (simp add: ps_spi_frame_scan_def)
  then show ?thesis
    using frame_scan_from_spec [of p start "frame_scan_from p start"]
    by (auto simp: not_less) (metis linorder_neqE_nat)+
qed

end
