(* ===== verification/Spi_Bridge.thy ===== *)
theory Spi_Bridge
  imports Spi_Frame Can_Port
begin

text \<open>
  The hub's SPI slave bridge to the orchestrator, \<open>firmware/components/ps_spibridge/src/ps_spibridge.c\<close>: the
  uplink and downlink queues, the frame built for the next transaction, the handling of what the master clocked
  in, and the status flags. The queues are FreeRTOS queues (\<open>rtos_queue\<close>); the SPI slave driver is not
  modelled: a completed transaction is the bytes the master clocked in, and the model returns the bytes the next
  one sends. The DATA_READY pin is a field.
\<close>

section \<open>State\<close>

abbreviation SPIB_DEF_UPLINK_LEN :: nat where "SPIB_DEF_UPLINK_LEN \<equiv> 256"
abbreviation SPIB_DEF_DOWNLINK_LEN :: nat where "SPIB_DEF_DOWNLINK_LEN \<equiv> 128"

record ps_spib_stats =
  transactions :: u32
  crc_errors :: u32
  uplink_overflows :: u32
  downlink_records :: u32
  seq_gaps :: u32

record 'q spib =
  s_uplink_q :: 'q
  s_downlink_q :: 'q
  data_ready :: bool
  spib_started :: bool
  s_stats :: ps_spib_stats
  s_sticky_flags :: u8
  s_overflow_pending :: bool
  s_tx_seq :: u8
  s_rx_seq :: u8
  s_have_rx_seq :: bool
  s_downlink_drops :: u32

type_synonym 'q rec_queue = "('q, ps_can_record) rtos_queue"

section \<open>Operations\<close>

text \<open>The level is computed from the queue, then written to the pin: two steps that another task may come between.\<close>

definition data_ready_level :: "'q rec_queue \<Rightarrow> 'q spib \<Rightarrow> bool" where
  "data_ready_level Q s \<longleftrightarrow> q_waiting Q (s_uplink_q s) > 0"

definition set_data_ready :: "bool \<Rightarrow> 'q spib \<Rightarrow> 'q spib" where
  "set_data_ready level s = s\<lparr>data_ready := level\<rparr>"

definition spib_update_data_ready :: "'q rec_queue \<Rightarrow> 'q spib \<Rightarrow> 'q spib" where
  "spib_update_data_ready Q s = set_data_ready (data_ready_level Q s) s"

text \<open>\<open>rx\<close> is the received part of the buffer (its length is the code's \<open>len\<close>).\<close>

definition spib_rx_is_idle :: "bytes \<Rightarrow> bool" where
  "spib_rx_is_idle rx =
     (if length rx = 0 then True
      else if length rx < PS_SPI_HDR_SIZE then False
      else list_all (\<lambda>b. b = 0) (take PS_SPI_HDR_SIZE rx))"

definition count_crc_error :: "'q spib \<Rightarrow> 'q spib" where
  "count_crc_error s = s\<lparr>s_stats := (s_stats s)\<lparr>crc_errors := crc_errors (s_stats s) + 1\<rparr>\<rparr>"

text \<open>Queue one downlink record, dropping the oldest when the queue is full.\<close>

definition spib_enqueue_down :: "'q rec_queue \<Rightarrow> ps_can_record \<Rightarrow> 'q spib \<Rightarrow> 'q spib" where
  "spib_enqueue_down Q r s =
     (let (ok, q) = q_send Q (s_downlink_q s) r;
          s = s\<lparr>s_downlink_q := q\<rparr>;
          s = (if ok then s
               else
                 let (scrap, q) = q_receive Q (s_downlink_q s);
                     (ok2, q) = q_send Q q r
                 in s\<lparr>s_downlink_q := q, s_downlink_drops := s_downlink_drops s + 1\<rparr>)
      in s\<lparr>s_stats := (s_stats s)\<lparr>downlink_records := downlink_records (s_stats s) + 1\<rparr>\<rparr>)"

text \<open>The record loop of \<open>spib_handle_rx\<close>, from record \<open>i\<close> on, \<open>k\<close> records to go.\<close>

fun spib_rx_records :: "'q rec_queue \<Rightarrow> ps_spi_view \<Rightarrow> nat \<Rightarrow> nat \<Rightarrow> 'q spib \<Rightarrow> 'q spib" where
  "spib_rx_records Q view i 0 s = s"
| "spib_rx_records Q view i (Suc k) s =
     (case ps_spi_view_record view i of
        (PS_SPI_OK, Some r) \<Rightarrow> spib_rx_records Q view (i + 1) k (spib_enqueue_down Q r s)
      | _ \<Rightarrow> spib_rx_records Q view (i + 1) k (count_crc_error s))"

definition spib_handle_rx :: "'q rec_queue \<Rightarrow> bytes \<Rightarrow> 'q spib \<Rightarrow> 'q spib" where
  "spib_handle_rx Q rx s =
     (case (if length rx \<ge> PS_SPI_HDR_SIZE then ps_spi_frame_parse rx else Inl PS_SPI_ESHORT) of
        Inl e \<Rightarrow> if \<not> spib_rx_is_idle rx then count_crc_error s else s
      | Inr view \<Rightarrow>
          let s = (if s_have_rx_seq s \<and> view_seq view \<noteq> s_rx_seq s + 1
                   then s\<lparr>s_stats := (s_stats s)\<lparr>seq_gaps := seq_gaps (s_stats s) + 1\<rparr>\<rparr> else s);
              s = s\<lparr>s_rx_seq := view_seq view, s_have_rx_seq := True\<rparr>
          in spib_rx_records Q view 0 (unat (view_count view)) s)"

text \<open>The drain loop of \<open>spib_build_tx\<close>, at most \<open>k\<close> records.\<close>

fun spib_drain :: "'q rec_queue \<Rightarrow> nat \<Rightarrow> 'q \<Rightarrow> ps_can_record list \<times> 'q" where
  "spib_drain Q 0 q = ([], q)"
| "spib_drain Q (Suc k) q =
     (case q_receive Q q of
        (None, q) \<Rightarrow> ([], q)
      | (Some r, q) \<Rightarrow> (case spib_drain Q k q of (rs, q) \<Rightarrow> (r # rs, q)))"

definition spib_build_tx :: "'q rec_queue \<Rightarrow> bytes \<Rightarrow> 'q spib \<Rightarrow> bytes \<times> 'q spib" where
  "spib_build_tx Q buf s =
     (let (recs, q) = spib_drain Q PS_SPI_MAX_RECORDS (s_uplink_q s);
          s = s\<lparr>s_uplink_q := q\<rparr>;
          flags = s_sticky_flags s;
          (flags, s) = (if s_overflow_pending s
                        then (flags OR PS_SPIF_OVERFLOW, s\<lparr>s_overflow_pending := False\<rparr>) else (flags, s));
          flags = (if q_waiting Q (s_uplink_q s) > 0 then flags OR PS_SPIF_MORE_PENDING else flags);
          sq = s_tx_seq s;
          s = s\<lparr>s_tx_seq := s_tx_seq s + 1\<rparr>
      in (fst (ps_spi_frame_build buf flags sq recs), s))"

text \<open>One turn of \<open>spib_pump_task\<close> for a completed transaction: the bytes the master clocked in, and the transmit
  buffer of the slot, which is rebuilt and queued again.\<close>

definition spib_pump_turn :: "'q rec_queue \<Rightarrow> bytes \<Rightarrow> bytes \<Rightarrow> 'q spib \<Rightarrow> bytes \<times> 'q spib" where
  "spib_pump_turn Q rx tx s =
     (let s = s\<lparr>s_stats := (s_stats s)\<lparr>transactions := transactions (s_stats s) + 1\<rparr>\<rparr>;
          s = spib_handle_rx Q rx s;
          (tx, s) = spib_build_tx Q tx s;
          s = spib_update_data_ready Q s
      in (tx, s))"

record 'q spib_start_env =
  cfg_given :: bool \<comment> \<open>\<open>cfg\<close> is not NULL\<close>
  up_queue :: "'q option"
  down_queue :: "'q option"
  gpio_config_err :: esp_err
  slave_init_err :: esp_err
  pump_created :: bool

text \<open>Returns the error code and the two transmit buffers armed first. (The code marks the bridge started before
  it knows whether the pump task exists.)\<close>

definition ps_spib_start ::
    "'q rec_queue \<Rightarrow> 'q spib_start_env \<Rightarrow> bytes \<times> bytes \<Rightarrow> 'q spib \<Rightarrow> esp_err \<times> (bytes \<times> bytes) \<times> 'q spib" where
  "ps_spib_start Q env bufs s =
     (if \<not> cfg_given env then (ESP_ERR_INVALID_ARG, bufs, s)
      else if spib_started s then (ESP_ERR_INVALID_STATE, bufs, s)
      else case (up_queue env, down_queue env) of
        (Some uq, Some dq) \<Rightarrow>
          let s = s\<lparr>s_uplink_q := uq, s_downlink_q := dq\<rparr> in
          if gpio_config_err env \<noteq> ESP_OK then (gpio_config_err env, bufs, s)
          else
            let s = s\<lparr>data_ready := False\<rparr> in
            if slave_init_err env \<noteq> ESP_OK then (slave_init_err env, bufs, s)
            else
              let (b0, s) = spib_build_tx Q (fst bufs) s;
                  (b1, s) = spib_build_tx Q (snd bufs) s;
                  s = s\<lparr>spib_started := True\<rparr>
              in (if pump_created env then ESP_OK else ESP_ERR_NO_MEM, (b0, b1), s)
      | _ \<Rightarrow> (ESP_ERR_NO_MEM, bufs, s))"

definition ps_spib_uplink_push :: "'q rec_queue \<Rightarrow> ps_can_record \<Rightarrow> 'q spib \<Rightarrow> bool \<times> 'q spib" where
  "ps_spib_uplink_push Q r s =
     (if \<not> spib_started s then (False, s)
      else
        let (ok, q) = q_send Q (s_uplink_q s) r; s = s\<lparr>s_uplink_q := q\<rparr> in
        if \<not> ok then
          (False, s\<lparr>s_overflow_pending := True,
                    s_stats := (s_stats s)\<lparr>uplink_overflows := uplink_overflows (s_stats s) + 1\<rparr>\<rparr>)
        else (True, s\<lparr>data_ready := True\<rparr>))"

definition ps_spib_downlink_pop :: "'q rec_queue \<Rightarrow> 'q spib \<Rightarrow> ps_can_record option \<times> 'q spib" where
  "ps_spib_downlink_pop Q s =
     (if \<not> spib_started s then (None, s)
      else case q_receive Q (s_downlink_q s) of (r, q) \<Rightarrow> (r, s\<lparr>s_downlink_q := q\<rparr>))"

definition ps_spib_set_flag :: "u8 \<Rightarrow> bool \<Rightarrow> 'q spib \<Rightarrow> 'q spib" where
  "ps_spib_set_flag flag on s =
     (let flag = flag AND (PS_SPIF_ESTOP_LATCHED OR PS_SPIF_HUB_FAULT)
      in if on then s\<lparr>s_sticky_flags := s_sticky_flags s OR flag\<rparr>
         else s\<lparr>s_sticky_flags := s_sticky_flags s AND NOT flag\<rparr>)"

definition ps_spib_get_stats :: "'q spib \<Rightarrow> ps_spib_stats" where
  "ps_spib_get_stats s = s_stats s"

section \<open>Lemmas\<close>

lemma drain_take:
  assumes "queue_ok Q view cap"
  shows "fst (spib_drain Q k q) = take k (view q) \<and> view (snd (spib_drain Q k q)) = drop k (view q)"
proof (induction k arbitrary: q)
  case (Suc k)
  show ?case
  proof (cases "q_receive Q q")
    case (Pair r q')
    show ?thesis
    proof (cases r)
      case None
      then show ?thesis using Pair queue_ok_receive(1,3) [OF assms, of q] by simp
    next
      case (Some x)
      then show ?thesis using Pair queue_ok_receive(2) [OF assms, of q x] Suc [of q']
        by (auto simp: case_prod_unfold)
    qed
  qed
qed simp

lemma enqueue_down_view:
  assumes "queue_ok Q view cap" "0 < cap" "length (view (s_downlink_q s)) \<le> cap"
  shows "view (s_downlink_q (spib_enqueue_down Q r s)) =
    (if length (view (s_downlink_q s)) < cap then view (s_downlink_q s) @ [r] else tl (view (s_downlink_q s)) @ [r])"
proof (cases "length (view (s_downlink_q s)) < cap")
  case True
  then show ?thesis using queue_ok_send [OF assms(1), of "s_downlink_q s" r]
    by (auto simp: spib_enqueue_down_def Let_def split: prod.splits)
next
  case False
  let ?q = "snd (q_send Q (s_downlink_q s) r)"
  have v: "view ?q = view (s_downlink_q s)" "\<not> fst (q_send Q (s_downlink_q s) r)"
    using queue_ok_send [OF assms(1), of "s_downlink_q s" r] False by auto
  obtain x xs where x: "view (s_downlink_q s) = x # xs" using False assms(2) by (cases "view (s_downlink_q s)") auto
  have "view (snd (q_receive Q ?q)) = xs"
    using queue_ok_receive(1,2) [OF assms(1), of ?q] v(1) x by (cases "fst (q_receive Q ?q)") auto
  moreover have "length xs < cap" using assms(3) x by simp
  ultimately show ?thesis
    using queue_ok_send(2) [OF assms(1), of "snd (q_receive Q ?q)" r] v(2) False x
    by (simp add: spib_enqueue_down_def Let_def case_prod_unfold)
qed

lemma enqueue_down_fields:
  "crc_errors (s_stats (spib_enqueue_down Q r s)) = crc_errors (s_stats s)"
  "seq_gaps (s_stats (spib_enqueue_down Q r s)) = seq_gaps (s_stats s)"
  "s_rx_seq (spib_enqueue_down Q r s) = s_rx_seq s" "s_have_rx_seq (spib_enqueue_down Q r s) = s_have_rx_seq s"
  "s_uplink_q (spib_enqueue_down Q r s) = s_uplink_q s"
  by (simp_all add: spib_enqueue_down_def Let_def case_prod_unfold)

lemma rx_records_view:
  assumes "queue_ok Q view cap" "0 < cap" "length (view (s_downlink_q s)) \<le> cap"
    and "\<And>j. i \<le> j \<Longrightarrow> j < i + k \<Longrightarrow> ps_spi_view_record v j = (PS_SPI_OK, Some (g j))"
  shows "view (s_downlink_q (spib_rx_records Q v i k s)) = keep_last cap (view (s_downlink_q s) @ map g [i..<i + k]) \<and>
    crc_errors (s_stats (spib_rx_records Q v i k s)) = crc_errors (s_stats s) \<and>
    seq_gaps (s_stats (spib_rx_records Q v i k s)) = seq_gaps (s_stats s) \<and>
    s_rx_seq (spib_rx_records Q v i k s) = s_rx_seq s \<and> s_have_rx_seq (spib_rx_records Q v i k s) = s_have_rx_seq s"
  using assms(3,4)
proof (induction k arbitrary: i s)
  case 0
  then show ?case by (simp add: keep_last_all)
next
  case (Suc k)
  let ?s = "spib_enqueue_down Q (g i) s"
  have e: "spib_rx_records Q v i (Suc k) s = spib_rx_records Q v (i + 1) k ?s"
    using Suc.prems(2) [of i] by simp
  have d: "view (s_downlink_q ?s) = keep_last cap (view (s_downlink_q s) @ [g i])"
    using enqueue_down_view [OF assms(1,2) Suc.prems(1), of "g i"] Suc.prems(1) assms(2)
    by (simp add: keep_last_snoc)
  then have "length (view (s_downlink_q ?s)) \<le> cap" by (simp add: length_keep_last)
  moreover have "[i..<i + Suc k] = i # [i + 1..<i + 1 + k]" by (simp add: upt_conv_Cons)
  ultimately show ?case
    using Suc.IH [of ?s "i + 1"] Suc.prems(2) e d keep_last_append [of cap "view (s_downlink_q s) @ [g i]"]
    by (simp add: enqueue_down_fields)
qed

section \<open>An instance\<close>

definition demo_rec :: ps_can_record where
  "demo_rec = \<lparr>rec_id = 5, rec_bus = 0, rec_dlc = 2, rec_ts_ms = 0, rec_data = [1, 2, 0, 0, 0, 0, 0, 0]\<rparr>"

definition demo_spib :: "ps_can_record list spib" where
  "demo_spib = \<lparr> s_uplink_q = [demo_rec], s_downlink_q = [], data_ready = True, spib_started = True,
     s_stats = \<lparr>transactions = 0, crc_errors = 0, uplink_overflows = 0, downlink_records = 0, seq_gaps = 0\<rparr>,
     s_sticky_flags = 0, s_overflow_pending = False, s_tx_seq = 0, s_rx_seq = 0, s_have_rx_seq = False, s_downlink_drops = 0 \<rparr>"

lemma demo_rec_ok: "wf_record demo_rec" "rec_dlc demo_rec \<le> 8"
  by (simp_all add: demo_rec_def wf_record_def)

section \<open>Properties\<close>

text \<open>Uplink delivery: the frame built for the next transaction parses, and carries exactly the oldest records of
  the uplink queue (at most 31), in order; the others stay queued. Its flags report the sticky bits, an overflow
  since the last frame, and that more is pending exactly when it is.\<close>

lemma spib_uplink_delivers:
  assumes "queue_ok Q view cap" "PS_SPI_XFER_SIZE \<le> length buf"
    and "\<forall>r \<in> set (view (s_uplink_q s)). wf_record r \<and> rec_dlc r \<le> 8" "spib_build_tx Q buf s = (tx, s')"
  shows "\<exists>v. ps_spi_frame_parse tx = Inr v \<and> unat (view_count v) = min 31 (length (view (s_uplink_q s))) \<and>
    (\<forall>i < unat (view_count v). ps_spi_view_record v i = (PS_SPI_OK, Some (trunc_record (view (s_uplink_q s) ! i)))) \<and>
    view (s_uplink_q s') = drop 31 (view (s_uplink_q s)) \<and> view_seq v = s_tx_seq s \<and>
    view_flags v = s_sticky_flags s OR (if s_overflow_pending s then PS_SPIF_OVERFLOW else 0)
      OR (if 31 < length (view (s_uplink_q s)) then PS_SPIF_MORE_PENDING else 0) \<and> \<not> s_overflow_pending s'"
proof -
  let ?u = "view (s_uplink_q s)" and ?recs = "take 31 (view (s_uplink_q s))"
  let ?q = "snd (spib_drain Q 31 (s_uplink_q s))"
  let ?fl = "s_sticky_flags s OR (if s_overflow_pending s then PS_SPIF_OVERFLOW else 0)
      OR (if 31 < length ?u then PS_SPIF_MORE_PENDING else 0)"
  note dr = drain_take [OF assms(1), of 31 "s_uplink_q s"]
  have wait: "(0 < q_waiting Q ?q) = (31 < length ?u)" using queue_ok_receive(4) [OF assms(1), of ?q] dr by auto
  have recs: "length ?recs \<le> 31" "\<forall>r \<in> set ?recs. wf_record r \<and> rec_dlc r \<le> 8"
    using assms(3) by (auto dest: in_set_takeD)
  then obtain p v where p: "ps_spi_frame_build buf ?fl (s_tx_seq s) ?recs = (p, 8 + length ?recs * 16)"
     "ps_spi_frame_parse p = Inr v" "view_flags v = ?fl" "view_seq v = s_tx_seq s" "unat (view_count v) = length ?recs"
     "\<forall>i < length ?recs. ps_spi_view_record v i =
         (if rec_dlc (?recs ! i) AND 0xF \<le> 8 then PS_SPI_OK else PS_SPI_EBADCOUNT, Some (trunc_record (?recs ! i)))"
    using frame_roundtrip_view [OF assms(2) recs(1), of ?fl "s_tx_seq s"] by blast
  have dlc: "rec_dlc (?recs ! i) AND 0xF \<le> 8" if "i < length ?recs" for i
  proof -
    have "rec_dlc (?recs ! i) \<le> 8" using recs(2) nth_mem [OF that] by blast
    then show ?thesis by (metis word_and_le2 order_trans)
  qed
  have "tx = p" "s_uplink_q s' = ?q" "\<not> s_overflow_pending s'"
    using assms(4) p(1) dr wait unfolding spib_build_tx_def
    by (auto simp: Let_def case_prod_unfold or.assoc split: if_splits)
  then show ?thesis using p dlc dr by (auto simp: min_def)
qed

text \<open>Downlink delivery: a frame the orchestrator built reaches the downlink queue record by record and in order
  (the oldest are dropped when the queue overflows), counts no error, and counts a sequence gap exactly when
  its number does not follow the last one.\<close>

lemma spib_downlink_delivers:
  assumes "queue_ok Q view cap" "0 < cap" "length (view (s_downlink_q s)) \<le> cap"
    and "PS_SPI_XFER_SIZE \<le> length buf" "length recs \<le> PS_SPI_MAX_RECORDS"
    and "\<forall>r \<in> set recs. wf_record r \<and> rec_dlc r \<le> 8"
    and "s' = spib_handle_rx Q (fst (ps_spi_frame_build buf flags sq recs)) s"
  shows "view (s_downlink_q s') = keep_last cap (view (s_downlink_q s) @ map trunc_record recs) \<and>
    crc_errors (s_stats s') = crc_errors (s_stats s) \<and> s_rx_seq s' = sq \<and>
    seq_gaps (s_stats s') = seq_gaps (s_stats s) + (if s_have_rx_seq s \<and> sq \<noteq> s_rx_seq s + 1 then 1 else 0)"
proof -
  obtain p v where p: "ps_spi_frame_build buf flags sq recs = (p, 8 + length recs * 16)"
     "ps_spi_frame_parse p = Inr v" "view_seq v = sq" "unat (view_count v) = length recs"
     "\<forall>i < length recs. ps_spi_view_record v i =
         (if rec_dlc (recs ! i) AND 0xF \<le> 8 then PS_SPI_OK else PS_SPI_EBADCOUNT, Some (trunc_record (recs ! i)))"
    using frame_roundtrip_view [OF assms(4,5), of flags sq] assms(6) by blast
  have rec: "ps_spi_view_record v i = (PS_SPI_OK, Some (trunc_record (recs ! i)))" if "i < length recs" for i
  proof -
    have "rec_dlc (recs ! i) \<le> 8" using assms(6) nth_mem [OF that] by blast
    then have "rec_dlc (recs ! i) AND 0xF \<le> 8" by (metis word_and_le2 order_trans)
    then show ?thesis using p(5) that by simp
  qed
  define s1 where "s1 = (if s_have_rx_seq s \<and> view_seq v \<noteq> s_rx_seq s + 1
      then s\<lparr>s_stats := (s_stats s)\<lparr>seq_gaps := seq_gaps (s_stats s) + 1\<rparr>\<rparr> else s)
      \<lparr>s_rx_seq := view_seq v, s_have_rx_seq := True\<rparr>"
  have "8 \<le> length p" using parse_accepts(1) [OF p(2)] by simp
  then have s': "s' = spib_rx_records Q v 0 (length recs) s1"
    using assms(7) p unfolding spib_handle_rx_def s1_def by (simp add: Let_def)
  have "map (\<lambda>i. trunc_record (recs ! i)) [0..<length recs] = map trunc_record recs"
    by (rule nth_equalityI) simp_all
  moreover have "s_downlink_q s1 = s_downlink_q s" by (simp add: s1_def)
  ultimately show ?thesis
    using rx_records_view [OF assms(1,2), of s1 0 "length recs" v "\<lambda>i. trunc_record (recs ! i)"] assms(3) rec
    unfolding s' by (simp add: s1_def p(3))
qed

text \<open>DATA_READY tells the truth as long as a pump turn and a push do not overlap: after a pump turn the pin is high exactly when an
  uplink record waits, and a successful push raises it at once; a refused push is reported in the next frame.\<close>

lemma spib_data_ready:
  assumes "queue_ok Q view cap" "spib_pump_turn Q rx tx s = (tx', s')" "spib_started s" "ps_spib_uplink_push Q r s = (ok, s'')"
  shows "data_ready s' = (view (s_uplink_q s') \<noteq> []) \<and>
    ok = (length (view (s_uplink_q s)) < cap) \<and>
    (if ok then data_ready s'' \<and> view (s_uplink_q s'') = view (s_uplink_q s) @ [r]
     else s_overflow_pending s'' \<and> view (s_uplink_q s'') = view (s_uplink_q s))"
proof -
  have "data_ready s' = (view (s_uplink_q s') \<noteq> [])"
    using assms(2) queue_ok_receive(4) [OF assms(1)]
    by (auto simp: spib_pump_turn_def spib_update_data_ready_def set_data_ready_def data_ready_level_def Let_def split: prod.splits)
  then show ?thesis using assms(3,4) queue_ok_send [OF assms(1), of "s_uplink_q s" r]
    by (auto simp: ps_spib_uplink_push_def Let_def split: prod.splits if_splits)
qed

text \<open>A lost wake-up: when a push comes between the pump's look at the empty queue and its write of the pin, the pin ends low
  although the record waits, for every queue with room.\<close>

lemma spib_data_ready_race:
  assumes "queue_ok Q view cap" "view (s_uplink_q s) = []" "0 < cap" "spib_started s"
  shows "let level = data_ready_level Q s; s' = set_data_ready level (snd (ps_spib_uplink_push Q r s))
    in fst (ps_spib_uplink_push Q r s) \<and> view (s_uplink_q s') = [r] \<and> \<not> data_ready s'"
  using assms queue_ok_send [OF assms(1), of "s_uplink_q s" r] queue_ok_receive(4) [OF assms(1), of "s_uplink_q s"]
  by (auto simp: ps_spib_uplink_push_def set_data_ready_def data_ready_level_def Let_def split: prod.splits)

end
