(* ===== verification/Float32.thy ===== *)
theory Float32
  imports Complex_Main Prelude
begin

text \<open>
  C \<open>float\<close> arithmetic as the firmware uses it: IEEE 754 binary32 with rounding to nearest, ties to even. A finite value
  is the rational it stands for; every operation rounds its exact result once. Infinities, NaN and the sign of zero
  have no place in this type: a statement that depends on a value gives the bound that keeps it in range.
\<close>

section \<open>Rounding\<close>

text \<open>To the nearest integer, ties to even.\<close>

definition rne :: "rat \<Rightarrow> int" where
  "rne x = (let f = \<lfloor>x\<rfloor>; r = x - of_int f in
     if r < 1 / 2 then f else if r > 1 / 2 then f + 1 else if even f then f else f + 1)"

text \<open>The position of the leading bit of a positive integer, and of a value that is not zero.\<close>

function ilog2 :: "int \<Rightarrow> int" where
  "ilog2 n = (if n \<le> 1 then 0 else 1 + ilog2 (n div 2))"
  by auto
termination by (relation "measure nat") auto

declare ilog2.simps [simp del]

definition binade :: "rat \<Rightarrow> int" where
  "binade x =
     (let (n, d) = quotient_of \<bar>x\<bar>; k = ilog2 n - ilog2 d
      in if 2 powi k \<le> \<bar>x\<bar> then k else k - 1)"

text \<open>24 significant bits, and no bit below \<open>2 powi -149\<close>.\<close>

definition f32 :: "rat \<Rightarrow> rat" where
  "f32 x = (let e = max (binade x - 23) (- 149) in of_int (rne (x / 2 powi e)) * 2 powi e)"

definition fadd :: "rat \<Rightarrow> rat \<Rightarrow> rat" where "fadd x y = f32 (x + y)"
definition fsub :: "rat \<Rightarrow> rat \<Rightarrow> rat" where "fsub x y = f32 (x - y)"
definition fmul :: "rat \<Rightarrow> rat \<Rightarrow> rat" where "fmul x y = f32 (x * y)"
definition fdiv :: "rat \<Rightarrow> rat \<Rightarrow> rat" where "fdiv x y = f32 (x / y)"

text \<open>Conversion to an integer type drops the fraction.\<close>

definition ftrunc :: "rat \<Rightarrow> int" where
  "ftrunc x = (if 0 \<le> x then \<lfloor>x\<rfloor> else \<lceil>x\<rceil>)"

named_theorems float_ops \<open>the float operations as rounded exact operations\<close>

declare fadd_def [float_ops] fsub_def [float_ops] fmul_def [float_ops] fdiv_def [float_ops]

section \<open>Laws of rounding\<close>

lemma rne_of_int [simp]: "rne (of_int n) = n"
  by (simp add: rne_def)

lemma rne_0 [simp]: "rne 0 = 0"
  using rne_of_int [of 0] by simp

lemma rne_floor: "\<lfloor>x\<rfloor> \<le> rne x" "rne x \<le> \<lfloor>x\<rfloor> + 1"
  by (simp_all add: rne_def Let_def)

lemma rne_mono:
  assumes "x \<le> y"
  shows "rne x \<le> rne y"
proof (cases "\<lfloor>x\<rfloor> = \<lfloor>y\<rfloor>")
  case True
  then show ?thesis using assms by (simp add: rne_def Let_def)
next
  case False
  then have "\<lfloor>x\<rfloor> + 1 \<le> \<lfloor>y\<rfloor>" using floor_mono [OF assms] by linarith
  then show ?thesis using rne_floor(2) [of x] rne_floor(1) [of y] by linarith
qed

lemma rne_near: "\<bar>of_int (rne x) - x\<bar> \<le> 1 / 2"
proof -
  have "of_int \<lfloor>x\<rfloor> \<le> x" "x < of_int \<lfloor>x\<rfloor> + 1" using floor_correct [of x] by auto
  then show ?thesis by (simp add: rne_def Let_def abs_le_iff field_simps)
qed

lemma rne_minus [simp]: "rne (- x) = - rne x"
proof (cases "x = of_int \<lfloor>x\<rfloor>")
  case True
  then have "rne (- x) = rne (of_int (- \<lfloor>x\<rfloor>))" "rne x = \<lfloor>x\<rfloor>" by (metis of_int_minus, metis rne_of_int)
  then show ?thesis by (simp only: rne_of_int)
next
  case False
  have "of_int \<lfloor>x\<rfloor> < x" using False floor_correct [of x] by linarith
  then have "\<lfloor>- x\<rfloor> = - \<lfloor>x\<rfloor> - 1" using floor_correct [of x] by (intro floor_unique) auto
  then show ?thesis by (simp add: rne_def Let_def)
qed

lemma ilog2_nonneg: "0 \<le> ilog2 n"
  by (induction n rule: ilog2.induct) (subst ilog2.simps, simp)

lemma ilog2_bounds: "0 < n \<Longrightarrow> (2 :: int) ^ nat (ilog2 n) \<le> n \<and> n < 2 ^ (nat (ilog2 n) + 1)"
proof (induction n rule: ilog2.induct)
  case (1 n)
  show ?case
  proof (cases "n \<le> 1")
    case True
    then have "n = 1" "ilog2 n = 0" using 1(2) ilog2.simps [of n] by simp_all
    then show ?thesis by simp
  next
    case False
    then have "2 ^ nat (ilog2 (n div 2)) \<le> n div 2 \<and> n div 2 < 2 ^ (nat (ilog2 (n div 2)) + 1)" using 1(1) by simp
    moreover have "nat (ilog2 n) = nat (ilog2 (n div 2)) + 1"
      using False ilog2.simps [of n] ilog2_nonneg [of "n div 2"] by simp
    moreover have "p \<le> n div 2 \<and> n div 2 < 2 * p \<Longrightarrow> 2 * p \<le> n \<and> n < 4 * p" for p by linarith
    ultimately show ?thesis by simp
  qed
qed

lemma ilog2_rat:
  assumes "0 < m"
  shows "2 powi ilog2 m \<le> (of_int m :: rat)" "(of_int m :: rat) < 2 powi (ilog2 m + 1)"
proof -
  have "(of_int (2 ^ nat (ilog2 m)) :: rat) \<le> of_int m" "(of_int m :: rat) < of_int (2 ^ (nat (ilog2 m) + 1))"
    unfolding of_int_le_iff of_int_less_iff using ilog2_bounds [OF assms] by auto
  then show "2 powi ilog2 m \<le> (of_int m :: rat)" "(of_int m :: rat) < 2 powi (ilog2 m + 1)"
    using ilog2_nonneg [of m] by (simp_all add: power_int_def nat_add_distrib)
qed

lemma binade_spec:
  assumes "x \<noteq> 0"
  shows "2 powi binade x \<le> \<bar>x\<bar>" "\<bar>x\<bar> < 2 powi (binade x + 1)"
proof -
  obtain n d where q: "quotient_of \<bar>x\<bar> = (n, d)" by fastforce
  have d: "d > 0" using quotient_of_denom_pos [OF q] .
  have x: "\<bar>x\<bar> = of_int n / of_int d" using quotient_of_div [OF q] .
  have "\<bar>x\<bar> > 0" using assms by simp
  then have n: "n > 0" using d unfolding x by (simp add: zero_less_divide_iff)
  have "\<bar>x\<bar> < 2 powi (ilog2 n + 1) / 2 powi ilog2 d"
    unfolding x using ilog2_rat [OF n] ilog2_rat [OF d] d n by (intro frac_less) auto
  then have up: "\<bar>x\<bar> < 2 powi (ilog2 n - ilog2 d + 1)" by (simp add: power_int_diff power_int_add)
  have "2 powi ilog2 n / 2 powi (ilog2 d + 1) < \<bar>x\<bar>"
    unfolding x using ilog2_rat [OF n] ilog2_rat [OF d] d n by (intro frac_less2) auto
  then have lo: "2 powi (ilog2 n - ilog2 d - 1) \<le> \<bar>x\<bar>" by (simp add: power_int_diff power_int_add)
  show "2 powi binade x \<le> \<bar>x\<bar>" "\<bar>x\<bar> < 2 powi (binade x + 1)"
    using up lo unfolding binade_def q by (auto simp: Let_def)
qed

lemma powi_le_iff: "(2 :: rat) powi a \<le> 2 powi b \<longleftrightarrow> a \<le> b"
  by (meson one_less_numeral_iff power_int_strict_increasing power_int_increasing semiring_norm(76) linorder_not_le less_imp_le one_le_numeral)

lemma binade_mono:
  assumes "0 < x" "x \<le> y"
  shows "binade x \<le> binade y"
proof -
  have "2 powi binade x < (2 :: rat) powi (binade y + 1)"
    using binade_spec(1) [of x] binade_spec(2) [of y] assms by simp
  then have "\<not> binade y + 1 \<le> binade x" by (simp add: powi_le_iff [symmetric] not_le)
  then show ?thesis by simp
qed

lemma f32_0 [simp]: "f32 0 = 0"
  by (simp add: f32_def Let_def)

lemma f32_minus [simp]: "f32 (- x) = - f32 x"
  by (simp add: f32_def binade_def Let_def)

text \<open>The exponent of the last place.\<close>

definition ulp_exp :: "rat \<Rightarrow> int" where
  "ulp_exp x = max (binade x - 23) (- 149)"

lemma f32_ulp: "f32 x = of_int (rne (x / 2 powi ulp_exp x)) * 2 powi ulp_exp x"
  by (simp add: f32_def ulp_exp_def Let_def)

lemma f32_nonneg: "0 \<le> x \<Longrightarrow> 0 \<le> f32 x"
  using rne_mono [of 0 "x / 2 powi ulp_exp x"] by (simp add: f32_ulp)

lemma f32_lower: "x \<noteq> 0 \<Longrightarrow> 0 \<le> x \<Longrightarrow> ulp_exp x = binade x - 23 \<Longrightarrow> 2 powi binade x \<le> f32 x"
proof -
  assume x: "x \<noteq> 0" "0 \<le> x" and u: "ulp_exp x = binade x - 23"
  have "2 powi binade x / 2 powi ulp_exp x \<le> x / 2 powi ulp_exp x"
    using binade_spec(1) [OF x(1)] x(2) by (intro divide_right_mono) auto
  moreover have "2 powi binade x / 2 powi ulp_exp x = (of_int (2 ^ 23) :: rat)"
    unfolding u by (simp add: power_int_diff)
  ultimately have "2 ^ 23 \<le> rne (x / 2 powi ulp_exp x)" using rne_mono rne_of_int by metis
  then have "(of_int (2 ^ 23) :: rat) \<le> of_int (rne (x / 2 powi ulp_exp x))" by (simp only: of_int_le_iff)
  then have "of_int (2 ^ 23) * 2 powi ulp_exp x \<le> f32 x" unfolding f32_ulp by (intro mult_right_mono) auto
  moreover have "of_int (2 ^ 23) * 2 powi ulp_exp x = (2 powi binade x :: rat)" unfolding u by (simp add: power_int_diff)
  ultimately show ?thesis by simp
qed

lemma f32_upper: "x \<noteq> 0 \<Longrightarrow> 0 \<le> x \<Longrightarrow> f32 x \<le> 2 powi (ulp_exp x + 24)"
proof -
  assume x: "x \<noteq> 0" "0 \<le> x"
  have "x \<le> 2 powi (ulp_exp x + 24)"
  proof -
    have "(2 :: rat) powi (binade x + 1) \<le> 2 powi (ulp_exp x + 24)" by (simp add: powi_le_iff ulp_exp_def)
    then show ?thesis using binade_spec(2) [OF x(1)] x(2) by simp
  qed
  then have "x / 2 powi ulp_exp x \<le> of_int (2 ^ 24)" by (simp add: power_int_add divide_le_eq ac_simps)
  then have "rne (x / 2 powi ulp_exp x) \<le> 2 ^ 24" using rne_mono rne_of_int by metis
  then have "(of_int (rne (x / 2 powi ulp_exp x)) :: rat) \<le> of_int (2 ^ 24)" by (simp only: of_int_le_iff)
  then have "f32 x \<le> of_int (2 ^ 24) * 2 powi ulp_exp x" unfolding f32_ulp by (intro mult_right_mono) auto
  then show ?thesis by (simp add: power_int_add ac_simps)
qed

lemma f32_mono_pos:
  assumes "0 < x" "x \<le> y"
  shows "f32 x \<le> f32 y"
proof (cases "ulp_exp x = ulp_exp y")
  case True
  have "x / 2 powi ulp_exp x \<le> y / 2 powi ulp_exp x" using assms by (intro divide_right_mono) auto
  then show ?thesis unfolding f32_ulp True by (intro mult_right_mono) (auto simp: rne_mono)
next
  case False
  then have u: "ulp_exp x < ulp_exp y" "ulp_exp y = binade y - 23"
    using binade_mono [OF assms] by (auto simp: ulp_exp_def)
  have "f32 x \<le> 2 powi (ulp_exp x + 24)" using f32_upper [of x] assms by simp
  also have "\<dots> \<le> 2 powi binade y" using u by (simp add: powi_le_iff)
  also have "\<dots> \<le> f32 y" using f32_lower [of y] u(2) assms by simp
  finally show ?thesis .
qed

theorem f32_mono: "x \<le> y \<Longrightarrow> f32 x \<le> f32 y"
proof -
  assume xy: "x \<le> y"
  consider "0 < x" | "x \<le> 0" "0 \<le> y" | "y < 0" by linarith
  then show ?thesis
  proof cases
    case 2
    then show ?thesis using f32_nonneg [of y] f32_nonneg [of "- x"] by simp
  next
    case 3
    then show ?thesis using f32_mono_pos [of "- y" "- x"] xy by simp
  qed (rule f32_mono_pos [OF _ xy])
qed

text \<open>A value with at most 24 significant bits is not changed.\<close>

lemma f32_exact:
  assumes "\<bar>m\<bar> < 2 ^ 24" "- 149 \<le> k"
  shows "f32 (of_int m * 2 powi k) = of_int m * 2 powi k"
proof (cases "m = 0")
  case False
  let ?x = "of_int m * 2 powi k :: rat"
  have "\<bar>of_int m :: rat\<bar> < of_int (2 ^ 24)" unfolding of_int_abs [symmetric] of_int_less_iff by (rule assms(1))
  then have "\<bar>?x\<bar> < 2 ^ 24 * 2 powi k" by (simp add: abs_mult)
  also have "\<dots> = 2 powi (k + 24)" by (simp add: power_int_add)
  finally have "2 powi binade ?x < (2 :: rat) powi (k + 24)" using binade_spec(1) [of ?x] False by simp
  then have "\<not> k + 24 \<le> binade ?x" by (simp add: powi_le_iff [symmetric] not_le)
  then have u: "ulp_exp ?x \<le> k" using assms(2) by (simp add: ulp_exp_def)
  have p: "(2 :: rat) powi k / 2 powi ulp_exp ?x = of_int (2 ^ nat (k - ulp_exp ?x))"
  proof -
    have "(2 :: rat) powi k / 2 powi ulp_exp ?x = 2 powi (k - ulp_exp ?x)" by (simp add: power_int_diff)
    then show ?thesis using u by (simp add: power_int_def)
  qed
  have "?x / 2 powi ulp_exp ?x = of_int m * (2 powi k / 2 powi ulp_exp ?x)" by simp
  also have "\<dots> = of_int (m * 2 ^ nat (k - ulp_exp ?x))" by (subst p) simp
  finally have q: "?x / 2 powi ulp_exp ?x = of_int (m * 2 ^ nat (k - ulp_exp ?x))" .
  have "f32 ?x = of_int (m * 2 ^ nat (k - ulp_exp ?x)) * 2 powi ulp_exp ?x" unfolding f32_ulp q rne_of_int ..
  also have "\<dots> = ?x" unfolding q [symmetric] by simp
  finally show ?thesis .
qed simp

lemma f32_of_int: "\<bar>n\<bar> < 2 ^ 24 \<Longrightarrow> f32 (of_int n) = of_int n"
  using f32_exact [of n 0] by simp

lemma ftrunc_mono: "x \<le> y \<Longrightarrow> ftrunc x \<le> ftrunc y"
  by (auto simp: ftrunc_def intro: floor_mono ceiling_mono order_trans [of _ 0] simp: ceiling_le_zero)

end
