(* ===== verification/Hub_Led.thy ===== *)
theory Hub_Led
  imports Wire Float32
begin

text \<open>
  The status ring of the hub, \<open>firmware/apps/node_chest_hub/main/led_task.c\<close>. What a frame shows is the list of
  \<open>led_strip_set_pixel\<close> calls it makes, in order. Times are in microseconds as \<open>esp_timer_get_time\<close> returns
  them. Float expressions are evaluated without contraction.
\<close>

section \<open>State\<close>

abbreviation HUB_LED_COUNT :: nat where "HUB_LED_COUNT \<equiv> 24"
abbreviation HUB_LED_MAX_BRIGHTNESS :: u8 where "HUB_LED_MAX_BRIGHTNESS \<equiv> 160"
abbreviation HUB_LED_OVERRIDE_TIMEOUT_MS :: int where "HUB_LED_OVERRIDE_TIMEOUT_MS \<equiv> 5000"

record hub_led =
  s_override :: ps_led_pattern
  s_override_active :: bool
  s_override_until_us :: int

type_synonym led_call = "nat \<times> u8 \<times> u8 \<times> u8" \<comment> \<open>pixel, r, g, b\<close>

section \<open>Rendering\<close>

definition scale :: "u8 \<Rightarrow> u8 \<Rightarrow> u8" where
  "scale v bright = ucast ((ucast v * ucast bright :: u32) div 255)"

definition fill :: "u8 \<Rightarrow> u8 \<Rightarrow> u8 \<Rightarrow> led_call list" where
  "fill r g b = map (\<lambda>i. (i, r, g, b)) [0..<HUB_LED_COUNT]"

definition wave :: "u32 \<Rightarrow> u32 \<Rightarrow> rat" where
  "wave phase_ms period_ms =
     (let x = fdiv (f32 (of_int (uint (phase_ms mod period_ms)))) (f32 (of_int (uint period_ms)))
      in if x < 1 / 2 then fmul x 2 else fsub 2 (fmul x 2))"

text \<open>The four pixels of a spinner whose head is at \<open>head\<close>: \<open>colour v\<close> at brightness \<open>bright >> i\<close>.\<close>

definition spinner :: "nat \<Rightarrow> u8 \<Rightarrow> (u8 \<Rightarrow> u8 \<times> u8 \<times> u8) \<Rightarrow> led_call list" where
  "spinner head bright colour =
     map (\<lambda>i. ((head + HUB_LED_COUNT - i) mod HUB_LED_COUNT, colour (drop_bit i bright))) [0..<4]"

definition render_state :: "u8 \<Rightarrow> u32 \<Rightarrow> led_call list" where
  "render_state st t_ms =
     (if st = PS_STATE_BOOT then
        fill 0 0 0 @ spinner (unat ((t_ms div 60) mod 24)) HUB_LED_MAX_BRIGHTNESS (\<lambda>v. (0, 0, v))
      else if st = PS_STATE_STANDBY then
        let v = of_int (ftrunc (fmul (wave t_ms 2000) 160)) in fill v (scale v 140) 0
      else if st = PS_STATE_OPERATIONAL then
        let v = of_int (ftrunc (fmul (fadd (f32 (55 / 100)) (fmul (f32 (45 / 100)) (wave t_ms 2000))) 160))
        in fill (scale v 190) (scale v 220) v
      else if st = PS_STATE_PASSIVE then fill HUB_LED_MAX_BRIGHTNESS (scale HUB_LED_MAX_BRIGHTNESS 120) 0
      else if st = PS_STATE_ESTOP then fill (if (t_ms div 100) mod 2 \<noteq> 0 then 255 else 0) 0 0
      else if (t_ms div 300) mod 2 \<noteq> 0 then fill 255 0 0 else fill 180 90 0)"

definition render_override :: "ps_led_pattern \<Rightarrow> u32 \<Rightarrow> led_call list" where
  "render_override p t_ms =
     (let bright = (if lp_brightness p \<noteq> 0 then lp_brightness p else HUB_LED_MAX_BRIGHTNESS);
          period = (if lp_speed p \<noteq> 0 then 2000 div ucast (lp_speed p) else 1000 :: u32);
          period = (if period < 50 then 50 else period);
          colour = (\<lambda>v. (scale (lp_r p) v, scale (lp_g p) v, scale (lp_b p) v))
      in if lp_pattern p = 1 then
           let v = of_int (ftrunc (fmul (wave t_ms period) (f32 (of_int (uint bright)))))
           in fill (fst (colour v)) (fst (snd (colour v))) (snd (snd (colour v)))
         else if lp_pattern p = 2 then
           fill 0 0 0 @ spinner (unat ((t_ms div (period div 24 + 1)) mod 24)) bright colour
         else fill (fst (colour bright)) (fst (snd (colour bright))) (snd (snd (colour bright))))"

section \<open>The task and its interface\<close>

text \<open>One turn of the loop: \<open>t0\<close> is the start of the task, \<open>us\<close> and \<open>us'\<close> the two readings of the clock (the second only
  matters when the override is active), \<open>st\<close> the mirrored suit state.\<close>

definition led_task_turn :: "int \<Rightarrow> int \<Rightarrow> int \<Rightarrow> u8 \<Rightarrow> hub_led \<Rightarrow> led_call list \<times> hub_led" where
  "led_task_turn t0 us us' st s =
     (let t_ms = of_int ((us - t0) div 1000);
          override_ok = (s_override_active s \<and> st \<noteq> PS_STATE_ESTOP \<and> us' < s_override_until_us s);
          s = (if s_override_active s \<and> \<not> override_ok then s\<lparr>s_override_active := False\<rparr> else s)
      in (if override_ok then render_override (s_override s) t_ms else render_state st t_ms, s))"

definition hub_led_start :: "esp_err \<Rightarrow> bool \<Rightarrow> esp_err" where
  "hub_led_start strip_err task_created =
     (if strip_err \<noteq> ESP_OK then strip_err else if \<not> task_created then ESP_ERR_NO_MEM else ESP_OK)"

definition hub_led_override :: "int \<Rightarrow> ps_led_pattern option \<Rightarrow> hub_led \<Rightarrow> hub_led" where
  "hub_led_override us pat s =
     (case pat of
        None \<Rightarrow> s
      | Some p \<Rightarrow> s\<lparr>s_override := p, s_override_until_us := us + HUB_LED_OVERRIDE_TIMEOUT_MS * 1000, s_override_active := True\<rparr>)"

section \<open>Lemmas\<close>

lemma wave_bounds:
  assumes "0 < uint period" "uint period < 2 ^ 24"
  shows "0 \<le> wave phase period \<and> wave phase period \<le> 1"
proof -
  define a b where "a = uint (phase mod period)" and "b = uint period"
  define x where "x = f32 (of_int a / of_int b)"
  have ab: "0 \<le> a" "a < b" "b < 2 ^ 24" using assms by (simp_all add: a_def b_def uint_mod_distrib)
  then have e: "f32 (of_int a) = of_int a" "f32 (of_int b) = of_int b" by (simp_all add: f32_of_int)
  have "(of_int a :: rat) / of_int b \<le> 1" "(0 :: rat) \<le> of_int a / of_int b" using ab by (simp_all add: divide_le_eq)
  then have x: "0 \<le> x" "x \<le> 1"
    using f32_mono [of "of_int a / of_int b" 1] f32_of_int [of 1] f32_nonneg by (simp_all add: x_def)
  have one: "f32 1 = 1" "f32 2 = 2" using f32_of_int [of 1] f32_of_int [of 2] by simp_all
  have lo: "f32 (x * 2) \<le> 1" if "x < 1 / 2" using f32_mono [of "x * 2" 1] one that by simp
  have hi: "1 \<le> f32 (x * 2)" "f32 (x * 2) \<le> 2" if "\<not> x < 1 / 2"
    using f32_mono [of 1 "x * 2"] f32_mono [of "x * 2" 2] one x that by simp_all
  have "0 \<le> f32 (2 - f32 (x * 2)) \<and> f32 (2 - f32 (x * 2)) \<le> 1" if "\<not> x < 1 / 2"
    using f32_nonneg [of "2 - f32 (x * 2)"] f32_mono [of "2 - f32 (x * 2)" 1] hi [OF that] one by simp
  moreover have "wave phase period = (if x < 1 / 2 then f32 (x * 2) else f32 (2 - f32 (x * 2)))"
    unfolding wave_def float_ops a_def [symmetric] b_def [symmetric] e x_def Let_def ..
  ultimately show ?thesis using lo x f32_nonneg [of "x * 2"] by simp
qed

lemma trunc_bright:
  assumes "0 \<le> w" "w \<le> 1"
  shows "(of_int (ftrunc (fmul w 160)) :: u8) \<le> 160"
proof -
  have "f32 (w * 160) \<le> 160" using f32_mono [of "w * 160" 160] f32_of_int [of 160] assms by simp
  moreover have "0 \<le> f32 (w * 160)" using assms by (simp add: f32_nonneg)
  ultimately have "0 \<le> ftrunc (fmul w 160) \<and> ftrunc (fmul w 160) \<le> 160"
    by (simp add: ftrunc_def fmul_def floor_le_iff)
  then show ?thesis by (simp add: word_le_def uint_word_of_int take_bit_eq_mod)
qed

lemma operational_level: "0 \<le> w \<Longrightarrow> w \<le> 1 \<Longrightarrow>
  0 \<le> fadd (f32 (55 / 100)) (fmul (f32 (45 / 100)) w) \<and> fadd (f32 (55 / 100)) (fmul (f32 (45 / 100)) w) \<le> 1"
proof -
  assume w: "0 \<le> w" "w \<le> 1"
  have c: "f32 (55 / 100) = 9227469 / 16777216" "f32 (45 / 100) = 15099494 / 33554432" by code_simp+
  have "f32 (f32 (45 / 100) * w) \<le> f32 (f32 (45 / 100) * 1)"
    using w f32_nonneg [of "45 / 100"] by (intro f32_mono mult_left_mono) auto
  also have "f32 (f32 (45 / 100) * 1) = 15099494 / 33554432"
    unfolding c using f32_exact [of 15099494 "- 25"] by (simp add: power_int_minus)
  finally have "f32 (f32 (55 / 100) + f32 (f32 (45 / 100) * w)) \<le> f32 1" by (intro f32_mono) (use c in simp)
  moreover have "f32 1 = 1" using f32_of_int [of 1] by simp
  moreover have p: "0 \<le> f32 (f32 (45 / 100) * w)" by (intro f32_nonneg mult_nonneg_nonneg) (simp_all add: w f32_nonneg)
  moreover have "0 \<le> f32 (f32 (55 / 100) + f32 (f32 (45 / 100) * w))"
    by (rule f32_nonneg [OF add_nonneg_nonneg [OF f32_nonneg p]]) simp
  ultimately show ?thesis unfolding float_ops by simp
qed

lemma scale_le: "scale v b \<le> v"
proof -
  have lt: "unat v < 256" "unat b < 256" by (rule unat_u8_less)+
  then have "unat v * unat b < 2 ^ 16" using mult_strict_mono [of "unat v" 256 "unat b" 256] by simp
  then have "unat ((ucast v * ucast b :: u32) div 255) = unat v * unat b div 255"
    by (simp add: unat_div unat_word_ariths)
  moreover have "unat v * unat b div 255 \<le> unat v"
  proof -
    have "unat v * unat b \<le> unat v * 255" using lt by simp
    then show ?thesis by (metis div_le_mono nonzero_mult_div_cancel_right zero_neq_numeral)
  qed
  ultimately have "unat (scale v b) \<le> unat v" using lt by (simp add: scale_def unsigned_ucast_eq take_bit_nat_eq_self)
  then show ?thesis by (simp add: word_le_nat_alt)
qed

lemma fill_calls: "c \<in> set (fill r g b) \<longleftrightarrow> fst c < 24 \<and> snd c = (r, g, b)"
  by (cases c) (auto simp: fill_def)

lemma fst_fill: "fst ` set (fill r g b) = {0..<24}"
  by (force simp: fill_def)

lemma spinner_calls: "c \<in> set (spinner h br col) \<Longrightarrow> fst c < 24 \<and> (\<exists>i < 4. snd c = col (drop_bit i br))"
  by (auto simp: spinner_def)

section \<open>Properties\<close>

text \<open>Nothing leaves the ring lying about an e-stop: in a frame whose suit state is ESTOP every pixel is set, to full red
  or off by the 100 ms phase, and any override is cancelled for good; an override is shown only within 5 s of
  the last request and outside ESTOP, otherwise the frame is the pattern of the state.\<close>

lemma led_estop_wins:
  assumes "led_task_turn t0 us us' st (hub_led_override us0 (Some p) s) = (cs, s')"
  shows "(st = PS_STATE_ESTOP \<longrightarrow> cs = fill (if (of_int ((us - t0) div 1000) div 100 :: u32) mod 2 \<noteq> 0 then 255 else 0) 0 0) \<and>
    (cs \<noteq> render_state st (of_int ((us - t0) div 1000)) \<longrightarrow> st \<noteq> PS_STATE_ESTOP \<and> us' < us0 + 5000000) \<and>
    (st = PS_STATE_ESTOP \<or> us0 + 5000000 \<le> us' \<longrightarrow>
       (\<forall>u u' st'. led_task_turn t0 u u' st' s' = (render_state st' (of_int ((u - t0) div 1000)), s')))"
proof (cases "st \<noteq> PS_STATE_ESTOP \<and> us' < us0 + 5000000")
  case True
  then show ?thesis by auto
next
  case False
  then have "cs = render_state st (of_int ((us - t0) div 1000))" "\<not> s_override_active s'"
    using assms by (auto simp: led_task_turn_def hub_led_override_def Let_def)
  moreover from this(2) have "led_task_turn t0 u u' st' s' = (render_state st' (of_int ((u - t0) div 1000)), s')" for u u' st'
    by (simp add: led_task_turn_def Let_def)
  ultimately show ?thesis by (simp add: render_state_def)
qed

text \<open>A frame writes every pixel of the ring and no other, whatever the pattern; the patterns of the healthy
  states never exceed the brightness cap of 160.\<close>

lemma led_frame_in_range:
  "fst ` set (render_state st t) = {0..<24} \<and> fst ` set (render_override p t) = {0..<24} \<and>
   (st \<in> {PS_STATE_BOOT, PS_STATE_STANDBY, PS_STATE_OPERATIONAL, PS_STATE_PASSIVE} \<longrightarrow>
     (\<forall>(px, r, g, b) \<in> set (render_state st t). r \<le> 160 \<and> g \<le> 160 \<and> b \<le> 160))"
proof (intro conjI impI)
  have sp: "fst ` set (spinner h br col) \<subseteq> {0..<24}" for h br col using spinner_calls by fastforce
  show "fst ` set (render_state st t) = {0..<24}" "fst ` set (render_override p t) = {0..<24}"
    using sp by (auto simp: render_state_def render_override_def Let_def image_Un fst_fill Un_absorb2)
  have w: "0 \<le> wave t 2000" "wave t 2000 \<le> 1" using wave_bounds [of 2000 t] by simp_all
  note b1 = trunc_bright [OF w] and b2 = trunc_bright [of "fadd (f32 (55 / 100)) (fmul (f32 (45 / 100)) (wave t 2000))"]
  have d: "drop_bit i (160 :: u8) \<le> 160" for i
    by (simp add: word_le_nat_alt unat_drop_bit_word)
  assume "st \<in> {PS_STATE_BOOT, PS_STATE_STANDBY, PS_STATE_OPERATIONAL, PS_STATE_PASSIVE}"
  then show "\<forall>(px, r, g, b) \<in> set (render_state st t). r \<le> 160 \<and> g \<le> 160 \<and> b \<le> 160"
    using b1 b2 operational_level [OF w] d scale_le [THEN order_trans]
    by (auto simp: render_state_def Let_def fill_calls dest!: spinner_calls)
qed

end
