(* ===== verification/Gateway.thy ===== *)
theory Gateway
  imports Safety_Esp Router Spi_Bridge Hub_Led
begin

text \<open>
  The hub's gateway, \<open>firmware/apps/node_chest_hub/main/gateway_task.c\<close>: the pump between the two CAN buses, the SPI link
  and the hub itself, the mirror of the suit's safety state, the time base and the flow-control mirror. The two CAN
  handles are the worlds of a transport \<open>send\<close> (in the statements, \<open>ps_can_send\<close>); the queues are FreeRTOS queues.
  \<open>us\<close>, \<open>us'\<close> are readings of \<open>esp_timer_get_time\<close>. The flag by which the gateway asks the BMS task for a re-arm
  (\<open>s_rearm_requested\<close> of \<open>bms_task.c\<close>) and the override of the LED task are fields of the state here.
\<close>

section \<open>State\<close>

abbreviation GW_ROUTE_QUEUE_LEN :: nat where "GW_ROUTE_QUEUE_LEN \<equiv> 128"


record hub_gw_counters =
  gw_fwd :: "u32 list" \<comment> \<open>\<open>fwd[4]\<close>, by port\<close>
  local_consumed :: u32
  anomalies :: u32
  queue_drops :: u32
  gw_tx_timeouts :: u32

type_synonym gw_item = "u8 \<times> ps_can_frame"
type_synonym 'r item_queue = "('r, gw_item) rtos_queue"

record ('w, 'q, 'r) gateway =
  gw_can1 :: 'w
  gw_can2 :: 'w
  s_route_q :: 'r
  gw_spib :: "'q spib"
  s_ctr :: hub_gw_counters
  s_mirror :: ps_safety_core
  s_last_pub_state :: u8
  s_epoch_ms_lo :: u32
  s_epoch_ref_ms :: u32
  s_epoch_valid :: bool
  s_time_seq :: u16
  s_flow_level :: "u8 list" \<comment> \<open>8 planes\<close>
  gw_led :: hub_led
  s_rearm_requested :: bool

section \<open>The suit-state mirror\<close>

definition now_ms :: "int \<Rightarrow> u32" where
  "now_ms us = of_int (us div 1000)"

definition hub_gateway_safety_state :: "('w, 'q, 'r) gateway \<Rightarrow> u8" where
  "hub_gateway_safety_state g = state (s_mirror g)"

text \<open>\<open>mirror_publish\<close> runs outside the lock of the mirror and \<open>s_last_pub_state\<close> has none: its test, its call of the SPI bridge and its last
  assignment are separate actions, between which other tasks run (\<open>mirror_step\<close> below).\<close>

definition publish_flag :: "u8 \<Rightarrow> ('w, 'q, 'r) gateway \<Rightarrow> ('w, 'q, 'r) gateway" where
  "publish_flag st g = g\<lparr>gw_spib := ps_spib_set_flag PS_SPIF_ESTOP_LATCHED (st = PS_STATE_ESTOP) (gw_spib g)\<rparr>"

definition publish_mark :: "u8 \<Rightarrow> ('w, 'q, 'r) gateway \<Rightarrow> ('w, 'q, 'r) gateway" where
  "publish_mark st g = g\<lparr>s_last_pub_state := st\<rparr>"

definition mirror_publish :: "u8 \<Rightarrow> ('w, 'q, 'r) gateway \<Rightarrow> ('w, 'q, 'r) gateway" where
  "mirror_publish st g = (if st = s_last_pub_state g then g else publish_mark st (publish_flag st g))"

text \<open>The critical section around a call of the core, and both together in a task that is not interrupted: the section and
  the publication of the state it left.\<close>

definition mirror_locked :: "(ps_safety_core \<Rightarrow> ps_safety_core) \<Rightarrow> ('w, 'q, 'r) gateway \<Rightarrow> ('w, 'q, 'r) gateway" where
  "mirror_locked h g = g\<lparr>s_mirror := h (s_mirror g)\<rparr>"

definition mirror_update :: "(ps_safety_core \<Rightarrow> ps_safety_core) \<Rightarrow> ('w, 'q, 'r) gateway \<Rightarrow> ('w, 'q, 'r) gateway" where
  "mirror_update h g = (let g = mirror_locked h g in mirror_publish (state (s_mirror g)) g)"

definition hub_gateway_safety_tick :: "int \<Rightarrow> ('w, 'q, 'r) gateway \<Rightarrow> ('w, 'q, 'r) gateway" where
  "hub_gateway_safety_tick us = mirror_update (\<lambda>c. ps_safety_core_tick c (now_ms us))"

definition hub_gateway_local_estop :: "int \<Rightarrow> u8 \<Rightarrow> ('w, 'q, 'r) gateway \<Rightarrow> ('w, 'q, 'r) gateway" where
  "hub_gateway_local_estop us cause = mirror_update (\<lambda>c. ps_safety_core_on_local_fault c (now_ms us) cause)"

definition hub_gateway_counters :: "('w, 'q, 'r) gateway \<Rightarrow> hub_gw_counters" where
  "hub_gateway_counters g = s_ctr g"

definition bump_fwd :: "u8 \<Rightarrow> ('w, 'q, 'r) gateway \<Rightarrow> ('w, 'q, 'r) gateway" where
  "bump_fwd p g = g\<lparr>s_ctr := (s_ctr g)\<lparr>gw_fwd := (gw_fwd (s_ctr g))[unat p := gw_fwd (s_ctr g) ! unat p + 1]\<rparr>\<rparr>"

definition bump_tx_timeouts :: "('w, 'q, 'r) gateway \<Rightarrow> ('w, 'q, 'r) gateway" where
  "bump_tx_timeouts g = g\<lparr>s_ctr := (s_ctr g)\<lparr>gw_tx_timeouts := gw_tx_timeouts (s_ctr g) + 1\<rparr>\<rparr>"

definition bump_anomalies :: "('w, 'q, 'r) gateway \<Rightarrow> ('w, 'q, 'r) gateway" where
  "bump_anomalies g = g\<lparr>s_ctr := (s_ctr g)\<lparr>anomalies := anomalies (s_ctr g) + 1\<rparr>\<rparr>"

section \<open>Local dispatch\<close>

definition hub_bms_notify_clear_accepted :: "('w, 'q, 'r) gateway \<Rightarrow> ('w, 'q, 'r) gateway" where
  "hub_bms_notify_clear_accepted g = g\<lparr>s_rearm_requested := True\<rparr>"

definition gw_local_safety :: "int \<Rightarrow> ps_can_frame \<Rightarrow> u8 \<Rightarrow> ('w, 'q, 'r) gateway \<Rightarrow> ('w, 'q, 'r) gateway" where
  "gw_local_safety us f ty g =
     (let now = now_ms us in
      if ty = PS_T_HEARTBEAT then
        (if f_dlc f < 8 then g
         else mirror_update (\<lambda>c. ps_safety_core_on_heartbeat c now (PS_WIRE_READ dec_heartbeat (f_data f))) g)
      else if ty = PS_T_ESTOP then
        (if f_dlc f < 8 then g
         else mirror_update (\<lambda>c. ps_safety_core_on_estop c now (es_cause (PS_WIRE_READ dec_estop (f_data f)))) g)
      else if ty = PS_T_CLEAR_ESTOP then
        (if f_dlc f < 8 then g
         else
           let cl = PS_WIRE_READ dec_clear_estop (f_data f);
               (accepted, c) = ps_safety_core_on_clear (s_mirror g) now (ce_magic cl) (ce_counter cl);
               g = mirror_publish (state c) (g\<lparr>s_mirror := c\<rparr>)
           in if accepted then hub_bms_notify_clear_accepted g else g)
      else g)"

definition gw_local_control :: "int \<Rightarrow> ps_can_frame \<Rightarrow> u8 \<Rightarrow> ('w, 'q, 'r) gateway \<Rightarrow> ('w, 'q, 'r) gateway" where
  "gw_local_control us f ty g =
     (if ty = PS_T_LED_PATTERN then
        (if f_dlc f < 8 then g
         else g\<lparr>gw_led := hub_led_override us (Some (PS_WIRE_READ dec_led_pattern (f_data f))) (gw_led g)\<rparr>)
      else if ty = PS_T_MODE_SET then
        (if f_dlc f < 1 then g
         else mirror_update (\<lambda>c. ps_safety_core_on_mode_set c (now_ms us) (ms_target_state (dec_mode_set (short_copy f)))) g)
      else g)"

definition gw_local_mgmt :: "int \<Rightarrow> ps_can_frame \<Rightarrow> u8 \<Rightarrow> u8 \<Rightarrow> ('w, 'q, 'r) gateway \<Rightarrow> ('w, 'q, 'r) gateway" where
  "gw_local_mgmt us f src ty g =
     (if ty = PS_T_TIME_SYNC then
        (if f_dlc f < 8 \<or> src \<noteq> PS_NODE_ORCH then g
         else g\<lparr>s_epoch_ms_lo := ts_epoch_ms_lo (PS_WIRE_READ dec_time_sync (f_data f)),
                s_epoch_ref_ms := now_ms us, s_epoch_valid := True\<rparr>)
      else if ty = PS_T_FLOW_CTL then
        (if f_dlc f < 2 then g
         else
           let fc = dec_flow_ctl (short_copy f)
           in if fl_plane fc < 8 then g\<lparr>s_flow_level := (s_flow_level g)[unat (fl_plane fc) := fl_level fc]\<rparr> else g)
      else g)"

definition gw_local_dispatch :: "int \<Rightarrow> ps_can_frame \<Rightarrow> ('w, 'q, 'r) gateway \<Rightarrow> ('w, 'q, 'r) gateway" where
  "gw_local_dispatch us f g =
     (let i = ps_can_id_unpack (f_id f);
          g = g\<lparr>s_ctr := (s_ctr g)\<lparr>local_consumed := local_consumed (s_ctr g) + 1\<rparr>\<rparr>
      in if id_cls i = PS_CLS_SAFETY then gw_local_safety us f (id_type i) g
         else if id_cls i = PS_CLS_CONTROL then gw_local_control us f (id_type i) g
         else if id_cls i = PS_CLS_MGMT then gw_local_mgmt us f (id_src i) (id_type i) g
         else g)"

section \<open>Forwarding\<close>

definition origin_bus_tag :: "u8 \<Rightarrow> u8" where
  "origin_bus_tag origin =
     (if origin = PS_PORT_CAN1 then PS_SPI_BUS_CAN1 else if origin = PS_PORT_CAN2 then PS_SPI_BUS_CAN2
      else PS_SPI_BUS_HUB_LOCAL)"

definition forward_can1 :: "('w \<Rightarrow> ps_can_frame \<Rightarrow> esp_err \<times> 'w) \<Rightarrow> ps_can_frame \<Rightarrow> ('w, 'q, 'r) gateway \<Rightarrow> ('w, 'q, 'r) gateway" where
  "forward_can1 send f g =
     (let (err, w) = send (gw_can1 g) f; g = g\<lparr>gw_can1 := w\<rparr>
      in if err = ESP_OK then bump_fwd PS_PORT_CAN1 g else bump_tx_timeouts g)"

definition forward_can2 :: "('w \<Rightarrow> ps_can_frame \<Rightarrow> esp_err \<times> 'w) \<Rightarrow> ps_can_frame \<Rightarrow> ('w, 'q, 'r) gateway \<Rightarrow> ('w, 'q, 'r) gateway" where
  "forward_can2 send f g =
     (let (err, w) = send (gw_can2 g) f; g = g\<lparr>gw_can2 := w\<rparr>
      in if err = ESP_OK then bump_fwd PS_PORT_CAN2 g else bump_tx_timeouts g)"

definition uplink_record :: "int \<Rightarrow> u8 \<Rightarrow> ps_can_frame \<Rightarrow> ps_can_record" where
  "uplink_record us origin f =
     \<lparr> rec_id = f_id f, rec_bus = origin_bus_tag origin, rec_dlc = f_dlc f, rec_ts_ms = of_int (us div 1000), rec_data = f_data f \<rparr>"

definition forward_spi :: "'q rec_queue \<Rightarrow> int \<Rightarrow> u8 \<Rightarrow> ps_can_frame \<Rightarrow> ('w, 'q, 'r) gateway \<Rightarrow> ('w, 'q, 'r) gateway" where
  "forward_spi Q us origin f g =
     (let (ok, b) = ps_spib_uplink_push Q (uplink_record us origin f) (gw_spib g); g = g\<lparr>gw_spib := b\<rparr>
      in if ok then bump_fwd PS_PORT_SPI g else g)"

text \<open>\<open>us\<close> stamps the uplink record, \<open>us'\<close> is read by the local dispatch.\<close>

definition hub_forward ::
    "('w \<Rightarrow> ps_can_frame \<Rightarrow> esp_err \<times> 'w) \<Rightarrow> 'q rec_queue \<Rightarrow> int \<Rightarrow> int \<Rightarrow> u8 \<Rightarrow> ps_can_frame \<Rightarrow> u8 \<Rightarrow>
     ('w, 'q, 'r) gateway \<Rightarrow> ('w, 'q, 'r) gateway" where
  "hub_forward send Q us us' origin f ports g =
     (let g = (if ports AND PS_PORT_BIT PS_PORT_CAN1 \<noteq> 0 then forward_can1 send f g else g);
          g = (if ports AND PS_PORT_BIT PS_PORT_CAN2 \<noteq> 0 then forward_can2 send f g else g);
          g = (if ports AND PS_PORT_BIT PS_PORT_SPI \<noteq> 0 then forward_spi Q us origin f g else g);
          g = (if ports AND PS_PORT_BIT PS_PORT_LOCAL \<noteq> 0 then gw_local_dispatch us' f g else g)
      in g)"

section \<open>The tasks\<close>

definition gw_rx_cb :: "'r item_queue \<Rightarrow> u8 \<Rightarrow> ps_can_frame \<Rightarrow> ('w, 'q, 'r) gateway \<Rightarrow> ('w, 'q, 'r) gateway" where
  "gw_rx_cb RQ port f g =
     (let (ok, q) = q_send RQ (s_route_q g) (port, f); g = g\<lparr>s_route_q := q\<rparr>
      in if ok then g else g\<lparr>s_ctr := (s_ctr g)\<lparr>queue_drops := queue_drops (s_ctr g) + 1\<rparr>\<rparr>)"

text \<open>One turn of \<open>gw_pump_task\<close> and of \<open>gw_downlink_task\<close>.\<close>

definition gw_pump_turn ::
    "('w \<Rightarrow> ps_can_frame \<Rightarrow> esp_err \<times> 'w) \<Rightarrow> 'q rec_queue \<Rightarrow> 'r item_queue \<Rightarrow> int \<Rightarrow> int \<Rightarrow>
     ('w, 'q, 'r) gateway \<Rightarrow> ('w, 'q, 'r) gateway" where
  "gw_pump_turn send Q RQ us us' g =
     (case q_receive RQ (s_route_q g) of
        (None, q) \<Rightarrow> g\<lparr>s_route_q := q\<rparr>
      | (Some (port, f), q) \<Rightarrow>
          let g = g\<lparr>s_route_q := q\<rparr>; ports = ps_router_route port (f_id f)
          in if ports = 0 then bump_anomalies g else hub_forward send Q us us' port f ports g)"

definition downlink_frame :: "ps_can_record \<Rightarrow> ps_can_frame" where
  "downlink_frame r =
     \<lparr> f_id = rec_id r AND PS_CAN_ID_MASK, f_dlc = (if rec_dlc r > 8 then 8 else rec_dlc r), f_data = rec_data r \<rparr>"

definition gw_downlink_turn ::
    "('w \<Rightarrow> ps_can_frame \<Rightarrow> esp_err \<times> 'w) \<Rightarrow> 'q rec_queue \<Rightarrow> int \<Rightarrow> int \<Rightarrow> ('w, 'q, 'r) gateway \<Rightarrow> ('w, 'q, 'r) gateway" where
  "gw_downlink_turn send Q us us' g =
     (case ps_spib_downlink_pop Q (gw_spib g) of
        (None, b) \<Rightarrow> g\<lparr>gw_spib := b\<rparr>
      | (Some r, b) \<Rightarrow>
          let g = g\<lparr>gw_spib := b\<rparr>; f = downlink_frame r in
          if rec_bus r = PS_SPI_BUS_HUB_LOCAL then gw_local_dispatch us' f g
          else
            let ports = ps_router_route PS_PORT_SPI (f_id f)
            in if ports = 0 then bump_anomalies g else hub_forward send Q us us' PS_PORT_SPI f ports g)"

definition hub_gateway_broadcast_time_sync ::
    "('w \<Rightarrow> ps_can_frame \<Rightarrow> esp_err \<times> 'w) \<Rightarrow> 'q rec_queue \<Rightarrow> int \<Rightarrow> int \<Rightarrow> ('w, 'q, 'r) gateway \<Rightarrow> ('w, 'q, 'r) gateway" where
  "hub_gateway_broadcast_time_sync send Q us us' g =
     (let sync = \<lparr> ts_epoch_ms_lo = (if s_epoch_valid g then s_epoch_ms_lo g + (now_ms us - s_epoch_ref_ms g) else 0),
                   ts_seq = s_time_seq g, ts_rsvd = 0 \<rparr>;
          g = g\<lparr>s_time_seq := s_time_seq g + 1\<rparr>;
          f = \<lparr> f_id = ps_can_id_pack PS_CLS_MGMT PS_NODE_HUB PS_NODE_BROADCAST PS_T_TIME_SYNC 0, f_dlc = 8,
                f_data = PS_WIRE_WRITE enc_time_sync (replicate 8 0) sync \<rparr>
      in hub_forward send Q us us' PS_PORT_LOCAL f (PS_PORT_BIT PS_PORT_CAN1 OR PS_PORT_BIT PS_PORT_CAN2) g)"

section \<open>Start\<close>

text \<open>\<open>reg\<close> registers the receive callback with its port for a class. The loop over the classes \<open>cls .. 5\<close>.\<close>

fun register_classes ::
    "('w \<Rightarrow> u8 \<Rightarrow> u8 \<Rightarrow> esp_err \<times> 'w) \<Rightarrow> u8 list \<Rightarrow> ('w, 'q, 'r) gateway \<Rightarrow> esp_err \<times> ('w, 'q, 'r) gateway" where
  "register_classes reg [] g = (ESP_OK, g)"
| "register_classes reg (cls # rest) g =
     (let (err, w) = reg (gw_can1 g) cls PS_PORT_CAN1; g = g\<lparr>gw_can1 := w\<rparr> in
      if err \<noteq> ESP_OK then (err, g)
      else
        let (err, w) = reg (gw_can2 g) cls PS_PORT_CAN2; g = g\<lparr>gw_can2 := w\<rparr> in
        if err \<noteq> ESP_OK then (err, g) else register_classes reg rest g)"



section \<open>Executions\<close>

text \<open>What can happen to the gateway: a turn of either task, the timers, a BMS trip, a received frame, and the work of the SPI
  bridge beside it.\<close>

datatype gw_event =
    Pump int int | Downlink int int | Safety_tick int | Trip int u8 | Time_sync int int
  | Rx u8 ps_can_frame | Spi_turn bytes bytes | Uplink ps_can_record

fun gw_step ::
    "('w \<Rightarrow> ps_can_frame \<Rightarrow> esp_err \<times> 'w) \<Rightarrow> 'q rec_queue \<Rightarrow> 'r item_queue \<Rightarrow> ('w, 'q, 'r) gateway \<Rightarrow> gw_event \<Rightarrow>
     ('w, 'q, 'r) gateway" where
  "gw_step send Q RQ g (Pump us us') = gw_pump_turn send Q RQ us us' g"
| "gw_step send Q RQ g (Downlink us us') = gw_downlink_turn send Q us us' g"
| "gw_step send Q RQ g (Safety_tick us) = hub_gateway_safety_tick us g"
| "gw_step send Q RQ g (Trip us cause) = hub_gateway_local_estop us cause g"
| "gw_step send Q RQ g (Time_sync us us') = hub_gateway_broadcast_time_sync send Q us us' g"
| "gw_step send Q RQ g (Rx port f) = gw_rx_cb RQ port f g"
| "gw_step send Q RQ g (Spi_turn rx tx) = g\<lparr>gw_spib := snd (spib_pump_turn Q rx tx (gw_spib g))\<rparr>"
| "gw_step send Q RQ g (Uplink r) = g\<lparr>gw_spib := snd (ps_spib_uplink_push Q r (gw_spib g))\<rparr>"

definition gw_run ::
    "('w \<Rightarrow> ps_can_frame \<Rightarrow> esp_err \<times> 'w) \<Rightarrow> 'q rec_queue \<Rightarrow> 'r item_queue \<Rightarrow> ('w, 'q, 'r) gateway \<Rightarrow> gw_event list \<Rightarrow>
     ('w, 'q, 'r) gateway" where
  "gw_run send Q RQ = foldl (gw_step send Q RQ)"

text \<open>The same mirror under preemption. The tasks that have left the critical section and are inside \<open>mirror_publish\<close> form the multiset of
  a state: before the test, before the call of the bridge, before the last assignment. Any task may enter the critical section at any time.\<close>

fun mirror_event :: "safety_event \<Rightarrow> bool" where
  "mirror_event Cmd = False"
| "mirror_event Bus_down = False"
| "mirror_event _ = True"

datatype pub_pc = Pub_test u8 | Pub_flag u8 | Pub_mark u8

inductive mirror_step ::
    "('w, 'q, 'r) gateway \<times> pub_pc multiset \<Rightarrow> ('w, 'q, 'r) gateway \<times> pub_pc multiset \<Rightarrow> bool" where
  locked: "mirror_event e \<Longrightarrow> mirror_step (g, P) (mirror_locked (\<lambda>c. safety_step c t e) g, add_mset (Pub_test (state (safety_step (s_mirror g) t e))) P)"
| unchanged: "st = s_last_pub_state g \<Longrightarrow> mirror_step (g, add_mset (Pub_test st) P) (g, P)"
| changed: "st \<noteq> s_last_pub_state g \<Longrightarrow> mirror_step (g, add_mset (Pub_test st) P) (g, add_mset (Pub_flag st) P)"
| flag: "mirror_step (g, add_mset (Pub_flag st) P) (publish_flag st g, add_mset (Pub_mark st) P)"
| mark: "mirror_step (g, add_mset (Pub_mark st) P) (publish_mark st g, P)"

text \<open>The time at which an event reaches the safety mirror.\<close>

fun event_time :: "gw_event \<Rightarrow> int option" where
  "event_time (Pump us us') = Some us'"
| "event_time (Downlink us us') = Some us'"
| "event_time (Safety_tick us) = Some us"
| "event_time (Trip us cause) = Some us"
| "event_time (Time_sync us us') = Some us'"
| "event_time _ = None"

section \<open>Lemmas\<close>

definition estop_flag :: "('w, 'q, 'r) gateway \<Rightarrow> bool" where
  "estop_flag g \<longleftrightarrow> s_sticky_flags (gw_spib g) AND PS_SPIF_ESTOP_LATCHED \<noteq> 0"

text \<open>The flag follows the last published state, and that is the state of the mirror (before the first
  publication, BOOT and the initial \<open>0xFF\<close>).\<close>

definition pub_ok :: "('w, 'q, 'r) gateway \<Rightarrow> bool" where
  "pub_ok g \<longleftrightarrow> estop_flag g = (s_last_pub_state g = PS_STATE_ESTOP) \<and>
     (s_last_pub_state g \<noteq> state (s_mirror g) \<longrightarrow> s_last_pub_state g = 0xFF \<and> state (s_mirror g) = PS_STATE_BOOT)"

lemma set_flag_bit:
  "(s_sticky_flags (ps_spib_set_flag PS_SPIF_ESTOP_LATCHED on s) AND PS_SPIF_ESTOP_LATCHED \<noteq> 0) = on"
proof -
  have "(x OR 1) AND 1 = (1 :: u8)" "(x AND NOT 1) AND 1 = (0 :: u8)" for x
    by (rule bit_word_eqI; auto simp: bit_simps)+
  then show ?thesis by (simp add: ps_spib_set_flag_def Let_def)
qed

lemmas publish_defs = mirror_publish_def publish_flag_def publish_mark_def

lemma publish_fields [simp]:
  "s_mirror (mirror_publish st g) = s_mirror g" "s_last_pub_state (mirror_publish st g) = st"
  "gw_can1 (mirror_publish st g) = gw_can1 g" "gw_can2 (mirror_publish st g) = gw_can2 g"
  "s_route_q (mirror_publish st g) = s_route_q g" "s_ctr (mirror_publish st g) = s_ctr g"
  "s_uplink_q (gw_spib (mirror_publish st g)) = s_uplink_q (gw_spib g)"
  "s_overflow_pending (gw_spib (mirror_publish st g)) = s_overflow_pending (gw_spib g)"
  by (simp_all add: publish_defs ps_spib_set_flag_def Let_def)

lemma publish_ok:
  assumes "estop_flag g = (s_last_pub_state g = PS_STATE_ESTOP)"
  shows "pub_ok (mirror_publish (state (s_mirror g)) g)"
  using assms set_flag_bit by (auto simp: publish_defs pub_ok_def estop_flag_def)

lemma mirror_update_ok: "pub_ok g \<Longrightarrow> pub_ok (mirror_update h g)"
  unfolding mirror_update_def Let_def by (rule publish_ok) (simp add: mirror_locked_def pub_ok_def estop_flag_def)

lemma mirror_update_mirror [simp]: "s_mirror (mirror_update h g) = h (s_mirror g)"
  by (simp add: mirror_update_def mirror_locked_def Let_def)


text \<open>Calls that leave the mirror and what was published of it alone.\<close>

definition keeps_mirror :: "('w, 'q, 'r) gateway \<Rightarrow> ('w, 'q, 'r) gateway \<Rightarrow> bool" where
  "keeps_mirror g g' \<longleftrightarrow> s_mirror g' = s_mirror g \<and> s_last_pub_state g' = s_last_pub_state g \<and>
     s_sticky_flags (gw_spib g') = s_sticky_flags (gw_spib g)"

lemma keeps_mirror_trans: "keeps_mirror g g' \<Longrightarrow> keeps_mirror g' g'' \<Longrightarrow> keeps_mirror g g''"
  by (simp add: keeps_mirror_def)

lemma keeps_mirror_pub: "keeps_mirror g g' \<Longrightarrow> pub_ok g' = pub_ok g"
  by (simp add: keeps_mirror_def pub_ok_def estop_flag_def)

lemma uplink_push_flags [simp]: "s_sticky_flags (snd (ps_spib_uplink_push Q r b)) = s_sticky_flags b"
  by (simp add: ps_spib_uplink_push_def Let_def case_prod_unfold)

lemma downlink_pop_flags [simp]: "s_sticky_flags (snd (ps_spib_downlink_pop Q b)) = s_sticky_flags b"
  by (simp add: ps_spib_downlink_pop_def case_prod_unfold)

lemma rx_records_flags [simp]: "s_sticky_flags (spib_rx_records Q v i k s) = s_sticky_flags s"
  by (induction k arbitrary: i s)
    (auto simp: spib_enqueue_down_def count_crc_error_def Let_def case_prod_unfold split: prod.splits spi_status.splits option.splits)

lemma pump_turn_flags [simp]: "s_sticky_flags (snd (spib_pump_turn Q rx tx s)) = s_sticky_flags s"
  by (auto simp: spib_pump_turn_def spib_handle_rx_def spib_build_tx_def spib_update_data_ready_def set_data_ready_def count_crc_error_def
    Let_def case_prod_unfold split: sum.splits)

lemma forward_keeps [simp]:
  "keeps_mirror g (forward_can1 send f g)" "keeps_mirror g (forward_can2 send f g)" "keeps_mirror g (forward_spi Q us origin f g)"
  "keeps_mirror g (bump_anomalies g)"
  by (simp_all add: keeps_mirror_def forward_can1_def forward_can2_def forward_spi_def bump_fwd_def bump_tx_timeouts_def
    bump_anomalies_def Let_def case_prod_unfold)

text \<open>The mirror is a safety core fed events other than commands, stamped with the time of the dispatch.\<close>

definition fed :: "u32 \<Rightarrow> ps_safety_core \<Rightarrow> ps_safety_core \<Rightarrow> bool" where
  "fed t c c' \<longleftrightarrow> c' = c \<or> (\<exists>e. e \<noteq> Cmd \<and> c' = safety_step c t e)"

lemma fed_refl [simp]: "fed t c c"
  by (simp add: fed_def)

lemma fed_step: "e \<noteq> Cmd \<Longrightarrow> fed t c (safety_step c t e)"
  by (auto simp: fed_def)

lemmas fed_steps = fed_step [of "Heartbeat hb" for hb, simplified] fed_step [of "Estop k" for k, simplified]
  fed_step [of "Clear m k" for m k, simplified] fed_step [of "Mode_set m" for m, simplified]
  fed_step [of "Local_fault k" for k, simplified] fed_step [of Tick, simplified]

lemma dispatch_mirror: "fed (now_ms us) (s_mirror g) (s_mirror (gw_local_dispatch us f g))"
  using fed_steps
  by (auto simp: gw_local_dispatch_def gw_local_safety_def gw_local_control_def gw_local_mgmt_def hub_bms_notify_clear_accepted_def
    Let_def case_prod_unfold)

lemma pub_ok_fields [simp]:
  "pub_ok (g\<lparr>s_ctr := k\<rparr>) = pub_ok g" "pub_ok (g\<lparr>s_rearm_requested := b\<rparr>) = pub_ok g" "pub_ok (g\<lparr>gw_led := l\<rparr>) = pub_ok g"
  "pub_ok (g\<lparr>s_epoch_ms_lo := e, s_epoch_ref_ms := r, s_epoch_valid := b\<rparr>) = pub_ok g"
  "pub_ok (g\<lparr>s_flow_level := fl\<rparr>) = pub_ok g" "pub_ok (g\<lparr>s_route_q := q\<rparr>) = pub_ok g" "pub_ok (g\<lparr>s_time_seq := n\<rparr>) = pub_ok g"
  by (simp_all add: pub_ok_def estop_flag_def)

lemma publish_new_mirror: "pub_ok g \<Longrightarrow> pub_ok (mirror_publish (state c) (g\<lparr>s_mirror := c\<rparr>))"
  using publish_ok [of "g\<lparr>s_mirror := c\<rparr>"] by (simp add: pub_ok_def estop_flag_def)

lemma dispatch_pub: "pub_ok g \<Longrightarrow> pub_ok (gw_local_dispatch us f g)"
proof -
  assume g: "pub_ok g"
  have "pub_ok (gw_local_safety us f ty g)" "pub_ok (gw_local_control us f ty g)" "pub_ok (gw_local_mgmt us f src ty g)"
    if "pub_ok g" for ty src and g :: "('a, 'b, 'c) gateway"
    using that by (auto simp: gw_local_safety_def gw_local_control_def gw_local_mgmt_def hub_bms_notify_clear_accepted_def
      Let_def case_prod_unfold intro: mirror_update_ok publish_new_mirror)
  then show ?thesis using g by (simp add: gw_local_dispatch_def Let_def)
qed

lemma forward_mirror:
  "fed (now_ms us') (s_mirror g) (s_mirror (hub_forward send Q us us' origin f ports g)) \<and>
   (pub_ok g \<longrightarrow> pub_ok (hub_forward send Q us us' origin f ports g))"
proof -
  define g1 where "g1 = (if ports AND PS_PORT_BIT PS_PORT_CAN1 \<noteq> 0 then forward_can1 send f g else g)"
  define g2 where "g2 = (if ports AND PS_PORT_BIT PS_PORT_CAN2 \<noteq> 0 then forward_can2 send f g1 else g1)"
  define g' where "g' = (if ports AND PS_PORT_BIT PS_PORT_SPI \<noteq> 0 then forward_spi Q us origin f g2 else g2)"
  have "keeps_mirror g g1" "keeps_mirror g1 g2" "keeps_mirror g2 g'" by (simp_all add: g1_def g2_def g'_def) (simp_all add: keeps_mirror_def)
  then have g': "keeps_mirror g g'" using keeps_mirror_trans by blast
  have "hub_forward send Q us us' origin f ports g = (if ports AND PS_PORT_BIT PS_PORT_LOCAL \<noteq> 0 then gw_local_dispatch us' f g' else g')"
    unfolding hub_forward_def g'_def g2_def g1_def Let_def ..
  then show ?thesis using dispatch_mirror [of us' g' f] dispatch_pub [of g' us' f] keeps_mirror_pub [OF g'] g'
    by (auto simp: keeps_mirror_def)
qed

text \<open>Every event feeds the mirror at most one step, at its own time, and keeps what is published true.\<close>

lemma gw_step_mirror:
  "(s_mirror (gw_step send Q RQ g e) = s_mirror g \<or>
    (\<exists>us. event_time e = Some us \<and> fed (now_ms us) (s_mirror g) (s_mirror (gw_step send Q RQ g e)))) \<and> (pub_ok g \<longrightarrow> pub_ok (gw_step send Q RQ g e))"
proof (cases e)
  case (Pump us us')
  obtain r q where rq: "q_receive RQ (s_route_q g) = (r, q)" by fastforce
  show ?thesis
    using forward_mirror [of us' "g\<lparr>s_route_q := q\<rparr>"] keeps_mirror_pub [OF forward_keeps(4), of "g\<lparr>s_route_q := q\<rparr>"]
      forward_keeps(4) [of "g\<lparr>s_route_q := q\<rparr>"]
    by (cases r) (auto simp: Pump gw_pump_turn_def rq Let_def keeps_mirror_def)
next
  case (Downlink us us')
  obtain r b where rb: "ps_spib_downlink_pop Q (gw_spib g) = (r, b)" by fastforce
  let ?g = "g\<lparr>gw_spib := b\<rparr>"
  have "s_sticky_flags b = s_sticky_flags (gw_spib g)" using downlink_pop_flags [of Q "gw_spib g"] rb by simp
  then have k: "pub_ok ?g = pub_ok g" "s_mirror ?g = s_mirror g" by (simp_all add: pub_ok_def estop_flag_def)
  show ?thesis
    using forward_mirror [of us' ?g] keeps_mirror_pub [OF forward_keeps(4), of ?g] forward_keeps(4) [of ?g]
      dispatch_mirror [of us' ?g] dispatch_pub [of ?g us'] k
    by (cases r) (auto simp: Downlink gw_downlink_turn_def rb Let_def keeps_mirror_def)
next
  case (Time_sync us us')
  then show ?thesis using forward_mirror [of us' "g\<lparr>s_time_seq := s_time_seq g + 1\<rparr>"]
    by (simp add: hub_gateway_broadcast_time_sync_def Let_def)
next
  case (Safety_tick us)
  then show ?thesis using fed_steps(6) mirror_update_ok by (auto simp: hub_gateway_safety_tick_def)
next
  case (Trip us cause)
  then show ?thesis using fed_steps(5) mirror_update_ok by (auto simp: hub_gateway_local_estop_def)
qed (auto simp: gw_rx_cb_def Let_def case_prod_unfold pub_ok_def estop_flag_def)

lemma gw_run_simps [simp]:
  "gw_run send Q RQ g [] = g" "gw_run send Q RQ g (e # es) = gw_run send Q RQ (gw_step send Q RQ g e) es"
  "gw_run send Q RQ g (es @ es') = gw_run send Q RQ (gw_run send Q RQ g es) es'"
  by (simp_all add: gw_run_def)


text \<open>A state that counts as published already is not published again.\<close>

definition pub_quiet :: "('w, 'q, 'r) gateway \<Rightarrow> ('w, 'q, 'r) gateway \<Rightarrow> bool" where
  "pub_quiet g g' \<longleftrightarrow> (state (s_mirror g') = s_last_pub_state g \<longrightarrow>
     s_last_pub_state g' = s_last_pub_state g \<and> s_sticky_flags (gw_spib g') = s_sticky_flags (gw_spib g))"

lemma keeps_quiet: "keeps_mirror g g' \<Longrightarrow> pub_quiet g g'"
  by (simp add: keeps_mirror_def pub_quiet_def)

lemma quiet_after: "keeps_mirror g g1 \<Longrightarrow> pub_quiet g1 g' \<Longrightarrow> pub_quiet g g'"
  by (simp add: keeps_mirror_def pub_quiet_def)

lemma publish_quiet: "pub_quiet g (mirror_publish (state c) (g\<lparr>s_mirror := c\<rparr>))"
  by (simp add: pub_quiet_def publish_defs)

lemma update_quiet: "pub_quiet g (mirror_update h g)"
  using publish_quiet [of g "h (s_mirror g)"] by (simp add: mirror_update_def mirror_locked_def Let_def)

lemma quiet_fields [simp]:
  "pub_quiet g (g'\<lparr>s_rearm_requested := b\<rparr>) = pub_quiet g g'" "pub_quiet (g\<lparr>s_ctr := k\<rparr>) g' = pub_quiet g g'"
  by (simp_all add: pub_quiet_def)

lemma dispatch_quiet: "pub_quiet g (gw_local_dispatch us f g)"
proof -
  have "pub_quiet g (gw_local_safety us f ty g)" "pub_quiet g (gw_local_control us f ty g)" "pub_quiet g (gw_local_mgmt us f src ty g)"
    for ty src and g :: "('a, 'b, 'c) gateway"
    using keeps_quiet [of g g]
    by (auto simp: gw_local_safety_def gw_local_control_def gw_local_mgmt_def hub_bms_notify_clear_accepted_def
      Let_def case_prod_unfold publish_quiet update_quiet keeps_mirror_def) (auto intro: keeps_quiet simp: keeps_mirror_def)
  note q = this [of "g\<lparr>s_ctr := (s_ctr g)\<lparr>local_consumed := local_consumed (s_ctr g) + 1\<rparr>\<rparr>"]
  show ?thesis using q keeps_quiet [of g] by (simp add: gw_local_dispatch_def Let_def keeps_mirror_def)
qed

lemma forward_quiet: "pub_quiet g (hub_forward send Q us us' origin f ports g)"
proof -
  define g1 where "g1 = (if ports AND PS_PORT_BIT PS_PORT_CAN1 \<noteq> 0 then forward_can1 send f g else g)"
  define g2 where "g2 = (if ports AND PS_PORT_BIT PS_PORT_CAN2 \<noteq> 0 then forward_can2 send f g1 else g1)"
  define g' where "g' = (if ports AND PS_PORT_BIT PS_PORT_SPI \<noteq> 0 then forward_spi Q us origin f g2 else g2)"
  have "keeps_mirror g g1" "keeps_mirror g1 g2" "keeps_mirror g2 g'" by (simp_all add: g1_def g2_def g'_def) (simp_all add: keeps_mirror_def)
  then have g': "keeps_mirror g g'" using keeps_mirror_trans by blast
  have "hub_forward send Q us us' origin f ports g = (if ports AND PS_PORT_BIT PS_PORT_LOCAL \<noteq> 0 then gw_local_dispatch us' f g' else g')"
    unfolding hub_forward_def g'_def g2_def g1_def Let_def ..
  then show ?thesis using quiet_after [OF g' dispatch_quiet] keeps_quiet [OF g'] by simp
qed

lemma gw_step_quiet: "pub_quiet g (gw_step send Q RQ g e)"
proof (cases e)
  case (Pump us us')
  obtain r q where rq: "q_receive RQ (s_route_q g) = (r, q)" by fastforce
  have k: "keeps_mirror g (g\<lparr>s_route_q := q\<rparr>)" by (simp add: keeps_mirror_def)
  show ?thesis using quiet_after [OF k forward_quiet] quiet_after [OF k keeps_quiet [OF forward_keeps(4)]] keeps_quiet [OF k]
    by (cases r) (auto simp: Pump gw_pump_turn_def rq Let_def)
next
  case (Downlink us us')
  obtain r b where rb: "ps_spib_downlink_pop Q (gw_spib g) = (r, b)" by fastforce
  have "s_sticky_flags b = s_sticky_flags (gw_spib g)" using downlink_pop_flags [of Q "gw_spib g"] rb by simp
  then have k: "keeps_mirror g (g\<lparr>gw_spib := b\<rparr>)" by (simp add: keeps_mirror_def)
  show ?thesis
    using quiet_after [OF k forward_quiet] quiet_after [OF k keeps_quiet [OF forward_keeps(4)]] quiet_after [OF k dispatch_quiet] keeps_quiet [OF k]
    by (cases r) (auto simp: Downlink gw_downlink_turn_def rb Let_def)
next
  case (Time_sync us us')
  have "keeps_mirror g (g\<lparr>s_time_seq := s_time_seq g + 1\<rparr>)" by (simp add: keeps_mirror_def)
  then show ?thesis using quiet_after forward_quiet by (simp add: Time_sync hub_gateway_broadcast_time_sync_def Let_def) blast
qed (auto simp: hub_gateway_safety_tick_def hub_gateway_local_estop_def update_quiet gw_rx_cb_def Let_def case_prod_unfold
  intro: keeps_quiet simp: keeps_mirror_def)

text \<open>So a wrong flag stays as it is for as long as the mirror stays in the state that counts as published.\<close>

lemma wrong_flag_stays:
  assumes "s_last_pub_state g = PS_STATE_ESTOP" "\<forall>k<length es. state (s_mirror (gw_run send Q RQ g (take (Suc k) es))) = PS_STATE_ESTOP"
  shows "estop_flag (gw_run send Q RQ g es) = estop_flag g"
  using assms
proof (induction es arbitrary: g)
  case (Cons e es)
  let ?g = "gw_step send Q RQ g e"
  have "state (s_mirror ?g) = PS_STATE_ESTOP" using Cons.prems(2) by force
  then have g: "s_last_pub_state ?g = PS_STATE_ESTOP" "s_sticky_flags (gw_spib ?g) = s_sticky_flags (gw_spib g)"
    using gw_step_quiet [of g send Q RQ e] Cons.prems(1) by (auto simp: pub_quiet_def)
  have "\<forall>k<length es. state (s_mirror (gw_run send Q RQ ?g (take (Suc k) es))) = PS_STATE_ESTOP"
    using Cons.prems(2) by (auto dest: spec [of _ "Suc _"])
  from Cons.IH [OF g(1) this] show ?case using g(2) by (simp add: estop_flag_def)
qed simp

text \<open>Commands never reach the mirror, so the time of its last command stays what \<open>ps_safety_core_init\<close> set; the healthy streak starts
  later than that.\<close>

definition mirror_uncommanded :: "int \<Rightarrow> ps_safety_core \<Rightarrow> bool" where
  "mirror_uncommanded t0 c \<longleftrightarrow> last_cmd_ms c = of_int t0 - PS_CMD_STALE_MS - 1 \<and>
     (have_hb c \<longrightarrow> (\<exists>k. 0 \<le> k \<and> k < 2 ^ 31 - 201 \<and> hb_streak_start_ms c = of_int (t0 + k)))"

lemma fed_uncommanded:
  assumes "mirror_uncommanded t0 c" "fed (of_int (t0 + k)) c c'" "0 \<le> k" "k < 2 ^ 31 - 201"
  shows "mirror_uncommanded t0 c'"
proof -
  have "mirror_uncommanded t0 (safety_step c (of_int (t0 + k)) e)" if "e \<noteq> Cmd" for e
    using that assms(1,3,4) by (cases e) (auto simp: mirror_uncommanded_def core_defs Let_def intro!: exI [of _ k])
  then show ?thesis using assms(1,2) by (auto simp: fed_def)
qed

definition in_window :: "int \<Rightarrow> gw_event \<Rightarrow> bool" where
  "in_window t0 e \<longleftrightarrow> (case event_time e of None \<Rightarrow> True | Some us \<Rightarrow> t0 \<le> us div 1000 \<and> us div 1000 < t0 + (2 ^ 31 - 201))"

lemma gw_step_uncommanded:
  assumes "mirror_uncommanded t0 (s_mirror g)" "in_window t0 e"
  shows "mirror_uncommanded t0 (s_mirror (gw_step send Q RQ g e))"
  using conjunct1 [OF gw_step_mirror, of send Q RQ g e]
proof
  assume "\<exists>us. event_time e = Some us \<and> fed (now_ms us) (s_mirror g) (s_mirror (gw_step send Q RQ g e))"
  then obtain us where us: "event_time e = Some us" "fed (now_ms us) (s_mirror g) (s_mirror (gw_step send Q RQ g e))" by blast
  then show ?thesis
    using fed_uncommanded [OF assms(1), of "us div 1000 - t0"] assms(2) by (simp add: now_ms_def in_window_def)
qed (use assms in simp)

lemma gw_run_uncommanded:
  assumes "mirror_uncommanded t0 (s_mirror g)" "list_all (in_window t0) es"
  shows "mirror_uncommanded t0 (s_mirror (gw_run send Q RQ g es))"
  using assms by (induction es arbitrary: g) (simp_all add: gw_step_uncommanded)

lemma uncommanded_no_rearm:
  assumes "mirror_uncommanded t0 c" "state c = PS_STATE_PASSIVE" "fed t c c'"
  shows "state c' \<noteq> PS_STATE_OPERATIONAL"
proof
  assume op: "state c' = PS_STATE_OPERATIONAL"
  then obtain e where e: "e \<noteq> Cmd" "c' = safety_step c t e" using assms(2,3) by (auto simp: fed_def)
  have "have_hb c \<and> elapsed (last_cmd_ms c) (hb_streak_start_ms c) \<ge> 0"
    using op assms(2) unfolding e(2) by (cases e) (auto simp: core_defs Let_def heartbeat_ok_def split: if_splits)
  then obtain k where k: "0 \<le> k" "k < 2 ^ 31 - 201" "hb_streak_start_ms c = of_int (t0 + k)"
    "elapsed (last_cmd_ms c) (hb_streak_start_ms c) \<ge> 0" using assms(1) by (auto simp: mirror_uncommanded_def)
  have "last_cmd_ms c = of_int (t0 - 201)" using assms(1) by (simp add: mirror_uncommanded_def)
  then show False using k elapsed_of_int [of "t0 - 201" "t0 + k"] by simp
qed

text \<open>Forwarding to a bus, through the transport's contract.\<close>

context can_port
begin

lemma forward_can1_outbox:
  assumes "inv (gw_can1 g)" "length (f_data f) = 8"
  shows "gw_can2 (forward_can1 send f g) = gw_can2 g" "gw_spib (forward_can1 send f g) = gw_spib g"
    "s_route_q (forward_can1 send f g) = s_route_q g" "inv (gw_can1 (forward_can1 send f g))"
    "outbox (gw_can1 (forward_can1 send f g)) = add_mset (wire_image f) (outbox (gw_can1 g)) \<or>
     outbox (gw_can1 (forward_can1 send f g)) = outbox (gw_can1 g) \<and>
     gw_tx_timeouts (s_ctr (forward_can1 send f g)) = gw_tx_timeouts (s_ctr g) + 1"
  using send_ok [OF assms] send_refused [OF assms(1), of f] inv_send [OF assms(1), of f]
  by (auto simp: forward_can1_def bump_fwd_def bump_tx_timeouts_def Let_def case_prod_unfold)

lemma forward_can2_outbox:
  assumes "inv (gw_can2 g)" "length (f_data f) = 8"
  shows "gw_can1 (forward_can2 send f g) = gw_can1 g" "gw_spib (forward_can2 send f g) = gw_spib g"
    "s_route_q (forward_can2 send f g) = s_route_q g" "inv (gw_can2 (forward_can2 send f g))"
    "outbox (gw_can2 (forward_can2 send f g)) = add_mset (wire_image f) (outbox (gw_can2 g)) \<or>
     outbox (gw_can2 (forward_can2 send f g)) = outbox (gw_can2 g) \<and>
     gw_tx_timeouts (s_ctr (forward_can2 send f g)) = gw_tx_timeouts (s_ctr g) + 1"
  using send_ok [OF assms] send_refused [OF assms(1), of f] inv_send [OF assms(1), of f]
  by (auto simp: forward_can2_def bump_fwd_def bump_tx_timeouts_def Let_def case_prod_unfold)

end

text \<open>A frame for a bus that is up and has a free slot is queued there; the loss of any other is counted.\<close>

definition bus_accepts :: "('q \<Rightarrow> u8 list) \<Rightarrow> ('q, 'a, 'cb, 'sc) ps_can_ctx \<Rightarrow> bool" where
  "bus_accepts view c \<longleftrightarrow> link_state c \<noteq> PS_CAN_STATE_BUS_OFF \<and> view (free_slots c) \<noteq> []"

lemma send_accepted:
  assumes "can_ctx_ok Q view c" "f_dlc f \<le> 8" "f_id f AND NOT PS_CAN_ID_MASK = 0"
  shows "fst (ps_can_send Q g c f) = ESP_OK \<longleftrightarrow> bus_accepts view c"
proof -
  have q: "queue_ok Q view 16" using assms(1) by (simp add: can_ctx_ok_def)
  have "fst (q_receive Q (free_slots c)) \<noteq> None \<longleftrightarrow> view (free_slots c) \<noteq> []"
    using queue_ok_receive [OF q, of "free_slots c"] by (cases "view (free_slots c)"; cases "fst (q_receive Q (free_slots c))") auto
  then have "(\<exists>i c'. send_take Q f c = (Inr i, c')) \<longleftrightarrow> bus_accepts view c"
    using assms(2,3) by (auto simp: send_take_def bus_accepts_def Let_def split: prod.splits option.splits)
  then show ?thesis using ps_can_send_cases [OF assms(1), of f g] by auto
qed

lemma send_cut_through:
  assumes "can_ctx_ok Q view c" "length (f_data f) = 8" "f_dlc f \<le> 8" "f_id f AND NOT PS_CAN_ID_MASK = 0"
  shows "bus_accepts view c \<Longrightarrow> fst (ps_can_send Q len c f) = ESP_OK \<and> queued (snd (ps_can_send Q len c f)) = add_mset (wire_image f) (queued c)"
    and "\<not> bus_accepts view c \<Longrightarrow> fst (ps_can_send Q len c f) \<noteq> ESP_OK \<and> queued (snd (ps_can_send Q len c f)) = queued c"
  using send_accepted [OF assms(1,3,4), of len] ps_can.send_ok [OF assms(1,2), of len] ps_can.send_refused [OF assms(1), of len f] by blast+

lemma forward_cut_through:
  assumes "length (f_data f) = 8" "f_dlc f \<le> 8" "f_id f AND NOT PS_CAN_ID_MASK = 0"
  shows "can_ctx_ok Q view (gw_can1 x) \<Longrightarrow> if bus_accepts view (gw_can1 x)
      then queued (gw_can1 (forward_can1 (ps_can_send Q len) f x)) = add_mset (wire_image f) (queued (gw_can1 x))
      else queued (gw_can1 (forward_can1 (ps_can_send Q len) f x)) = queued (gw_can1 x) \<and>
        gw_tx_timeouts (s_ctr (forward_can1 (ps_can_send Q len) f x)) = gw_tx_timeouts (s_ctr x) + 1"
    and "can_ctx_ok Q view (gw_can2 x) \<Longrightarrow> if bus_accepts view (gw_can2 x)
      then queued (gw_can2 (forward_can2 (ps_can_send Q len) f x)) = add_mset (wire_image f) (queued (gw_can2 x))
      else queued (gw_can2 (forward_can2 (ps_can_send Q len) f x)) = queued (gw_can2 x) \<and>
        gw_tx_timeouts (s_ctr (forward_can2 (ps_can_send Q len) f x)) = gw_tx_timeouts (s_ctr x) + 1"
  using send_cut_through [OF _ assms, of Q view "gw_can1 x" len] send_cut_through [OF _ assms, of Q view "gw_can2 x" len]
  by (simp_all add: forward_can1_def forward_can2_def bump_fwd_def bump_tx_timeouts_def Let_def case_prod_unfold)

lemma forward_spi_fields:
  assumes "queue_ok Q view cap" "spib_started (gw_spib g)"
  shows "gw_can1 (forward_spi Q us p f g) = gw_can1 g" "gw_can2 (forward_spi Q us p f g) = gw_can2 g"
    "s_route_q (forward_spi Q us p f g) = s_route_q g" "gw_tx_timeouts (s_ctr (forward_spi Q us p f g)) = gw_tx_timeouts (s_ctr g)"
    "if length (view (s_uplink_q (gw_spib g))) < cap
     then view (s_uplink_q (gw_spib (forward_spi Q us p f g))) = view (s_uplink_q (gw_spib g)) @ [uplink_record us p f]
     else s_overflow_pending (gw_spib (forward_spi Q us p f g))"
  using assms(2) queue_ok_send [OF assms(1), of "s_uplink_q (gw_spib g)" "uplink_record us p f"]
  by (auto simp: forward_spi_def ps_spib_uplink_push_def bump_fwd_def Let_def case_prod_unfold)

lemma dispatch_estop:
  assumes "ps_can_id_cls (f_id f) = PS_CLS_SAFETY" "ps_can_id_type (f_id f) = PS_T_ESTOP" "8 \<le> f_dlc f"
  shows "gw_local_dispatch us f g = mirror_update (\<lambda>c. ps_safety_core_on_estop c (now_ms us) (es_cause (PS_WIRE_READ dec_estop (f_data f))))
    (g\<lparr>s_ctr := (s_ctr g)\<lparr>local_consumed := local_consumed (s_ctr g) + 1\<rparr>\<rparr>)"
  using assms by (simp add: gw_local_dispatch_def gw_local_safety_def Let_def not_less)

lemma mirror_update_fields [simp]:
  "gw_can1 (mirror_update h g) = gw_can1 g" "gw_can2 (mirror_update h g) = gw_can2 g" "s_route_q (mirror_update h g) = s_route_q g"
  "s_ctr (mirror_update h g) = s_ctr g" "s_uplink_q (gw_spib (mirror_update h g)) = s_uplink_q (gw_spib g)"
  "s_overflow_pending (gw_spib (mirror_update h g)) = s_overflow_pending (gw_spib g)"
  by (simp_all add: mirror_update_def mirror_locked_def Let_def)

lemma register_classes_fields [simp]:
  "s_mirror (snd (register_classes reg cs g)) = s_mirror g" "s_last_pub_state (snd (register_classes reg cs g)) = s_last_pub_state g"
  "gw_spib (snd (register_classes reg cs g)) = gw_spib g"
  by (induction cs arbitrary: g) (auto simp: Let_def case_prod_unfold)


section \<open>An instance\<close>

abbreviation demo_ctx :: "(u8 list, unit, unit, unit) ps_can_ctx" where
  "demo_ctx \<equiv> ps_can_ctx_init (list_queue 16) 0 0 () []"

abbreviation demo_led :: hub_led where
  "demo_led \<equiv> \<lparr> s_override = \<lparr>lp_pattern = 0, lp_brightness = 0, lp_r = 0, lp_g = 0, lp_b = 0, lp_speed = 0, lp_rsvd = 0\<rparr>,
     s_override_active = False, s_override_until_us = 0 \<rparr>"

definition demo_gw :: "gw_item list \<Rightarrow> ((u8 list, unit, unit, unit) ps_can_ctx, ps_can_record list, gw_item list) gateway" where
  "demo_gw items = \<lparr> gw_can1 = demo_ctx, gw_can2 = demo_ctx, s_route_q = items, gw_spib = demo_spib,
     s_ctr = \<lparr>gw_fwd = [0, 0, 0, 0], local_consumed = 0, anomalies = 0, queue_drops = 0, gw_tx_timeouts = 0\<rparr>,
     s_mirror = ps_safety_core_init 0 True, s_last_pub_state = 0xFF, s_epoch_ms_lo = 0, s_epoch_ref_ms = 0, s_epoch_valid = False,
     s_time_seq = 0, s_flow_level = replicate 8 0, gw_led = demo_led, s_rearm_requested = False \<rparr>"

lemma demo_gw_ok: "pub_ok (demo_gw items)" "spib_started (gw_spib (demo_gw items))"
  by (simp_all add: demo_gw_def demo_spib_def pub_ok_def estop_flag_def ps_safety_core_init_def)

abbreviation demo_estop :: ps_can_frame where
  "demo_estop \<equiv> \<lparr> f_id = ps_can_id_pack PS_CLS_SAFETY 1 0 PS_T_ESTOP 0, f_dlc = 8, f_data = [4, 1, 0, 0, 0, 0, 0, 0] \<rparr>"

section \<open>Properties\<close>

text \<open>Claim C9. The e-stop cut-through of the hub: when the pump takes an ESTOP frame that came in on one bus, the frame is queued
  unchanged on the other bus if that one is not bus-off and has a free transmit slot, and its loss is counted if not; a record of it with the tag of its origin is appended to the uplink for the
  orchestrator (or the overflow is reported in the next SPI frame), the mirror is latched in ESTOP and, when no other task
  publishes at the same time, the SPI header flag says so; the bus it came from gets nothing.\<close>

theorem estop_cut_through:
  assumes "can_ctx_ok SQ sview (gw_can1 g)" "can_ctx_ok SQ sview (gw_can2 g)" "queue_ok Q view cap" "queue_ok RQ rview rcap"
    and "rview (s_route_q g) = (p, f) # rest" "p = PS_PORT_CAN1 \<or> p = PS_PORT_CAN2" "spib_started (gw_spib g)" "pub_ok g"
    and "ps_can_id_cls (f_id f) = PS_CLS_SAFETY" "ps_can_id_type (f_id f) = PS_T_ESTOP" "f_dlc f = 8" "length (f_data f) = 8" "f_id f AND NOT PS_CAN_ID_MASK = 0"
    and "g' = gw_pump_turn (ps_can_send SQ len) Q RQ us us' g"
    and "other = (if p = PS_PORT_CAN1 then gw_can2 else gw_can1)" "own = (if p = PS_PORT_CAN1 then gw_can1 else gw_can2)"
  shows "latched (s_mirror g') \<and> estop_flag g' \<and> own g' = own g \<and> rview (s_route_q g') = rest \<and>
    (if bus_accepts sview (other g) then queued (other g') = add_mset (wire_image f) (queued (other g))
     else queued (other g') = queued (other g) \<and> gw_tx_timeouts (s_ctr g') = gw_tx_timeouts (s_ctr g) + 1) \<and>
    (if length (view (s_uplink_q (gw_spib g))) < cap
     then view (s_uplink_q (gw_spib g')) = view (s_uplink_q (gw_spib g)) @ [uplink_record us p f]
     else s_overflow_pending (gw_spib g'))"
proof -
  obtain q where q: "q_receive RQ (s_route_q g) = (Some (p, f), q)" "rview q = rest"
    using queue_ok_receive(1,2) [OF assms(4), of "s_route_q g"] assms(5) by (cases "q_receive RQ (s_route_q g)") fastforce
  let ?send = "ps_can_send SQ len" and ?g = "g\<lparr>s_route_q := q\<rparr>"
  let ?h = "if p = PS_PORT_CAN1 then forward_can2 ?send f ?g else forward_can1 ?send f ?g"
  let ?k = "forward_spi Q us p f ?h"
  have "ps_router_route p (f_id f) = (if p = 0 then 14 else 13)"
    using assms(6,9) by (auto simp: ps_router_route_def route_mask_def Let_def)
  then have g': "g' = gw_local_dispatch us' f ?k"
    using assms(6) by (auto simp: assms(14) gw_pump_turn_def q(1) hub_forward_def Let_def)
  have d: "gw_local_dispatch us' f ?k = mirror_update (\<lambda>c. ps_safety_core_on_estop c (now_ms us') (es_cause (PS_WIRE_READ dec_estop (f_data f))))
    (?k\<lparr>s_ctr := (s_ctr ?k)\<lparr>local_consumed := local_consumed (s_ctr ?k) + 1\<rparr>\<rparr>)"
    by (rule dispatch_estop [OF assms(9,10)]) (simp add: assms(11))
  have "pub_ok ?k" using assms(8) keeps_mirror_pub [OF forward_keeps(3), of Q us p f ?h]
      keeps_mirror_pub [OF forward_keeps(1), of ?send f ?g] keeps_mirror_pub [OF forward_keeps(2), of ?send f ?g] by auto
  then have "pub_ok g'" unfolding g' by (rule dispatch_pub)
  moreover have st: "latched (s_mirror g')" unfolding g' d by (simp add: latched_def ps_safety_core_on_estop_def Let_def)
  ultimately have fl: "estop_flag g'" by (auto simp: pub_ok_def latched_def)
  have sp: "gw_spib ?h = gw_spib g"
    using ps_can.forward_can1_outbox(2) [of SQ sview ?g f len] ps_can.forward_can2_outbox(2) [of SQ sview ?g f len] assms(1,2,12) by simp
  note fs = forward_spi_fields [OF assms(3), of ?h us p f]
  have "f_dlc f \<le> 8" by (simp add: assms(11))
  note cut_through = forward_cut_through [OF assms(12) this assms(13), of SQ sview ?g len]
  note outbox = ps_can.forward_can1_outbox(1,3) [of SQ sview ?g f len] ps_can.forward_can2_outbox(1,3) [of SQ sview ?g f len]
  have ctr: "gw_tx_timeouts (s_ctr ?k) = gw_tx_timeouts (s_ctr ?h)" "gw_can1 ?k = gw_can1 ?h" "gw_can2 ?k = gw_can2 ?h" "s_route_q ?k = s_route_q ?h"
    using fs(1-4) sp assms(7) by simp_all
  have out: "own g' = own g \<and> rview (s_route_q g') = rest \<and> (if bus_accepts sview (other g) then queued (other g') = add_mset (wire_image f) (queued (other g))
     else queued (other g') = queued (other g) \<and> gw_tx_timeouts (s_ctr g') = gw_tx_timeouts (s_ctr g) + 1)"
  proof (cases "p = PS_PORT_CAN1")
    case True
    then show ?thesis unfolding g' d assms(15,16) using ctr outbox(3,4) cut_through(2) q(2) assms(2,12) by simp
  next
    case False
    then show ?thesis unfolding g' d assms(15,16) using ctr outbox(1,2) cut_through(1) q(2) assms(1,12) by simp
  qed
  have "if length (view (s_uplink_q (gw_spib g))) < cap
     then view (s_uplink_q (gw_spib g')) = view (s_uplink_q (gw_spib g)) @ [uplink_record us p f] else s_overflow_pending (gw_spib g')"
    unfolding g' d using fs(5) sp assms(7) by simp
  with st fl out show ?thesis by blast
qed

theorem estop_cut_through_witness:
  "let g = demo_gw [(PS_PORT_CAN1, demo_estop)];
       g' = gw_pump_turn (ps_can_send (list_queue 16) ucast) (list_queue 8) (list_queue 128) 5000 6000 g
   in latched (s_mirror g') \<and> estop_flag g' \<and> s_uplink_q (gw_spib g') = [demo_rec, uplink_record 5000 0 demo_estop] \<and>
     queued (gw_can2 g') = add_mset (wire_image demo_estop) (queued (gw_can2 g))"
proof -
  let ?g = "demo_gw [(PS_PORT_CAN1, demo_estop)]"
  let ?g' = "gw_pump_turn (ps_can_send (list_queue 16) ucast) (list_queue 8) (list_queue 128) 5000 6000 ?g"
  have g: "gw_can1 ?g = demo_ctx" "gw_can2 ?g = demo_ctx" "s_route_q ?g = [(PS_PORT_CAN1, demo_estop)]" "s_uplink_q (gw_spib ?g) = [demo_rec]"
    by (simp_all add: demo_gw_def demo_spib_def)
  have "can_ctx_ok (list_queue 16) (\<lambda>q. q) (gw_can1 ?g)" "can_ctx_ok (list_queue 16) (\<lambda>q. q) (gw_can2 ?g)"
    unfolding g by (simp_all add: can_ctx_ok_init)
  note est = estop_cut_through [OF this list_queue_ok [of 8] list_queue_ok [of 128] g(3) _ demo_gw_ok(2,1) _ _ _ _ _ HOL.refl HOL.refl HOL.refl, of ucast 5000 6000]
  have "bus_accepts (\<lambda>q. q) demo_ctx" by (simp add: bus_accepts_def ps_can_ctx_init_def list_queue_def upt_rec)
  moreover have "f_id demo_estop AND NOT PS_CAN_ID_MASK = 0" by code_simp
  ultimately show ?thesis unfolding Let_def using est by (simp add: g(2,4))
qed



text \<open>Claim C0. The publication of an e-stop can be lost: \<open>mirror_publish\<close> runs outside the lock, so when an ESTOP reaches the hub while the
  safety tick is publishing the change from STANDBY to OPERATIONAL, there is an interleaving after which the mirror is latched in ESTOP, nothing is left to
  publish and the ESTOP_LATCHED flag is off; and it stays off through every sequence of gateway events (ticks and repeated ESTOP frames included) for as
  long as the mirror is in ESTOP, because the state counts as published.\<close>

theorem estop_flag_lost:
  assumes "pub_ok g" "state (s_mirror g) = PS_STATE_STANDBY" "want_operational (s_mirror g)" "heartbeat_ok (s_mirror g) t"
  shows "\<exists>g'. mirror_step\<^sup>*\<^sup>* (g, {#}) (g', {#}) \<and> latched (s_mirror g') \<and> \<not> estop_flag g' \<and>
    (\<forall>send Q RQ es. (\<forall>k<length es. state (s_mirror (gw_run send Q RQ g' (take (Suc k) es))) = PS_STATE_ESTOP) \<longrightarrow>
       \<not> estop_flag (gw_run send Q RQ g' es))"
proof -
  let ?op = "PS_STATE_OPERATIONAL" and ?es = "PS_STATE_ESTOP"
  define g1 where "g1 = mirror_locked (\<lambda>c. safety_step c t Tick) g"
  define g2 where "g2 = mirror_locked (\<lambda>c. safety_step c t (Estop PS_ESTOP_OPERATOR)) g1"
  define g' where "g' = publish_mark ?es (publish_mark ?op (publish_flag ?op (publish_flag ?es g2)))"
  have last: "s_last_pub_state g = PS_STATE_STANDBY" using assms(1,2) by (auto simp: pub_ok_def)
  have op: "state (safety_step (s_mirror g) t Tick) = ?op" using assms(2-4) by (simp add: core_defs)
  then have m1: "state (s_mirror g1) = ?op" by (simp add: g1_def mirror_locked_def)
  then have es: "state (safety_step (s_mirror g1) t (Estop PS_ESTOP_OPERATOR)) = ?es" "latched (s_mirror g2)"
    by (simp_all add: g2_def mirror_locked_def core_defs latched_def Let_def)
  have l2: "s_last_pub_state g2 = PS_STATE_STANDBY" by (simp add: g2_def g1_def mirror_locked_def last)
  have "mirror_step\<^sup>*\<^sup>* (g, {#}) (g1, {#Pub_test ?op#})"
    using mirror_step.locked [of Tick g "{#}" t] op by (auto simp: g1_def)
  also have "mirror_step\<^sup>*\<^sup>* (g1, {#Pub_test ?op#}) (g2, {#Pub_test ?es, Pub_test ?op#})"
    using mirror_step.locked [of "Estop PS_ESTOP_OPERATOR" g1 "{#Pub_test ?op#}" t] es(1) by (auto simp: g2_def)
  also have "mirror_step\<^sup>*\<^sup>* \<dots> (g2, {#Pub_flag ?es, Pub_test ?op#})"
    by (rule r_into_rtranclp, rule mirror_step.changed) (simp add: l2)
  also have "mirror_step\<^sup>*\<^sup>* \<dots> (g2, {#Pub_flag ?op, Pub_flag ?es#})"
    using mirror_step.changed [of ?op g2 "{#Pub_flag ?es#}"] l2 by (auto simp: add_mset_commute)
  also have "mirror_step\<^sup>*\<^sup>* \<dots> (publish_flag ?es g2, {#Pub_mark ?es, Pub_flag ?op#})"
    using mirror_step.flag [of g2 ?es "{#Pub_flag ?op#}"] by (auto simp: add_mset_commute)
  also have "mirror_step\<^sup>*\<^sup>* \<dots> (publish_flag ?op (publish_flag ?es g2), {#Pub_mark ?op, Pub_mark ?es#})"
    using mirror_step.flag [of "publish_flag ?es g2" ?op "{#Pub_mark ?es#}"] by (auto simp: add_mset_commute)
  also have "mirror_step\<^sup>*\<^sup>* \<dots> (publish_mark ?op (publish_flag ?op (publish_flag ?es g2)), {#Pub_mark ?es#})"
    by (rule r_into_rtranclp, rule mirror_step.mark)
  also have "mirror_step\<^sup>*\<^sup>* \<dots> (g', {#})" unfolding g'_def by (rule r_into_rtranclp, rule mirror_step.mark)
  finally have reach: "mirror_step\<^sup>*\<^sup>* (g, {#}) (g', {#})" .
  have "latched (s_mirror g')" using es(2) by (simp add: g'_def publish_defs)
  moreover have off: "\<not> estop_flag g'" using set_flag_bit [of False "gw_spib (publish_flag ?es g2)"] by (simp add: g'_def publish_defs estop_flag_def)
  moreover have "s_last_pub_state g' = ?es" by (simp add: g'_def publish_mark_def)
  ultimately show ?thesis using reach wrong_flag_stays [of g'] by blast
qed

theorem estop_flag_lost_witness:
  "let g = (demo_gw [])\<lparr>s_last_pub_state := PS_STATE_STANDBY,
         s_mirror := (ps_safety_core_init 0 True)\<lparr>state := PS_STATE_STANDBY, want_operational := True, have_hb := True, last_hb_ms := 100\<rparr>\<rparr>
   in pub_ok g \<and> (\<exists>g'. mirror_step\<^sup>*\<^sup>* (g, {#}) (g', {#}) \<and> latched (s_mirror g') \<and> \<not> estop_flag g')"
proof -
  let ?g = "(demo_gw [])\<lparr>s_last_pub_state := PS_STATE_STANDBY,
         s_mirror := (ps_safety_core_init 0 True)\<lparr>state := PS_STATE_STANDBY, want_operational := True, have_hb := True, last_hb_ms := 100\<rparr>\<rparr>"
  have "pub_ok ?g" by (simp add: pub_ok_def estop_flag_def demo_gw_def demo_spib_def)
  moreover have "heartbeat_ok (s_mirror ?g) 110" by (simp add: heartbeat_ok_def elapsed_def)
  ultimately show ?thesis using estop_flag_lost [of ?g 110] unfolding Let_def by simp blast
qed

text \<open>The mirror of the hub cannot leave PASSIVE towards OPERATIONAL: no command ever reaches it, so the fresh-command condition
  of the re-arm never holds, whatever the buses and the orchestrator send (for the first \<open>2^31 - 201\<close> ms after the start). The nodes, which
  do see commands, re-arm.\<close>

lemma mirror_passive_not_rearmed:
  assumes "s_mirror g = ps_safety_core_init (of_int t0) cb" "list_all (in_window t0) (es @ [e])"
    and "hub_gateway_safety_state (gw_run send Q RQ g es) = PS_STATE_PASSIVE"
  shows "hub_gateway_safety_state (gw_run send Q RQ g (es @ [e])) \<noteq> PS_STATE_OPERATIONAL"
proof -
  let ?g = "gw_run send Q RQ g es"
  have "mirror_uncommanded t0 (s_mirror g)" using assms(1) by (simp add: mirror_uncommanded_def ps_safety_core_init_def)
  then have "mirror_uncommanded t0 (s_mirror ?g)" by (rule gw_run_uncommanded) (use assms(2) in simp)
  then show ?thesis
    using uncommanded_no_rearm [of t0 "s_mirror ?g"] assms(3) conjunct1 [OF gw_step_mirror, of send Q RQ ?g e]
    by (auto simp: hub_gateway_safety_state_def)
qed

text \<open>The hub keeps the orchestrator's clock: a TIME_SYNC of the orchestrator is adopted at the moment it is dispatched, one from any
  other node is ignored; the 1 Hz broadcast then puts on both buses a TIME_SYNC with the adopted epoch advanced by the milliseconds that passed
  since, modulo \<open>2^32\<close>, and consecutive sequence numbers (before the first adoption, epoch 0).\<close>

lemma time_sync_extrapolates:
  assumes "ps_can_id_cls (f_id f) = PS_CLS_MGMT" "ps_can_id_type (f_id f) = PS_T_TIME_SYNC" "8 \<le> f_dlc f"
    and "g1 = gw_local_dispatch us0 f g"
  shows "\<exists>F. hub_gateway_broadcast_time_sync send Q us us' g1 = forward_can2 send F (forward_can1 send F (g1\<lparr>s_time_seq := s_time_seq g + 1\<rparr>)) \<and>
    f_id F = ps_can_id_pack PS_CLS_MGMT PS_NODE_HUB PS_NODE_BROADCAST PS_T_TIME_SYNC 0 \<and> f_dlc F = 8 \<and>
    PS_WIRE_READ dec_time_sync (f_data F) =
      \<lparr> ts_epoch_ms_lo =
          (if ps_can_id_src (f_id f) = PS_NODE_ORCH then ts_epoch_ms_lo (PS_WIRE_READ dec_time_sync (f_data f)) + (now_ms us - now_ms us0)
           else if s_epoch_valid g then s_epoch_ms_lo g + (now_ms us - s_epoch_ref_ms g) else 0),
        ts_seq = s_time_seq g, ts_rsvd = 0 \<rparr>"
proof -
  let ?t = "\<lparr> ts_epoch_ms_lo = (if s_epoch_valid g1 then s_epoch_ms_lo g1 + (now_ms us - s_epoch_ref_ms g1) else 0),
             ts_seq = s_time_seq g1, ts_rsvd = 0 \<rparr>"
  let ?F = "\<lparr> f_id = ps_can_id_pack PS_CLS_MGMT PS_NODE_HUB PS_NODE_BROADCAST PS_T_TIME_SYNC 0, f_dlc = 8,
             f_data = PS_WIRE_WRITE enc_time_sync (replicate 8 0) ?t \<rparr>"
  have g1: "g1 = (let h = g\<lparr>s_ctr := (s_ctr g)\<lparr>local_consumed := local_consumed (s_ctr g) + 1\<rparr>\<rparr>
    in if ps_can_id_src (f_id f) = PS_NODE_ORCH then h\<lparr>s_epoch_ms_lo := ts_epoch_ms_lo (PS_WIRE_READ dec_time_sync (f_data f)),
         s_epoch_ref_ms := now_ms us0, s_epoch_valid := True\<rparr> else h)"
    using assms by (simp add: gw_local_dispatch_def gw_local_mgmt_def Let_def not_less)
  have "hub_gateway_broadcast_time_sync send Q us us' g1 = forward_can2 send ?F (forward_can1 send ?F (g1\<lparr>s_time_seq := s_time_seq g1 + 1\<rparr>))"
    by (simp add: hub_gateway_broadcast_time_sync_def hub_forward_def Let_def)
  moreover have "PS_WIRE_READ dec_time_sync (f_data ?F) = ?t" using tsc.read_write [of "replicate 8 0" ?t] by simp
  moreover have "s_time_seq g1 = s_time_seq g" using g1 by (simp add: Let_def)
  ultimately show ?thesis
    by (intro exI [of _ ?F]) (use g1 in \<open>auto simp: Let_def\<close>)
qed

end
