(* ===== verification/Hub_Bms.thy ===== *)
theory Hub_Bms
  imports Gateway "HOL-Library.Signed_Division"
begin

text \<open>
  The hub's battery management, \<open>firmware/apps/node_chest_hub/main/bms_task.c\<close>: the 1 kHz sampling turn with its
  cell-tap multiplexer, the debounced escalation of six fault families, the observer of the hardware short-circuit latch,
  the interlocked re-arm and the periodic reports.

  A turn of the task happens at one reading \<open>us\<close> of the clock. The analog inputs are a function from ADC unit and
  channel to the raw reading (None when the driver reports an error), the two status pins are booleans. ADC conversions are
  binary32; a conversion to a 16-bit integer keeps the low 16 bits, as the generated code does where C leaves the value open.
  \<open>logf\<close> of the C library is a parameter.
\<close>

section \<open>Configuration\<close>

abbreviation HUB_BMS_CELL_COUNT :: nat where "HUB_BMS_CELL_COUNT \<equiv> 12"
abbreviation HUB_BMS_SCAN_SLOTS :: u32 where "HUB_BMS_SCAN_SLOTS \<equiv> 16"
abbreviation FAM_OV :: nat where "FAM_OV \<equiv> 0"
abbreviation FAM_UV :: nat where "FAM_UV \<equiv> 1"
abbreviation FAM_OT :: nat where "FAM_OT \<equiv> 2"
abbreviation FAM_UT :: nat where "FAM_UT \<equiv> 3"
abbreviation FAM_OCD :: nat where "FAM_OCD \<equiv> 4"
abbreviation FAM_OCC :: nat where "FAM_OCC \<equiv> 5"

record hub_bms_thresholds =
  cell_ov_mv :: u16
  cell_ov_warn_mv :: u16
  cell_uv_mv :: u16
  cell_uv_warn_mv :: u16
  ot_cC :: int
  ot_warn_cC :: int
  ut_cC :: int
  ut_warn_cC :: int
  oc_dis_cA :: int
  oc_dis_warn_cA :: int
  oc_chg_cA :: int
  oc_chg_warn_cA :: int
  debounce_ms :: u16

definition s_th :: hub_bms_thresholds where
  "s_th = \<lparr> cell_ov_mv = 4250, cell_ov_warn_mv = 4150, cell_uv_mv = 2800, cell_uv_warn_mv = 2950,
     ot_cC = 6000, ot_warn_cC = 5500, ut_cC = -1000, ut_warn_cC = -500,
     oc_dis_cA = 12000, oc_dis_warn_cA = 10000, oc_chg_cA = 2000, oc_chg_warn_cA = 1800, debounce_ms = 50 \<rparr>"

section \<open>State\<close>

record ('w, 'q, 'r) bms =
  bgw :: "('w, 'q, 'r) gateway" \<comment> \<open>the hub it runs in: buses, SPI bridge, mirror, re-arm request\<close>
  s_trip_cycles :: u32
  s_trip_flag :: bool
  bms_notified :: bool \<comment> \<open>the task notification the ISR gives\<close>
  s_cell_mv :: "u16 list"
  s_ntc_cC :: "i16 list"
  s_pack_cV :: u16
  s_curr_cA :: i16
  s_fault_bits :: u16
  s_short_latched :: bool
  s_full_scan_done :: bool
  s_tick :: u32
  s_deb :: "u16 list"
  s_tripped :: "bool list"
  s_warn_last_ms :: "u32 list"
  s_safety_low :: u8
  s_estop_seq :: u16
  s_summary_seq :: u8
  s_cells_seq :: u8
  s_stats_seq :: u8
  s_cells_group :: u8
  s_prev_can1 :: ps_can_stats
  s_prev_can2 :: ps_can_stats
  s_prev_spib :: ps_spib_stats
  mux_sel0 :: bool \<comment> \<open>levels last written to the pins\<close>
  mux_sel1 :: bool
  rearm_strobes :: nat \<comment> \<open>pulses given on the re-arm strobe pin\<close>

text \<open>What a turn uses of the platform: the transport's \<open>send\<close> and its statistics, and the record queues.\<close>

record ('w, 'q) bms_env =
  env_send :: "'w \<Rightarrow> ps_can_frame \<Rightarrow> esp_err \<times> 'w"
  env_stats :: "'w \<Rightarrow> ps_can_stats"
  env_queue :: "'q rec_queue"

definition bms_sc_latch_isr :: "u32 \<Rightarrow> ('w, 'q, 'r) bms \<Rightarrow> ('w, 'q, 'r) bms" where
  "bms_sc_latch_isr cycles b = b\<lparr>s_trip_cycles := cycles, s_trip_flag := True, bms_notified := True\<rparr>"

section \<open>Emit helpers\<close>

text \<open>Every payload is an 8-byte wire structure; its length is the code's \<open>dlc\<close>.\<close>

definition bms_record :: "int \<Rightarrow> u32 \<Rightarrow> bytes \<Rightarrow> ps_can_record" where
  "bms_record us i payload =
     \<lparr> rec_id = i, rec_bus = PS_SPI_BUS_HUB_LOCAL, rec_dlc = of_nat (length payload), rec_ts_ms = of_int (us div 1000),
       rec_data = blit 0 payload (replicate 8 0) \<rparr>"

definition bms_push_record :: "('w, 'q) bms_env \<Rightarrow> int \<Rightarrow> u32 \<Rightarrow> bytes \<Rightarrow> ('w, 'q, 'r) bms \<Rightarrow> ('w, 'q, 'r) bms" where
  "bms_push_record E us i payload b =
     b\<lparr>bgw := (bgw b)\<lparr>gw_spib := snd (ps_spib_uplink_push (env_queue E) (bms_record us i payload) (gw_spib (bgw b)))\<rparr>\<rparr>"

text \<open>The repeat loop: each round one frame on either bus, the results ignored.\<close>

fun send_rounds :: "('w \<Rightarrow> ps_can_frame \<Rightarrow> esp_err \<times> 'w) \<Rightarrow> nat \<Rightarrow> ps_can_frame \<Rightarrow> ('w, 'q, 'r) gateway \<Rightarrow> ('w, 'q, 'r) gateway" where
  "send_rounds send 0 f g = g"
| "send_rounds send (Suc n) f g =
     send_rounds send n f (let g = g\<lparr>gw_can1 := snd (send (gw_can1 g) f)\<rparr> in g\<lparr>gw_can2 := snd (send (gw_can2 g) f)\<rparr>)"

definition safety_frame :: "u8 \<Rightarrow> u8 \<Rightarrow> bytes \<Rightarrow> ps_can_frame" where
  "safety_frame ty low payload =
     \<lparr> f_id = ps_can_id_pack PS_CLS_SAFETY PS_NODE_HUB PS_NODE_BROADCAST ty low, f_dlc = of_nat (length payload),
       f_data = blit 0 payload (replicate 8 0) \<rparr>"

definition bms_send_safety_both ::
    "('w, 'q) bms_env \<Rightarrow> int \<Rightarrow> u8 \<Rightarrow> bytes \<Rightarrow> nat \<Rightarrow> ('w, 'q, 'r) bms \<Rightarrow> ('w, 'q, 'r) bms" where
  "bms_send_safety_both E us ty payload n b =
     (let f = safety_frame ty (s_safety_low b) payload;
          b = b\<lparr>s_safety_low := s_safety_low b + 1\<rparr>;
          b = b\<lparr>bgw := send_rounds (env_send E) n f (bgw b)\<rparr>
      in bms_push_record E us (f_id f) payload b)"

definition bms_raise_estop :: "('w, 'q) bms_env \<Rightarrow> int \<Rightarrow> u8 \<Rightarrow> ('w, 'q, 'r) bms \<Rightarrow> ('w, 'q, 'r) bms" where
  "bms_raise_estop E us cause b =
     (let es = \<lparr> es_cause = cause, es_origin_node = PS_NODE_HUB, es_seq = s_estop_seq b, es_uptime_ms = now_ms us \<rparr>;
          b = b\<lparr>s_estop_seq := s_estop_seq b + 1\<rparr>;
          b = bms_send_safety_both E us PS_T_ESTOP (enc_estop es) PS_ESTOP_REPEAT b
      in b\<lparr>bgw := hub_gateway_local_estop us cause (bgw b)\<rparr>)"

definition bms_warn :: "('w, 'q) bms_env \<Rightarrow> int \<Rightarrow> nat \<Rightarrow> u16 \<Rightarrow> ('w, 'q, 'r) bms \<Rightarrow> ('w, 'q, 'r) bms" where
  "bms_warn E us fam detail b =
     (let now = now_ms us in
      if now - s_warn_last_ms b ! fam < 1000 then b
      else
        let b = b\<lparr>s_warn_last_ms := (s_warn_last_ms b)[fam := now]\<rparr>;
            nf = \<lparr> nf_fault_code = 0xB0 + of_nat fam, nf_severity = 1, nf_detail = detail, nf_uptime_ms = now \<rparr>;
            i = ps_can_id_pack PS_CLS_SAFETY PS_NODE_HUB PS_NODE_ORCH PS_T_NODE_FAULT (s_safety_low b);
            b = b\<lparr>s_safety_low := s_safety_low b + 1\<rparr>
        in bms_push_record E us i (enc_node_fault nf) b)"

section \<open>Sampling\<close>

definition adc_mv :: "(nat \<Rightarrow> nat \<Rightarrow> int option) \<Rightarrow> nat \<Rightarrow> nat \<Rightarrow> rat" where
  "adc_mv adc unit chan =
     (case adc unit chan of None \<Rightarrow> - 1 | Some raw \<Rightarrow> fmul (f32 (of_int raw)) (fdiv 3300 4095))"

definition curr_cA_of :: "rat \<Rightarrow> int" where
  "curr_cA_of mv = ftrunc (fmul (fdiv (fsub mv 1650) 5) 100)"

definition bms_sample_fast :: "(nat \<Rightarrow> nat \<Rightarrow> int option) \<Rightarrow> ('w, 'q, 'r) bms \<Rightarrow> ('w, 'q, 'r) bms" where
  "bms_sample_fast adc b =
     (let mv = adc_mv adc 1 0;
          b = (if mv \<ge> 0 then b\<lparr>s_pack_cV := of_int (ftrunc (fdiv (fmul mv 21) 10))\<rparr> else b);
          mv = adc_mv adc 1 1
      in if mv \<ge> 0 then b\<lparr>s_curr_cA := of_int (curr_cA_of mv)\<rparr> else b)"

definition ntc_cC_of :: "(rat \<Rightarrow> rat) \<Rightarrow> rat \<Rightarrow> int" where
  "ntc_cC_of logf mv =
     (let r = fdiv (fmul mv 10000) (fsub 3300 mv);
          inv_t = fadd (fdiv 1 (f32 (29815 / 100))) (fdiv (logf (fdiv r 10000)) 3435)
      in ftrunc (fmul (fsub (fdiv 1 inv_t) (f32 (27315 / 100))) 100))"

text \<open>\<open>ntc_map\<close>: the unit and channel of each NTC.\<close>

definition ntc_map :: "(nat \<times> nat) list" where
  "ntc_map = [(1, 6), (1, 7), (2, 0), (2, 1)]"

definition bms_slow_slot :: "(rat \<Rightarrow> rat) \<Rightarrow> (nat \<Rightarrow> nat \<Rightarrow> int option) \<Rightarrow> ('w, 'q, 'r) bms \<Rightarrow> ('w, 'q, 'r) bms" where
  "bms_slow_slot logf adc b =
     (let slot = s_tick b mod HUB_BMS_SCAN_SLOTS;
          b = (if slot < 12 then
                 let mv = adc_mv adc 1 (2 + unat (slot AND 3))
                 in if mv \<ge> 0 then b\<lparr>s_cell_mv := (s_cell_mv b)[unat slot := of_int (ftrunc (fmul mv 2))]\<rparr> else b
               else
                 let n = unat (slot - 12); mv = adc_mv adc (fst (ntc_map ! n)) (snd (ntc_map ! n))
                 in if mv > 1 \<and> mv < fsub 3300 1 then b\<lparr>s_ntc_cC := (s_ntc_cC b)[n := of_int (ntc_cC_of logf mv)]\<rparr> else b);
          nxt = (s_tick b + 1) mod HUB_BMS_SCAN_SLOTS;
          b = (if nxt < 12 then
                 let sel = drop_bit 2 nxt in b\<lparr>mux_sel0 := sel AND 1 \<noteq> 0, mux_sel1 := drop_bit 1 sel AND 1 \<noteq> 0\<rparr>
               else b)
      in if s_tick b \<ge> 2 * HUB_BMS_SCAN_SLOTS then b\<lparr>s_full_scan_done := True\<rparr> else b)"

section \<open>Escalation\<close>

definition bms_check ::
    "('w, 'q) bms_env \<Rightarrow> int \<Rightarrow> nat \<Rightarrow> bool \<Rightarrow> bool \<Rightarrow> u8 \<Rightarrow> u16 \<Rightarrow> u16 \<Rightarrow> ('w, 'q, 'r) bms \<Rightarrow> ('w, 'q, 'r) bms" where
  "bms_check E us fam crit warn cause fbit detail b =
     (let b = (if crit then
                 if s_deb b ! fam < 0xFFFF then b\<lparr>s_deb := (s_deb b)[fam := s_deb b ! fam + 1]\<rparr> else b
               else b\<lparr>s_deb := (s_deb b)[fam := 0]\<rparr>)
      in if s_tripped b ! fam then b
         else if s_deb b ! fam \<ge> debounce_ms s_th then
           let b = b\<lparr>s_tripped := (s_tripped b)[fam := True]\<rparr>;
               b = b\<lparr>s_fault_bits := s_fault_bits b OR fbit\<rparr>
           in bms_raise_estop E us cause b
         else if warn then bms_warn E us fam detail b else b)"

definition cells_min :: "u16 list \<Rightarrow> u16" where
  "cells_min = foldl (\<lambda>m v. if v < m then v else m) 0xFFFF"

definition cells_max :: "u16 list \<Rightarrow> u16" where
  "cells_max = foldl (\<lambda>m v. if v > m then v else m) 0"

definition ntc_min :: "i16 list \<Rightarrow> i16" where
  "ntc_min ts = foldl (\<lambda>m v. if sint v < sint m then v else m) (hd ts) (tl ts)"

definition ntc_max :: "i16 list \<Rightarrow> i16" where
  "ntc_max ts = foldl (\<lambda>m v. if sint v > sint m then v else m) (hd ts) (tl ts)"

definition bms_check_thresholds :: "('w, 'q) bms_env \<Rightarrow> int \<Rightarrow> ('w, 'q, 'r) bms \<Rightarrow> ('w, 'q, 'r) bms" where
  "bms_check_thresholds E us b =
     (if \<not> s_full_scan_done b then b
      else
        let vmin = cells_min (s_cell_mv b); vmax = cells_max (s_cell_mv b);
            tmin = ntc_min (s_ntc_cC b); tmax = ntc_max (s_ntc_cC b); curr = s_curr_cA b;
            b = bms_check E us FAM_OV (vmax > cell_ov_mv s_th) (vmax > cell_ov_warn_mv s_th) PS_ESTOP_BMS_OVERVOLT PS_BMSF_OV vmax b;
            b = bms_check E us FAM_UV (vmin < cell_uv_mv s_th) (vmin < cell_uv_warn_mv s_th) PS_ESTOP_BMS_UNDERVOLT PS_BMSF_UV vmin b;
            b = bms_check E us FAM_OT (sint tmax > ot_cC s_th) (sint tmax > ot_warn_cC s_th) PS_ESTOP_THERMAL PS_BMSF_OT tmax b;
            b = bms_check E us FAM_UT (sint tmin < ut_cC s_th) (sint tmin < ut_warn_cC s_th) PS_ESTOP_THERMAL PS_BMSF_UT tmin b;
            b = bms_check E us FAM_OCD (sint curr > oc_dis_cA s_th) (sint curr > oc_dis_warn_cA s_th) PS_ESTOP_THERMAL PS_BMSF_OC_DISCHARGE curr b
        in bms_check E us FAM_OCC (- sint curr > oc_chg_cA s_th) (- sint curr > oc_chg_warn_cA s_th) PS_ESTOP_THERMAL PS_BMSF_OC_CHARGE (- curr) b)"

section \<open>The short-circuit observer and the re-arm\<close>

definition bms_handle_short_trip :: "('w, 'q) bms_env \<Rightarrow> int \<Rightarrow> ('w, 'q, 'r) bms \<Rightarrow> ('w, 'q, 'r) bms" where
  "bms_handle_short_trip E us b =
     (if \<not> s_trip_flag b then b
      else
        let b = b\<lparr>s_trip_flag := False\<rparr>;
            b = b\<lparr>s_short_latched := True\<rparr>;
            b = b\<lparr>s_fault_bits := s_fault_bits b OR PS_BMSF_SHORT_LATCH\<rparr>;
            b = b\<lparr>s_fault_bits := s_fault_bits b AND NOT PS_BMSF_COMP_ARMED\<rparr>
        in bms_raise_estop E us PS_ESTOP_BMS_SHORT b)"

text \<open>\<open>comp_out\<close> is the comparator output before the strobe, \<open>kill_fb\<close> the gate feedback after it.\<close>

definition bms_try_rearm :: "('w, 'q) bms_env \<Rightarrow> int \<Rightarrow> bool \<Rightarrow> bool \<Rightarrow> ('w, 'q, 'r) bms \<Rightarrow> ('w, 'q, 'r) bms" where
  "bms_try_rearm E us comp_out kill_fb b =
     (if \<not> s_rearm_requested (bgw b) then b
      else if hub_gateway_safety_state (bgw b) \<noteq> PS_STATE_STANDBY then b
      else
        let b = b\<lparr>bgw := (bgw b)\<lparr>s_rearm_requested := False\<rparr>\<rparr> in
        if \<not> s_short_latched b then
          b\<lparr>s_tripped := replicate 6 False, s_deb := replicate 6 0,
            s_fault_bits := s_fault_bits b AND
              NOT (PS_BMSF_OV OR PS_BMSF_UV OR PS_BMSF_OT OR PS_BMSF_UT OR PS_BMSF_OC_CHARGE OR PS_BMSF_OC_DISCHARGE)\<rparr>
        else if comp_out then bms_warn E us FAM_OCD 0xFFFF b
        else
          let b = b\<lparr>rearm_strobes := rearm_strobes b + 1\<rparr> in
          if kill_fb then
            b\<lparr>s_short_latched := False,
              s_fault_bits := (s_fault_bits b AND NOT PS_BMSF_SHORT_LATCH) OR PS_BMSF_COMP_ARMED,
              s_tripped := replicate 6 False, s_deb := replicate 6 0\<rparr>
          else b)"

section \<open>Reports\<close>

definition bms_soc_estimate :: "u16 list \<Rightarrow> u8" where
  "bms_soc_estimate cells =
     (let sum = foldl (\<lambda>s v. s + ucast v) (0 :: u32) cells;
          avg = sint (sum div 12);
          soc = ((avg - 3000) * 100) sdiv 1200;
          soc = (if soc < 0 then 0 else soc);
          soc = (if soc > 100 then 100 else soc)
      in of_int soc)"

definition report_summary :: "('w, 'q) bms_env \<Rightarrow> int \<Rightarrow> ('w, 'q, 'r) bms \<Rightarrow> ('w, 'q, 'r) bms" where
  "report_summary E us b =
     (let tC = sint (ntc_max (s_ntc_cC b)) sdiv 100;
          sum = \<lparr> bs_pack_cV = s_pack_cV b, bs_current_cA = s_curr_cA b, bs_soc_pct = bms_soc_estimate (s_cell_mv b),
                  bs_temp_max_C = of_int (if tC > 127 then 127 else if tC < - 128 then - 128 else tC), bs_fault_bits = s_fault_bits b \<rparr>;
          i = ps_can_id_pack PS_CLS_TELEM PS_NODE_HUB PS_NODE_ORCH PS_T_BMS_SUMMARY (s_summary_seq b);
          b = b\<lparr>s_summary_seq := s_summary_seq b + 1\<rparr>
      in bms_push_record E us i (enc_bms_summary sum) b)"

definition report_cells :: "('w, 'q) bms_env \<Rightarrow> int \<Rightarrow> ('w, 'q, 'r) bms \<Rightarrow> ('w, 'q, 'r) bms" where
  "report_cells E us b =
     (let g = s_cells_group b; b = b\<lparr>s_cells_group := (g + 1) mod 4\<rparr>; k = 3 * unat g;
          cells = \<lparr> bc_group = g, bc_rsvd = 0, bc_mv0 = s_cell_mv b ! k, bc_mv1 = s_cell_mv b ! (k + 1), bc_mv2 = s_cell_mv b ! (k + 2) \<rparr>;
          i = ps_can_id_pack PS_CLS_TELEM PS_NODE_HUB PS_NODE_ORCH PS_T_BMS_CELLS (s_cells_seq b);
          b = b\<lparr>s_cells_seq := s_cells_seq b + 1\<rparr>
      in bms_push_record E us i (enc_bms_cells cells) b)"

definition report_stats :: "('w, 'q) bms_env \<Rightarrow> int \<Rightarrow> ('w, 'q, 'r) bms \<Rightarrow> ('w, 'q, 'r) bms" where
  "report_stats E us b =
     (let c1 = env_stats E (gw_can1 (bgw b)); c2 = env_stats E (gw_can2 (bgw b)); sb = ps_spib_get_stats (gw_spib (bgw b));
          rx = (rx_frames c1 - rx_frames (s_prev_can1 b)) + (rx_frames c2 - rx_frames (s_prev_can2 b));
          tx = (tx_frames c1 - tx_frames (s_prev_can1 b)) + (tx_frames c2 - tx_frames (s_prev_can2 b));
          err = bus_errors c1 + bus_errors c2 + rx_dropped c1 + rx_dropped c2 + crc_errors sb + seq_gaps sb + uplink_overflows sb;
          b = b\<lparr>s_prev_can1 := c1, s_prev_can2 := c2, s_prev_spib := sb\<rparr>;
          st = \<lparr> ns_cpu_pct = 0, ns_state = hub_gateway_safety_state (bgw b), ns_rx_fps = sat16 rx, ns_tx_fps = sat16 tx, ns_err_cnt = sat16 err \<rparr>;
          i = ps_can_id_pack PS_CLS_TELEM PS_NODE_HUB PS_NODE_ORCH PS_T_NODE_STATS (s_stats_seq b);
          b = b\<lparr>s_stats_seq := s_stats_seq b + 1\<rparr>
      in bms_push_record E us i (enc_node_stats st) b)"

definition report_version :: "('w, 'q) bms_env \<Rightarrow> int \<Rightarrow> ('w, 'q, 'r) bms \<Rightarrow> ('w, 'q, 'r) bms" where
  "report_version E us b =
     bms_push_record E us (ps_can_id_pack PS_CLS_MGMT PS_NODE_HUB PS_NODE_ORCH PS_T_VERSION 0)
       (enc_version \<lparr> vn_major = 0, vn_minor = 1, vn_patch = 0, vn_node_state = hub_gateway_safety_state (bgw b), vn_git_short = 0 \<rparr>) b"

definition bms_reports :: "('w, 'q) bms_env \<Rightarrow> int \<Rightarrow> ('w, 'q, 'r) bms \<Rightarrow> ('w, 'q, 'r) bms" where
  "bms_reports E us b =
     (let b = (if s_tick b mod 100 = 0 then report_summary E us b else b);
          b = (if s_tick b mod 1000 = 250 then report_cells E us b else b);
          b = (if s_tick b mod 1000 = 500 then report_stats E us b else b)
      in if s_tick b mod 1000 = 750 then report_version E us b else b)"

section \<open>The task and its start\<close>

record bms_in =
  in_adc :: "nat \<Rightarrow> nat \<Rightarrow> int option"
  in_comp :: bool
  in_kill_fb :: bool

definition bms_task_turn ::
    "('w, 'q) bms_env \<Rightarrow> (rat \<Rightarrow> rat) \<Rightarrow> int \<Rightarrow> bms_in \<Rightarrow> ('w, 'q, 'r) bms \<Rightarrow> ('w, 'q, 'r) bms" where
  "bms_task_turn E logf us i b =
     (let notified = bms_notified b;
          b = b\<lparr>bms_notified := False\<rparr>;
          b = (if notified then bms_handle_short_trip E us b else b);
          b = b\<lparr>s_tick := s_tick b + 1\<rparr>;
          b = bms_sample_fast (in_adc i) b;
          b = bms_slow_slot logf (in_adc i) b;
          b = bms_check_thresholds E us b;
          b = bms_reports E us b
      in bms_try_rearm E us (in_comp i) (in_kill_fb i) b)"

text \<open>\<open>ESP_RETURN_ON_ERROR\<close> over a sequence of calls: the first result that is not OK.\<close>

fun first_error :: "esp_err list \<Rightarrow> esp_err" where
  "first_error [] = ESP_OK"
| "first_error (e # es) = (if e \<noteq> ESP_OK then e else first_error es)"

text \<open>Two units, eight channels of the first, two of the second.\<close>

definition bms_adc_init :: "esp_err list \<Rightarrow> esp_err" where
  "bms_adc_init results = first_error (take 12 results)"

record bms_start_env =
  gpio_errs :: "esp_err list" \<comment> \<open>inputs, outputs, latch\<close>
  adc_errs :: "esp_err list"
  latch_level :: bool
  bms_task_created :: bool
  isr_add_err :: esp_err

text \<open>The handles, when given, are the gateway's: \<open>app_main\<close> passes the same two to both.\<close>

definition hub_bms_start :: "bms_start_env \<Rightarrow> bool \<Rightarrow> bool \<Rightarrow> ('w, 'q, 'r) bms \<Rightarrow> esp_err \<times> ('w, 'q, 'r) bms" where
  "hub_bms_start env can1_given can2_given b =
     (if \<not> can1_given \<or> \<not> can2_given then (ESP_ERR_INVALID_ARG, b)
      else
          if first_error (take 1 (gpio_errs env)) \<noteq> ESP_OK then (first_error (take 1 (gpio_errs env)), b)
          else if first_error (take 2 (gpio_errs env)) \<noteq> ESP_OK then (first_error (take 2 (gpio_errs env)), b)
          else
            let b = b\<lparr>mux_sel0 := False, mux_sel1 := False\<rparr> in
            if first_error (take 3 (gpio_errs env)) \<noteq> ESP_OK then (first_error (take 3 (gpio_errs env)), b)
            else if bms_adc_init (adc_errs env) \<noteq> ESP_OK then (bms_adc_init (adc_errs env), b)
            else
              let b = b\<lparr>s_ntc_cC := replicate 4 2500\<rparr>;
                  b = (if latch_level env then b\<lparr>s_fault_bits := s_fault_bits b OR PS_BMSF_COMP_ARMED\<rparr>
                       else b\<lparr>s_short_latched := True, s_fault_bits := s_fault_bits b OR PS_BMSF_SHORT_LATCH\<rparr>)
              in if \<not> bms_task_created env then (ESP_ERR_NO_MEM, b)
                 else if isr_add_err env \<noteq> ESP_OK then (isr_add_err env, b)
                 else (ESP_OK, b))"

section \<open>What the helpers leave alone\<close>

lemma send_rounds_fields [simp]:
  "s_mirror (send_rounds send n f g) = s_mirror g" "s_rearm_requested (send_rounds send n f g) = s_rearm_requested g"
  "gw_spib (send_rounds send n f g) = gw_spib g" "s_last_pub_state (send_rounds send n f g) = s_last_pub_state g"
  by (induction n arbitrary: g) (simp_all add: Let_def)

lemma local_estop_fields [simp]:
  "s_rearm_requested (hub_gateway_local_estop us k g) = s_rearm_requested g"
  "s_mirror (hub_gateway_local_estop us k g) = ps_safety_core_on_estop (s_mirror g) (now_ms us) k"
  "gw_can1 (hub_gateway_local_estop us k g) = gw_can1 g" "gw_can2 (hub_gateway_local_estop us k g) = gw_can2 g"
  "s_uplink_q (gw_spib (hub_gateway_local_estop us k g)) = s_uplink_q (gw_spib g)"
  "s_overflow_pending (gw_spib (hub_gateway_local_estop us k g)) = s_overflow_pending (gw_spib g)"
  by (simp_all add: hub_gateway_local_estop_def mirror_update_def mirror_locked_def publish_defs ps_safety_core_on_local_fault_def ps_spib_set_flag_def Let_def)

text \<open>The part of the state the trips and the re-arm turn on.\<close>

definition core_view :: "('w, 'q, 'r) bms \<Rightarrow> bool \<times> nat \<times> bool \<times> ps_safety_core \<times> u32" where
  "core_view b = (s_short_latched b, rearm_strobes b, s_rearm_requested (bgw b), s_mirror (bgw b), s_tick b)"

lemma push_record_view [simp]: "core_view (bms_push_record E us i p b) = core_view b"
  "s_deb (bms_push_record E us i p b) = s_deb b" "s_tripped (bms_push_record E us i p b) = s_tripped b"
  "s_fault_bits (bms_push_record E us i p b) = s_fault_bits b" "s_safety_low (bms_push_record E us i p b) = s_safety_low b"
  "s_estop_seq (bms_push_record E us i p b) = s_estop_seq b"
  by (simp_all add: bms_push_record_def core_view_def)

lemma warn_view [simp]: "core_view (bms_warn E us fam d b) = core_view b"
  "s_deb (bms_warn E us fam d b) = s_deb b" "s_tripped (bms_warn E us fam d b) = s_tripped b" "s_fault_bits (bms_warn E us fam d b) = s_fault_bits b"
  by (simp_all add: bms_warn_def Let_def) (simp add: core_view_def)

lemma raise_estop_view [simp]:
  "core_view (bms_raise_estop E us k b) = (case core_view b of (l, n, r, c, t) \<Rightarrow> (l, n, r, ps_safety_core_on_estop c (now_ms us) k, t))"
  "s_deb (bms_raise_estop E us k b) = s_deb b" "s_tripped (bms_raise_estop E us k b) = s_tripped b" "s_fault_bits (bms_raise_estop E us k b) = s_fault_bits b"
  by (simp_all add: bms_raise_estop_def bms_send_safety_both_def bms_push_record_def core_view_def Let_def)

lemma sample_view [simp]: "core_view (bms_sample_fast adc b) = core_view b" "core_view (bms_slow_slot lg adc b) = core_view b"
  by (simp_all add: bms_sample_fast_def bms_slow_slot_def core_view_def Let_def)

lemma reports_view [simp]: "core_view (bms_reports E us b) = core_view b"
proof -
  have "core_view (report_summary E us b) = core_view b" "core_view (report_cells E us b) = core_view b"
    "core_view (report_stats E us b) = core_view b" "core_view (report_version E us b) = core_view b" for b :: "('a, 'b, 'c) bms"
    by (simp_all add: report_summary_def report_cells_def report_stats_def report_version_def Let_def) (simp_all add: core_view_def)
  then show ?thesis by (simp add: bms_reports_def Let_def)
qed

text \<open>A check either keeps that part or stops the mirror.\<close>

definition stops :: "u32 \<Rightarrow> bool \<times> nat \<times> bool \<times> ps_safety_core \<times> u32 \<Rightarrow> bool \<times> nat \<times> bool \<times> ps_safety_core \<times> u32 \<Rightarrow> bool" where
  "stops t v v' \<longleftrightarrow> v' = v \<or> (\<exists>l n r c k. v = (l, n, r, c, k) \<and> (\<exists>c'. latched c' \<and> v' = (l, n, r, c', k)))"

lemma stops_refl [simp]: "stops t v v"
  by (simp add: stops_def)

lemma stops_trans: "stops t v v' \<Longrightarrow> stops t v' v'' \<Longrightarrow> stops t v v''"
  by (auto simp: stops_def)

lemma check_stops: "stops (now_ms us) (core_view b) (core_view (bms_check E us fam crit warn cause fb d b))"
proof -
  have e: "core_view (b\<lparr>s_deb := x\<rparr>) = core_view b" "core_view (b\<lparr>s_deb := x, s_tripped := y, s_fault_bits := z\<rparr>) = core_view b"
    "core_view (b\<lparr>s_tripped := y, s_fault_bits := z\<rparr>) = core_view b" for x y z
    by (simp_all add: core_view_def)
  show ?thesis
    using on_estop_latched
    by (cases "core_view b") (auto simp: bms_check_def Let_def e stops_def)
qed

lemma thresholds_stop: "stops (now_ms us) (core_view b) (core_view (bms_check_thresholds E us b))"
proof (cases "s_full_scan_done b")
  case True
  show ?thesis unfolding bms_check_thresholds_def Let_def
    by (simp only: True not_True_eq_False if_False) ((rule stops_trans [OF _ check_stops])+, rule stops_refl)
qed (simp add: bms_check_thresholds_def)

section \<open>A turn as a whole\<close>

text \<open>The state before the re-arm attempt of a turn.\<close>

definition turn_checks :: "('w, 'q) bms_env \<Rightarrow> (rat \<Rightarrow> rat) \<Rightarrow> int \<Rightarrow> bms_in \<Rightarrow> ('w, 'q, 'r) bms \<Rightarrow> ('w, 'q, 'r) bms" where
  "turn_checks E logf us i b =
     bms_reports E us (bms_check_thresholds E us (bms_slow_slot logf (in_adc i) (bms_sample_fast (in_adc i)
       (let c = (if bms_notified b then bms_handle_short_trip E us (b\<lparr>bms_notified := False\<rparr>) else b\<lparr>bms_notified := False\<rparr>)
        in c\<lparr>s_tick := s_tick c + 1\<rparr>))))"

lemma turn_split: "bms_task_turn E logf us i b = bms_try_rearm E us (in_comp i) (in_kill_fb i) (turn_checks E logf us i b)"
  by (simp add: bms_task_turn_def turn_checks_def Let_def)

lemma short_trip_view:
  "core_view (bms_handle_short_trip E us b) =
     (if s_trip_flag b then (case core_view b of (l, n, r, c, t) \<Rightarrow> (True, n, r, ps_safety_core_on_estop c (now_ms us) PS_ESTOP_BMS_SHORT, t))
      else core_view b)"
  by (simp add: bms_handle_short_trip_def Let_def) (simp add: core_view_def)

lemma turn_checks_view:
  assumes "core_view b = (l, n, r, c, t)" "core_view (turn_checks E logf us i b) = (l', n', r', c', t')"
  shows "n' = n" "r' = r" "l' = (l \<or> bms_notified b \<and> s_trip_flag b)" "c' = c \<or> latched c'"
    "bms_notified b \<and> s_trip_flag b \<Longrightarrow> latched c'"
proof -
  let ?b = "b\<lparr>bms_notified := False\<rparr>"
  let ?c = "if bms_notified b then bms_handle_short_trip E us ?b else ?b"
  have v: "core_view ?c = (if bms_notified b \<and> s_trip_flag b
      then (True, n, r, ps_safety_core_on_estop c (now_ms us) PS_ESTOP_BMS_SHORT, t) else (l, n, r, c, t))"
  proof -
    have "core_view ?b = (l, n, r, c, t)" using assms(1) by (simp add: core_view_def)
    then show ?thesis using short_trip_view [of E us ?b] by simp
  qed
  obtain u where u: "core_view (?c\<lparr>s_tick := s_tick ?c + 1\<rparr>) = (if bms_notified b \<and> s_trip_flag b
      then (True, n, r, ps_safety_core_on_estop c (now_ms us) PS_ESTOP_BMS_SHORT, u) else (l, n, r, c, u))"
    using v by (simp add: core_view_def split: if_splits)
  have "stops (now_ms us) (core_view (?c\<lparr>s_tick := s_tick ?c + 1\<rparr>)) (l', n', r', c', t')"
    using thresholds_stop [of us "bms_slow_slot logf (in_adc i) (bms_sample_fast (in_adc i) (?c\<lparr>s_tick := s_tick ?c + 1\<rparr>))" E] assms(2)
    unfolding turn_checks_def Let_def by (simp only: reports_view sample_view)
  then show "n' = n" "r' = r" "l' = (l \<or> bms_notified b \<and> s_trip_flag b)" "c' = c \<or> latched c'" "bms_notified b \<and> s_trip_flag b \<Longrightarrow> latched c'"
    using on_estop_latched unfolding u by (auto simp: stops_def split: if_splits)
qed

section \<open>Debouncing\<close>

text \<open>A family checked again and again: time, critical, warning, detail of each check.\<close>

definition check_run ::
    "('w, 'q) bms_env \<Rightarrow> nat \<Rightarrow> u8 \<Rightarrow> u16 \<Rightarrow> (int \<times> bool \<times> bool \<times> u16) list \<Rightarrow> ('w, 'q, 'r) bms \<Rightarrow> ('w, 'q, 'r) bms" where
  "check_run E fam cause fbit cs b = foldl (\<lambda>b (us, crit, warn, d). bms_check E us fam crit warn cause fbit d b) b cs"

text \<open>The number of critical checks at the end of a run.\<close>

definition trailing :: "bool list \<Rightarrow> nat" where
  "trailing cs = length (takeWhile (\<lambda>c. c) (rev cs))"

lemma trailing_simps [simp]: "trailing [] = 0" "trailing (cs @ [c]) = (if c then Suc (trailing cs) else 0)"
  by (simp_all add: trailing_def)

lemma trailing_suffix: "(\<exists>xs. cs = xs @ replicate n True) \<longleftrightarrow> n \<le> trailing cs"
proof (induction cs arbitrary: n rule: rev_induct)
  case (snoc c cs)
  show ?case
  proof (cases n)
    case (Suc m)
    have "(\<exists>xs. cs @ [c] = xs @ replicate (Suc m) True) \<longleftrightarrow> c \<and> (\<exists>xs. cs = xs @ replicate m True)"
      by (auto simp: replicate_append_same [symmetric])
    then show ?thesis using snoc Suc by auto
  qed simp
qed simp

lemma run_of_True_snoc:
  "0 < n \<Longrightarrow> (\<exists>xs ys. cs @ [c] = xs @ replicate n True @ ys) \<longleftrightarrow> (\<exists>xs ys. cs = xs @ replicate n True @ ys) \<or> n \<le> trailing (cs @ [c])"
proof -
  have "(\<exists>xs ys. cs @ [c] = xs @ replicate n True @ ys) \<longleftrightarrow>
     (\<exists>xs ys. cs = xs @ replicate n True @ ys) \<or> (\<exists>xs. cs @ [c] = xs @ replicate n True)"
  proof
    assume "\<exists>xs ys. cs @ [c] = xs @ replicate n True @ ys"
    then obtain xs ys where e: "cs @ [c] = xs @ replicate n True @ ys" by blast
    show "(\<exists>xs ys. cs = xs @ replicate n True @ ys) \<or> (\<exists>xs. cs @ [c] = xs @ replicate n True)"
    proof (cases ys rule: rev_exhaust)
      case Nil
      then show ?thesis using e by auto
    next
      case (snoc zs z)
      then have "cs = xs @ replicate n True @ zs" using e by simp
      then show ?thesis by blast
    qed
  next
    assume "(\<exists>xs ys. cs = xs @ replicate n True @ ys) \<or> (\<exists>xs. cs @ [c] = xs @ replicate n True)"
    then show "\<exists>xs ys. cs @ [c] = xs @ replicate n True @ ys" by (metis append.assoc append_Nil2)
  qed
  then show ?thesis by (simp only: trailing_suffix)
qed

lemma check_effect:
  assumes "fam < length (s_deb b)" "fam < length (s_tripped b)"
    and n_def: "n = (if crit then if s_deb b ! fam < 0xFFFF then s_deb b ! fam + 1 else s_deb b ! fam else 0)"
  shows "s_deb (bms_check E us fam crit warn cause fbit d b) ! fam = n"
    "s_tripped (bms_check E us fam crit warn cause fbit d b) ! fam \<longleftrightarrow> s_tripped b ! fam \<or> 50 \<le> n"
    "length (s_deb (bms_check E us fam crit warn cause fbit d b)) = length (s_deb b)"
    "length (s_tripped (bms_check E us fam crit warn cause fbit d b)) = length (s_tripped b)"
    "\<not> s_tripped b ! fam \<Longrightarrow> 50 \<le> n \<Longrightarrow> latched (s_mirror (bgw (bms_check E us fam crit warn cause fbit d b)))"
    "latched (s_mirror (bgw b)) \<Longrightarrow> latched (s_mirror (bgw (bms_check E us fam crit warn cause fbit d b)))"
proof -
  show "s_deb (bms_check E us fam crit warn cause fbit d b) ! fam = n"
    "s_tripped (bms_check E us fam crit warn cause fbit d b) ! fam \<longleftrightarrow> s_tripped b ! fam \<or> 50 \<le> n"
    "length (s_deb (bms_check E us fam crit warn cause fbit d b)) = length (s_deb b)"
    "length (s_tripped (bms_check E us fam crit warn cause fbit d b)) = length (s_tripped b)"
    using assms by (auto simp: bms_check_def n_def s_th_def Let_def)
  have m: "s_mirror (bgw (bms_raise_estop E us k x)) = ps_safety_core_on_estop (s_mirror (bgw x)) (now_ms us) k" for k and x :: "('a, 'b, 'c) bms"
    using raise_estop_view(1) [of E us k x] by (simp add: core_view_def)
  show "\<not> s_tripped b ! fam \<Longrightarrow> 50 \<le> n \<Longrightarrow> latched (s_mirror (bgw (bms_check E us fam crit warn cause fbit d b)))"
    using assms(1,2) on_estop_latched by (auto simp: bms_check_def n_def s_th_def Let_def m split: if_splits)
  show "latched (s_mirror (bgw b)) \<Longrightarrow> latched (s_mirror (bgw (bms_check E us fam crit warn cause fbit d b)))"
    using check_stops [of us b E fam crit warn cause fbit d] by (auto simp: stops_def core_view_def)
qed

lemma check_run_state:
  assumes "fam < length (s_deb b)" "fam < length (s_tripped b)" "s_deb b ! fam = 0" "\<not> s_tripped b ! fam"
    and b'_def: "b' = (\<lambda>cs. check_run E fam cause fbit cs b)"
  shows "unat (s_deb (b' cs) ! fam) = min 65535 (trailing (map (\<lambda>c. fst (snd c)) cs)) \<and>
    length (s_deb (b' cs)) = length (s_deb b) \<and> length (s_tripped (b' cs)) = length (s_tripped b) \<and>
    (s_tripped (b' cs) ! fam \<longleftrightarrow> (\<exists>xs ys. map (\<lambda>c. fst (snd c)) cs = xs @ replicate 50 True @ ys)) \<and>
    (s_tripped (b' cs) ! fam \<longrightarrow> latched (s_mirror (bgw (b' cs))))"
proof (induction cs rule: rev_induct)
  case Nil
  then show ?case using assms(1-4) by (simp add: b'_def check_run_def)
next
  case (snoc x cs)
  obtain us crit warn d where x: "x = (us, crit, warn, d)" by (cases x)
  let ?b = "b' cs" and ?cs = "map (\<lambda>c. fst (snd c)) cs"
  let ?n = "if crit then if s_deb ?b ! fam < 0xFFFF then s_deb ?b ! fam + 1 else s_deb ?b ! fam else 0"
  have e: "b' (cs @ [x]) = bms_check E us fam crit warn cause fbit d ?b" by (simp add: b'_def check_run_def x)
  have l: "fam < length (s_deb ?b)" "fam < length (s_tripped ?b)" using snoc assms(1,2) by simp_all
  note ce = check_effect [OF l HOL.refl, where E = E and us = us and crit = crit and warn = warn and cause = cause and fbit = fbit and d = d]
  have n: "unat ?n = min 65535 (trailing (?cs @ [crit]))"
  proof (cases "crit \<and> s_deb ?b ! fam < 0xFFFF")
    case True
    then have "unat (s_deb ?b ! fam) < 65535" by (simp add: word_less_nat_alt)
    moreover from this have "unat (s_deb ?b ! fam + 1) = unat (s_deb ?b ! fam) + 1" by (simp add: unat_word_ariths)
    ultimately show ?thesis using True snoc by simp
  next
    case False
    then show ?thesis using snoc by (auto simp: word_less_nat_alt)
  qed
  then have "50 \<le> ?n \<longleftrightarrow> 50 \<le> trailing (?cs @ [crit])" by (simp only: word_le_nat_alt) simp
  moreover have "map (\<lambda>c. fst (snd c)) (cs @ [x]) = ?cs @ [crit]" by (simp add: x)
  moreover have "s_tripped (b' (cs @ [x])) ! fam \<longrightarrow> latched (s_mirror (bgw (b' (cs @ [x]))))"
    unfolding e ce(2) using ce(5,6) snoc by blast
  ultimately show ?case unfolding e ce(1-4) using n snoc run_of_True_snoc [of 50 ?cs crit] by simp
qed

section \<open>Both buses\<close>

lemma replicate_mset_add: "replicate_mset (m + n) x = replicate_mset m x + replicate_mset n x"
  by (induction m) simp_all

context can_port
begin

lemma send_rounds_outbox:
  assumes "inv (gw_can1 g)" "inv (gw_can2 g)" "length (f_data f) = 8"
  shows "\<exists>k1 \<le> n. \<exists>k2 \<le> n. outbox (gw_can1 (send_rounds send n f g)) = outbox (gw_can1 g) + replicate_mset k1 (wire_image f) \<and>
    outbox (gw_can2 (send_rounds send n f g)) = outbox (gw_can2 g) + replicate_mset k2 (wire_image f)"
  using assms(1,2)
proof (induction n arbitrary: g)
  case (Suc n)
  let ?g = "let g = g\<lparr>gw_can1 := snd (send (gw_can1 g) f)\<rparr> in g\<lparr>gw_can2 := snd (send (gw_can2 g) f)\<rparr>"
  have one: "\<exists>k \<le> 1. outbox (snd (send w f)) = outbox w + replicate_mset k (wire_image f)" if "inv w" for w
    using send_ok [OF that assms(3)] send_refused [OF that, of f]
    by (cases "fst (send w f) = ESP_OK") (force intro: exI [of _ 1], force intro: exI [of _ 0])
  obtain a1 a2 where a: "a1 \<le> 1" "a2 \<le> 1" "outbox (gw_can1 ?g) = outbox (gw_can1 g) + replicate_mset a1 (wire_image f)"
    "outbox (gw_can2 ?g) = outbox (gw_can2 g) + replicate_mset a2 (wire_image f)"
    using one [OF Suc.prems(1)] one [OF Suc.prems(2)] by (auto simp: Let_def)
  have "inv (gw_can1 ?g)" "inv (gw_can2 ?g)" using Suc.prems inv_send by (simp_all add: Let_def)
  from Suc.IH [OF this] obtain k1 k2 where "k1 \<le> n" "k2 \<le> n"
    "outbox (gw_can1 (send_rounds send n f ?g)) = outbox (gw_can1 g) + replicate_mset (a1 + k1) (wire_image f)"
    "outbox (gw_can2 (send_rounds send n f ?g)) = outbox (gw_can2 g) + replicate_mset (a2 + k2) (wire_image f)"
    using a(3,4) by (auto simp: replicate_mset_add ac_simps)
  moreover from this(1,2) a(1,2) have "a1 + k1 \<le> Suc n" "a2 + k2 \<le> Suc n" by simp_all
  ultimately show ?case unfolding send_rounds.simps by blast
qed simp

end

section \<open>Properties\<close>

text \<open>A short is never missed nor forgotten: in the turn after the latch interrupt the hub is latched in ESTOP and
  remembers the short, whatever else that turn finds and whatever re-arm is pending.\<close>

lemma short_trip_latches:
  assumes "b' = bms_task_turn E logf us i (bms_sc_latch_isr cycles b)"
  shows "s_short_latched b' \<and> latched (s_mirror (bgw b'))"
proof -
  let ?b = "bms_sc_latch_isr cycles b" and ?c = "turn_checks E logf us i (bms_sc_latch_isr cycles b)"
  obtain l n r c t where v: "core_view ?b = (l, n, r, c, t)" by (cases "core_view ?b") auto
  obtain l' n' r' c' t' where v': "core_view ?c = (l', n', r', c', t')" by (cases "core_view ?c") auto
  have "l'" "latched c'" using turn_checks_view(3,5) [OF v v'] by (simp_all add: bms_sc_latch_isr_def)
  then have "s_short_latched ?c" "latched (s_mirror (bgw ?c))" using v' by (simp_all add: core_view_def)
  then show ?thesis unfolding assms turn_split
    by (simp add: bms_try_rearm_def hub_gateway_safety_state_def latched_def)
qed

text \<open>Claim C15. The interlocked re-arm: the short latch is given up in a turn only when a CLEAR_ESTOP was accepted since the last
  attempt, the suit is in STANDBY, the comparator is below its threshold and the gate reports closed after the strobe; the strobe
  pulses only under the first three. And only an accepted CLEAR_ESTOP makes the request.\<close>

theorem short_rearm_interlock:
  assumes "b' = bms_task_turn E logf us i b" "g' = gw_local_dispatch us f g"
  shows "(s_short_latched b \<and> \<not> s_short_latched b' \<longrightarrow> in_kill_fb i \<and> rearm_strobes b' = rearm_strobes b + 1) \<and>
    (rearm_strobes b' \<noteq> rearm_strobes b \<longrightarrow> s_rearm_requested (bgw b) \<and> \<not> s_rearm_requested (bgw b') \<and>
       hub_gateway_safety_state (bgw b) = PS_STATE_STANDBY \<and> \<not> in_comp i) \<and>
    (\<not> s_rearm_requested g \<and> s_rearm_requested g' \<longrightarrow>
       ps_can_id_cls (f_id f) = PS_CLS_SAFETY \<and> ps_can_id_type (f_id f) = PS_T_CLEAR_ESTOP \<and>
       (\<exists>k. clear_counter (s_mirror g) < k \<and> PS_WIRE_READ dec_clear_estop (f_data f) = \<lparr>ce_magic = PS_CLEAR_ESTOP_MAGIC, ce_counter = k\<rparr>))"
proof (intro conjI)
  let ?c = "turn_checks E logf us i b"
  obtain l n r c t where v: "core_view b = (l, n, r, c, t)" by (cases "core_view b") auto
  obtain l' n' r' c' t' where v': "core_view ?c = (l', n', r', c', t')" by (cases "core_view ?c") auto
  note tv = turn_checks_view [OF v v']
  have e: "rearm_strobes ?c = rearm_strobes b" "s_rearm_requested (bgw ?c) = s_rearm_requested (bgw b)"
    "s_short_latched b \<Longrightarrow> s_short_latched ?c"
    "hub_gateway_safety_state (bgw ?c) = PS_STATE_STANDBY \<Longrightarrow> hub_gateway_safety_state (bgw b) = PS_STATE_STANDBY"
    using tv(1-4) v v' by (auto simp: core_view_def hub_gateway_safety_state_def latched_def)
  have w: "rearm_strobes (bms_warn E us fam d x) = rearm_strobes x" "s_short_latched (bms_warn E us fam d x) = s_short_latched x"
    for fam d and x :: "('a, 'b, 'c) bms"
    using warn_view(1) [of E us fam d x] by (simp_all add: core_view_def)
  show "s_short_latched b \<and> \<not> s_short_latched b' \<longrightarrow> in_kill_fb i \<and> rearm_strobes b' = rearm_strobes b + 1"
    "rearm_strobes b' \<noteq> rearm_strobes b \<longrightarrow> s_rearm_requested (bgw b) \<and> \<not> s_rearm_requested (bgw b') \<and>
       hub_gateway_safety_state (bgw b) = PS_STATE_STANDBY \<and> \<not> in_comp i"
    unfolding assms(1) turn_split using e by (auto simp: bms_try_rearm_def Let_def w split: if_splits)
  have m: "s_rearm_requested (mirror_update h x) = s_rearm_requested x" "s_rearm_requested (mirror_publish st x) = s_rearm_requested x"
    for h st and x :: "('d, 'e, 'f) gateway" by (simp_all add: mirror_update_def mirror_locked_def publish_defs Let_def)
  show "\<not> s_rearm_requested g \<and> s_rearm_requested g' \<longrightarrow>
       ps_can_id_cls (f_id f) = PS_CLS_SAFETY \<and> ps_can_id_type (f_id f) = PS_T_CLEAR_ESTOP \<and>
       (\<exists>k. clear_counter (s_mirror g) < k \<and> PS_WIRE_READ dec_clear_estop (f_data f) = \<lparr>ce_magic = PS_CLEAR_ESTOP_MAGIC, ce_counter = k\<rparr>)"
    unfolding assms(2)
    by (cases "PS_WIRE_READ dec_clear_estop (f_data f)")
       (auto simp: gw_local_dispatch_def gw_local_safety_def gw_local_control_def gw_local_mgmt_def Let_def case_prod_unfold m
         ps_safety_core_on_clear_def not_le split: if_splits)
qed

section \<open>An instance\<close>

abbreviation demo_env :: "((u8 list, unit, unit, unit) ps_can_ctx, ps_can_record list) bms_env" where
  "demo_env \<equiv> \<lparr> env_send = ps_can_send (list_queue 16) ucast, env_stats = ps_can_get_stats, env_queue = list_queue 8 \<rparr>"

abbreviation no_can_stats :: ps_can_stats where
  "no_can_stats \<equiv> \<lparr>rx_frames = 0, tx_frames = 0, rx_dropped = 0, tx_timeouts = 0, bus_errors = 0, recoveries = 0\<rparr>"

definition demo_bms :: "((u8 list, unit, unit, unit) ps_can_ctx, ps_can_record list, gw_item list) bms" where
  "demo_bms = \<lparr> bgw = demo_gw [], s_trip_cycles = 0, s_trip_flag = False, bms_notified = False, s_cell_mv = replicate 12 3700,
     s_ntc_cC = replicate 4 2500, s_pack_cV = 0, s_curr_cA = 0, s_fault_bits = PS_BMSF_COMP_ARMED, s_short_latched = False,
     s_full_scan_done = False, s_tick = 0, s_deb = replicate 6 0, s_tripped = replicate 6 False, s_warn_last_ms = replicate 6 0,
     s_safety_low = 0, s_estop_seq = 0, s_summary_seq = 0, s_cells_seq = 0, s_stats_seq = 0, s_cells_group = 0,
     s_prev_can1 = no_can_stats, s_prev_can2 = no_can_stats, s_prev_spib = s_stats demo_spib, mux_sel0 = False, mux_sel1 = False,
     rearm_strobes = 0 \<rparr>"

lemma quiet_turn_rearms:
  assumes "\<not> bms_notified b" "\<not> s_full_scan_done b" "s_tick b = 0" "in_adc i = (\<lambda>u c. None)" "\<not> in_comp i" "in_kill_fb i"
    "s_short_latched b" "s_rearm_requested (bgw b)" "hub_gateway_safety_state (bgw b) = PS_STATE_STANDBY"
  shows "\<not> s_short_latched (bms_task_turn E lg us i b)"
proof -
  let ?c = "bms_slow_slot lg (in_adc i) (bms_sample_fast (in_adc i) (b\<lparr>bms_notified := False, s_tick := 1\<rparr>))"
  have "\<not> s_full_scan_done ?c" using assms(2,4) by (simp add: bms_slow_slot_def bms_sample_fast_def adc_mv_def word_le_def Let_def)
  then have "turn_checks E lg us i b = bms_reports E us ?c"
    using assms(1,3) by (simp add: turn_checks_def bms_check_thresholds_def Let_def)
  then have "core_view (turn_checks E lg us i b) = core_view (b\<lparr>bms_notified := False, s_tick := 1\<rparr>)" by simp
  then have "s_short_latched (turn_checks E lg us i b)" "s_rearm_requested (bgw (turn_checks E lg us i b))"
    "hub_gateway_safety_state (bgw (turn_checks E lg us i b)) = PS_STATE_STANDBY"
    using assms(7-9) by (simp_all add: core_view_def hub_gateway_safety_state_def)
  then show ?thesis unfolding turn_split using assms(5,6) by (simp add: bms_try_rearm_def Let_def)
qed

theorem short_rearm_interlock_witness:
  "let b = demo_bms\<lparr>s_short_latched := True, bgw := (demo_gw [])\<lparr>s_rearm_requested := True,
             s_mirror := (ps_safety_core_init 0 True)\<lparr>state := PS_STATE_STANDBY\<rparr>\<rparr>\<rparr>;
       b' = bms_task_turn demo_env (\<lambda>x. 0) 5000 \<lparr>in_adc = (\<lambda>u c. None), in_comp = False, in_kill_fb = True\<rparr> b
   in s_short_latched b \<and> \<not> s_short_latched b' \<and> rearm_strobes b' = rearm_strobes b + 1"
proof -
  let ?b = "demo_bms\<lparr>s_short_latched := True, bgw := (demo_gw [])\<lparr>s_rearm_requested := True,
             s_mirror := (ps_safety_core_init 0 True)\<lparr>state := PS_STATE_STANDBY\<rparr>\<rparr>\<rparr>"
  let ?i = "\<lparr>in_adc = (\<lambda>u c. None), in_comp = False, in_kill_fb = True\<rparr>"
  let ?b' = "bms_task_turn demo_env (\<lambda>x. 0) 5000 ?i ?b"
  have "\<not> s_short_latched ?b'" by (rule quiet_turn_rearms) (simp_all add: demo_bms_def hub_gateway_safety_state_def)
  then show ?thesis
    using short_rearm_interlock [where E = demo_env and logf = "\<lambda>x. 0" and us = 5000 and i = ?i and b = ?b and f = demo_estop and g = "demo_gw []", OF HOL.refl HOL.refl] unfolding Let_def by simp
qed

text \<open>Claim C16. Debouncing is exact: a fault family trips exactly when 50 checks in a row are critical, with no reading in between that is not,
  and once it has tripped the hub is latched in ESTOP; the counter saturates instead of wrapping.\<close>

theorem bms_trips_exactly_on_50:
  assumes "fam < length (s_deb b)" "fam < length (s_tripped b)" "s_deb b ! fam = 0" "\<not> s_tripped b ! fam"
    and "b' = check_run E fam cause fbit cs b"
  shows "(s_tripped b' ! fam \<longleftrightarrow> (\<exists>xs ys. map (\<lambda>c. fst (snd c)) cs = xs @ replicate 50 True @ ys)) \<and>
    (s_tripped b' ! fam \<longrightarrow> latched (s_mirror (bgw b')))"
  using check_run_state [OF assms(1-4) HOL.refl, of E cause fbit cs] assms(5) by simp

theorem bms_trips_exactly_on_50_witness:
  "s_tripped (check_run demo_env FAM_OV PS_ESTOP_BMS_OVERVOLT PS_BMSF_OV (replicate 50 (9000, True, True, 4300)) demo_bms) ! FAM_OV"
proof -
  let ?cs = "replicate 50 (9000, True, True, 4300) :: (int \<times> bool \<times> bool \<times> u16) list"
  have d: "FAM_OV < length (s_deb demo_bms)" "FAM_OV < length (s_tripped demo_bms)" "s_deb demo_bms ! FAM_OV = 0" "\<not> s_tripped demo_bms ! FAM_OV"
    by (simp_all add: demo_bms_def)
  have "map (\<lambda>c. fst (snd c)) ?cs = [] @ replicate 50 True @ []" by (simp only: map_replicate fst_conv snd_conv append_Nil append_Nil2)
  then have "\<exists>xs ys. map (\<lambda>c. fst (snd c)) ?cs = xs @ replicate 50 True @ ys" by blast
  then show ?thesis using bms_trips_exactly_on_50 [OF d HOL.refl] by blast
qed

text \<open>The current reading overflows its type: at full scale the shunt reads 330 A of discharge, but the 16-bit value is negative,
  a charge current; at zero scale 330 A of charge come out as a discharge.\<close>

lemma bms_current_wraps:
  "curr_cA_of (adc_mv (\<lambda>u c. Some 4095) 1 1) = 33000 \<and> sint (s_curr_cA (bms_sample_fast (\<lambda>u c. Some 4095) b)) = - 32536 \<and>
   curr_cA_of (adc_mv (\<lambda>u c. Some 0) 1 1) = - 33000 \<and> sint (s_curr_cA (bms_sample_fast (\<lambda>u c. Some 0) b)) = 32536"
proof -
  have mv: "adc_mv (\<lambda>u c. Some 4095) 1 1 = 3300" "adc_mv (\<lambda>u c. Some 0) 1 1 = 0" by code_simp+
  have c: "curr_cA_of 3300 = 33000" "curr_cA_of 0 = - 33000" by code_simp+
  show ?thesis by (simp add: bms_sample_fast_def Let_def mv [simplified] c)
qed

text \<open>A BMS trip goes out everywhere: the mirror is latched with the trip, each bus gets up to three copies (those its transport took) of
  one ESTOP frame with the cause, the hub as origin and the next sequence number, and the uplink gets a record of it or reports the overflow.\<close>

lemma bms_estop_on_both_buses:
  assumes "can_ctx_ok SQ sview (gw_can1 (bgw b))" "can_ctx_ok SQ sview (gw_can2 (bgw b))" "env_send E = ps_can_send SQ len"
    and "queue_ok (env_queue E) view cap" "spib_started (gw_spib (bgw b))" "b' = bms_raise_estop E us cause b"
    and "img = (ps_can_id_pack PS_CLS_SAFETY PS_NODE_HUB PS_NODE_BROADCAST PS_T_ESTOP (s_safety_low b),
      enc_estop \<lparr> es_cause = cause, es_origin_node = PS_NODE_HUB, es_seq = s_estop_seq b, es_uptime_ms = now_ms us \<rparr>)"
  shows "latched (s_mirror (bgw b')) \<and>
    (\<exists>k1 \<le> 3. \<exists>k2 \<le> 3. queued (gw_can1 (bgw b')) = queued (gw_can1 (bgw b)) + replicate_mset k1 img \<and>
       queued (gw_can2 (bgw b')) = queued (gw_can2 (bgw b)) + replicate_mset k2 img) \<and>
    (if length (view (s_uplink_q (gw_spib (bgw b)))) < cap
     then view (s_uplink_q (gw_spib (bgw b'))) = view (s_uplink_q (gw_spib (bgw b))) @ [bms_record us (fst img) (snd img)]
     else s_overflow_pending (gw_spib (bgw b')))"
proof -
  let ?f = "safety_frame PS_T_ESTOP (s_safety_low b) (snd img)" and ?r = "bms_record us (fst img) (snd img)"
  let ?g = "send_rounds (ps_can_send SQ len) 3 ?f (bgw b)"
  let ?g1 = "?g\<lparr>gw_spib := snd (ps_spib_uplink_push (env_queue E) ?r (gw_spib ?g))\<rparr>"
  have n: "length (snd img) = 8" unfolding assms(7) by (simp add: esc.length_enc)
  then have w: "wire_image ?f = img" "length (f_data ?f) = 8" "f_id ?f = fst img"
    by (simp_all add: wire_image_def safety_frame_def blit_def assms(7))
  have g': "bgw b' = hub_gateway_local_estop us cause ?g1"
    using w(3) by (simp add: assms(3,6,7) bms_raise_estop_def bms_send_safety_both_def bms_push_record_def Let_def)
  have "latched (s_mirror (bgw b'))" unfolding g' by (simp add: on_estop_latched)
  moreover have "view (s_uplink_q (gw_spib ?g1)) = view (s_uplink_q (gw_spib (bgw b))) @ [?r]" if "length (view (s_uplink_q (gw_spib (bgw b)))) < cap"
    using that assms(5) queue_ok_send [OF assms(4), of "s_uplink_q (gw_spib (bgw b))" ?r]
    by (auto simp: ps_spib_uplink_push_def Let_def case_prod_unfold)
  moreover have "s_overflow_pending (gw_spib ?g1)" if "\<not> length (view (s_uplink_q (gw_spib (bgw b)))) < cap"
    using that assms(5) queue_ok_send [OF assms(4), of "s_uplink_q (gw_spib (bgw b))" ?r]
    by (auto simp: ps_spib_uplink_push_def Let_def case_prod_unfold)
  moreover have "\<exists>k1 \<le> 3. \<exists>k2 \<le> 3. queued (gw_can1 ?g) = queued (gw_can1 (bgw b)) + replicate_mset k1 (wire_image ?f) \<and>
       queued (gw_can2 ?g) = queued (gw_can2 (bgw b)) + replicate_mset k2 (wire_image ?f)"
    by (rule ps_can.send_rounds_outbox [OF assms(1,2) w(2)])
  ultimately show ?thesis unfolding g' w(1) by simp
qed

text \<open>The scan reads the tap it selected: in the turn that samples cell \<open>k\<close> the multiplexer was set, a full turn before, to the select
  state \<open>k div 4\<close>, the channel read is section \<open>k mod 4\<close>, and the reading goes to cell \<open>k\<close> and nowhere else.\<close>

lemma cell_scan_settled:
  assumes "b1 = bms_slow_slot lg adc b" "b2 = bms_slow_slot lg adc' (b1\<lparr>s_tick := s_tick b1 + 1\<rparr>)"
    and "k = unat ((s_tick b + 1) mod 16)" "k < 12" "length (s_cell_mv b) = 12"
  shows "of_bool (mux_sel0 b1) + 2 * of_bool (mux_sel1 b1) = k div 4 \<and>
    s_cell_mv b2 = (if adc_mv adc' 1 (2 + k mod 4) \<ge> 0
      then (s_cell_mv b1)[k := of_int (ftrunc (fmul (adc_mv adc' 1 (2 + k mod 4)) 2))] else s_cell_mv b1)"
proof -
  define w where "w = (s_tick b + 1) mod 16"
  have t: "s_tick b1 = s_tick b" unfolding assms(1) by (simp add: bms_slow_slot_def Let_def)
  have k: "w = of_nat k" "k < 12" using assms(3,4) by (simp_all add: w_def)
  then have "w = 0 \<or> w = 1 \<or> w = 2 \<or> w = 3 \<or> w = 4 \<or> w = 5 \<or> w = 6 \<or> w = 7 \<or> w = 8 \<or> w = 9 \<or> w = 10 \<or> w = 11"
    by (auto simp: numeral_eq_Suc less_Suc_eq)
  then have w: "w < 12" "2 + unat (w AND 3) = 2 + k mod 4" "unat w = k" "of_bool (drop_bit 2 w AND 1 \<noteq> 0) + 2 * of_bool (drop_bit 1 (drop_bit 2 w) AND 1 \<noteq> 0) = k div 4"
    using assms(3) unfolding w_def [symmetric] by (elim disjE; simp)+
  have "mux_sel0 b1 = (drop_bit 2 w AND 1 \<noteq> 0)" "mux_sel1 b1 = (drop_bit 1 (drop_bit 2 w) AND 1 \<noteq> 0)"
    using w(1) unfolding assms(1) bms_slow_slot_def Let_def w_def by simp_all
  moreover have "s_cell_mv b2 = (if adc_mv adc' 1 (2 + unat (w AND 3)) \<ge> 0
      then (s_cell_mv b1)[unat w := of_int (ftrunc (fmul (adc_mv adc' 1 (2 + unat (w AND 3))) 2))] else s_cell_mv b1)"
    using w(1) unfolding assms(2) bms_slow_slot_def Let_def w_def by (simp add: t)
  ultimately show ?thesis using w(2-4) by (simp only:)
qed

end
