(* ===== verification/Ieee32.thy ===== *)
theory Ieee32
  imports Float32
begin

text \<open>
  C \<open>float\<close> with its special values, for the code that may meet them: the control loops, whose gains come from the
  network, and the parameter services. A value is a rational, an infinity with its sign, or NaN; the operations follow
  IEEE 754 with one rounding each (no fused multiply-add), overflow to infinity, and comparisons that are false on NaN. The
  sign of zero is not kept: no code modelled here divides by a zero.
\<close>

section \<open>Values\<close>

datatype xfloat = Fin rat | Infty bool \<comment> \<open>True: negative\<close> | NaN

text \<open>The largest magnitudes round to infinity.\<close>

definition xround :: "rat \<Rightarrow> xfloat" where
  "xround x = (let r = f32 x in if \<bar>r\<bar> < 2 ^ 128 then Fin r else Infty (r < 0))"

definition is_f32 :: "rat \<Rightarrow> bool" where
  "is_f32 x \<longleftrightarrow> f32 x = x \<and> \<bar>x\<bar> < 2 ^ 128"

section \<open>Operations\<close>

fun xneg :: "xfloat \<Rightarrow> xfloat" where
  "xneg (Fin a) = Fin (- a)"
| "xneg (Infty s) = Infty (\<not> s)"
| "xneg NaN = NaN"

fun xabs :: "xfloat \<Rightarrow> xfloat" where
  "xabs (Fin a) = Fin \<bar>a\<bar>"
| "xabs (Infty s) = Infty False"
| "xabs NaN = NaN"

fun xadd :: "xfloat \<Rightarrow> xfloat \<Rightarrow> xfloat" where
  "xadd (Fin a) (Fin b) = xround (a + b)"
| "xadd NaN _ = NaN"
| "xadd _ NaN = NaN"
| "xadd (Infty s) (Infty t) = (if s = t then Infty s else NaN)"
| "xadd (Infty s) (Fin _) = Infty s"
| "xadd (Fin _) (Infty s) = Infty s"

definition xsub :: "xfloat \<Rightarrow> xfloat \<Rightarrow> xfloat" where
  "xsub x y = xadd x (xneg y)"

fun xmul :: "xfloat \<Rightarrow> xfloat \<Rightarrow> xfloat" where
  "xmul (Fin a) (Fin b) = xround (a * b)"
| "xmul NaN _ = NaN"
| "xmul _ NaN = NaN"
| "xmul (Infty s) (Infty t) = Infty (s \<noteq> t)"
| "xmul (Infty s) (Fin b) = (if b = 0 then NaN else Infty (s \<noteq> (b < 0)))"
| "xmul (Fin b) (Infty s) = (if b = 0 then NaN else Infty (s \<noteq> (b < 0)))"

fun xdiv :: "xfloat \<Rightarrow> xfloat \<Rightarrow> xfloat" where
  "xdiv (Fin a) (Fin b) = (if b \<noteq> 0 then xround (a / b) else if a = 0 then NaN else Infty (a < 0))"
| "xdiv NaN _ = NaN"
| "xdiv _ NaN = NaN"
| "xdiv (Infty s) (Infty t) = NaN"
| "xdiv (Infty s) (Fin b) = Infty (s \<noteq> (b < 0))"
| "xdiv (Fin b) (Infty s) = Fin 0"

text \<open>\<open>x < y\<close> and \<open>x <= y\<close>; \<open>x > y\<close> and \<open>x >= y\<close> are these with the operands swapped.\<close>

fun xlt :: "xfloat \<Rightarrow> xfloat \<Rightarrow> bool" where
  "xlt (Fin a) (Fin b) \<longleftrightarrow> a < b"
| "xlt NaN _ \<longleftrightarrow> False"
| "xlt _ NaN \<longleftrightarrow> False"
| "xlt (Infty s) (Infty t) \<longleftrightarrow> s \<and> \<not> t"
| "xlt (Infty s) (Fin _) \<longleftrightarrow> s"
| "xlt (Fin _) (Infty s) \<longleftrightarrow> \<not> s"

definition xle :: "xfloat \<Rightarrow> xfloat \<Rightarrow> bool" where
  "xle x y \<longleftrightarrow> x \<noteq> NaN \<and> y \<noteq> NaN \<and> \<not> xlt y x"

text \<open>An integer converted to \<open>float\<close>; a \<open>float\<close> converted to a 16- or 32-bit integer, where C leaves the
  result open for NaN, infinity and numbers out of range: the argument \<open>u\<close> stands for it.\<close>

definition xint :: "int \<Rightarrow> xfloat" where
  "xint n = xround (of_int n)"

definition to_i16 :: "i16 \<Rightarrow> xfloat \<Rightarrow> i16" where
  "to_i16 u x = (case x of Fin r \<Rightarrow> if - 32768 \<le> ftrunc r \<and> ftrunc r \<le> 32767 then of_int (ftrunc r) else u | _ \<Rightarrow> u)"

definition to_i32 :: "int \<Rightarrow> xfloat \<Rightarrow> int" where
  "to_i32 u x = (case x of Fin r \<Rightarrow> if - (2 ^ 31) \<le> ftrunc r \<and> ftrunc r < 2 ^ 31 then ftrunc r else u | _ \<Rightarrow> u)"

text \<open>A \<open>double\<close> is taken as the value it stands for; its conversion to \<open>float\<close> rounds.\<close>

fun to_float :: "xfloat \<Rightarrow> xfloat" where
  "to_float (Fin r) = xround r"
| "to_float x = x"

text \<open>\<open>fmodf\<close>, which is exact.\<close>

fun xfmod :: "xfloat \<Rightarrow> xfloat \<Rightarrow> xfloat" where
  "xfmod (Fin a) (Fin b) = (if b = 0 then NaN else Fin (a - of_int (ftrunc (a / b)) * b))"
| "xfmod (Fin a) (Infty _) = Fin a"
| "xfmod _ _ = NaN"

abbreviation finite_x :: "xfloat \<Rightarrow> bool" where
  "finite_x x \<equiv> \<exists>r. x = Fin r \<and> is_f32 r"

section \<open>Rounding is idempotent\<close>

lemma f32_significand: "\<exists>m. f32 x = of_int m * 2 powi ulp_exp x \<and> \<bar>m\<bar> \<le> 2 ^ 24"
proof (cases "x = 0")
  case False
  have "\<bar>x\<bar> \<le> 2 powi (ulp_exp x + 24)"
  proof -
    have "(2 :: rat) powi (binade x + 1) \<le> 2 powi (ulp_exp x + 24)" by (simp add: powi_le_iff ulp_exp_def)
    then show ?thesis using binade_spec(2) [OF False] by simp
  qed
  then have "\<bar>x / 2 powi ulp_exp x\<bar> \<le> of_int (2 ^ 24)" by (simp add: power_int_add divide_le_eq abs_divide ac_simps)
  then have "x / 2 powi ulp_exp x \<le> of_int (2 ^ 24)" "of_int (- (2 ^ 24)) \<le> x / 2 powi ulp_exp x"
    unfolding abs_le_iff of_int_minus by simp_all
  then have "rne (x / 2 powi ulp_exp x) \<le> 2 ^ 24" "- (2 ^ 24) \<le> rne (x / 2 powi ulp_exp x)"
    using rne_mono rne_of_int by metis+
  then show ?thesis unfolding f32_ulp by (intro exI [of _ "rne (x / 2 powi ulp_exp x)"]) auto
qed (auto intro!: exI [of _ 0])

lemma f32_idem [simp]: "f32 (f32 x) = f32 x"
proof -
  obtain m where m: "f32 x = of_int m * 2 powi ulp_exp x" "\<bar>m\<bar> \<le> 2 ^ 24" using f32_significand by blast
  have u: "- 149 \<le> ulp_exp x" by (simp add: ulp_exp_def)
  show ?thesis
  proof (cases "\<bar>m\<bar> < 2 ^ 24")
    case True
    then show ?thesis unfolding m(1) using f32_exact u by blast
  next
    case False
    then have "m = sgn m * 2 ^ 24" using m(2) by (auto simp: sgn_if)
    then have "of_int m * (2 :: rat) powi ulp_exp x = of_int (sgn m * 2 ^ 24) * 2 powi ulp_exp x" by simp
    also have "\<dots> = of_int (sgn m * 2 ^ 23) * 2 powi (ulp_exp x + 1)" by (simp add: power_int_add)
    finally have e: "f32 x = of_int (sgn m * 2 ^ 23) * 2 powi (ulp_exp x + 1)" unfolding m(1) .
    have "\<bar>sgn m * 2 ^ 23 :: int\<bar> < 2 ^ 24" by (auto simp: sgn_if)
    moreover have "- 149 \<le> ulp_exp x + 1" using u by simp
    ultimately show ?thesis unfolding e by (rule f32_exact)
  qed
qed

lemma is_f32_abs: "is_f32 (- x) \<longleftrightarrow> is_f32 x"
  by (simp add: is_f32_def)

lemma is_f32_0 [simp]: "is_f32 0"
  by (simp add: is_f32_def)

lemma xround_Fin: "is_f32 x \<Longrightarrow> xround x = Fin x"
  by (simp add: xround_def is_f32_def)

lemma xround_cases:
  obtains r where "xround x = Fin r" "r = f32 x" "is_f32 r" | "xround x = Infty (x < 0)" "2 ^ 128 \<le> \<bar>x\<bar> \<or> 2 ^ 128 \<le> \<bar>f32 x\<bar>"
proof (cases "\<bar>f32 x\<bar> < 2 ^ 128")
  case True
  then show ?thesis using that(1) by (simp add: xround_def is_f32_def)
next
  case False
  have "f32 x < 0 \<longleftrightarrow> x < 0"
    using f32_nonneg [of x] f32_nonneg [of "- x"] False by (cases "x < 0") auto
  then show ?thesis using that(2) False by (simp add: xround_def)
qed

lemma xround_not_NaN [simp]: "xround x \<noteq> NaN"
  by (simp add: xround_def Let_def)

section \<open>NaN spreads\<close>

lemma xadd_NaN [simp]: "xadd x NaN = NaN" "xsub NaN x = NaN" "xsub x NaN = NaN"
  by (cases x; simp add: xsub_def)+

lemma xmul_NaN [simp]: "xmul x NaN = NaN"
  by (cases x) simp_all

lemma xdiv_NaN [simp]: "xdiv x NaN = NaN"
  by (cases x) simp_all

lemma xlt_NaN [simp]: "\<not> xlt x NaN"
  by (cases x) simp_all

lemma xlt_irrefl [simp]: "\<not> xlt x x"
  by (cases x) simp_all

lemma xle_Fin [simp]: "xle (Fin a) (Fin b) \<longleftrightarrow> a \<le> b"
  by (auto simp: xle_def)

lemma xle_refl: "x \<noteq> NaN \<Longrightarrow> xle x x"
  by (simp add: xle_def)

section \<open>Order\<close>

text \<open>Rounding keeps the order.\<close>

lemma xround_mono: "x \<le> y \<Longrightarrow> xle (xround x) (xround y)"
proof -
  assume "x \<le> y"
  then have "f32 x \<le> f32 y" by (rule f32_mono)
  then show ?thesis by (auto simp: xround_def xle_def Let_def)
qed

lemma xle_trans: "xle x y \<Longrightarrow> xle y z \<Longrightarrow> xle x z"
  by (cases x; cases y; cases z) (auto simp: xle_def)

lemma xle_total: "x \<noteq> NaN \<Longrightarrow> y \<noteq> NaN \<Longrightarrow> xle x y \<or> xle y x"
  by (cases x; cases y) (auto simp: xle_def)

lemma xlt_xle: "xlt x y \<Longrightarrow> xle x y"
  by (cases x; cases y) (auto simp: xle_def)

lemma xlt_antisym: "xlt x y \<Longrightarrow> \<not> xlt y x"
  by (cases x; cases y) auto

text \<open>Adding a finite value to either side, and the signs of products.\<close>

lemma xadd_mono_Fin: "xle x y \<Longrightarrow> xle (xadd x (Fin c)) (xadd y (Fin c))"
proof (cases x; cases y)
  fix a b assume "xle x y" "x = Fin a" "y = Fin b"
  then show ?thesis by (simp add: xround_mono)
next
  fix a t assume "xle x y" "x = Fin a" "y = Infty t"
  then show ?thesis by (simp add: xle_def xround_def Let_def)
next
  fix s b assume "xle x y" "x = Infty s" "y = Fin b"
  then show ?thesis by (simp add: xle_def xround_def Let_def)
qed (auto simp: xle_def)

lemma xadd_comm: "xadd x y = xadd y x"
  by (cases x; cases y) (auto simp: add.commute)

lemma xadd_not_NaN: "x \<noteq> NaN \<Longrightarrow> xadd x (Fin c) \<noteq> NaN"
  by (cases x) simp_all

text \<open>A clamp as the code writes it.\<close>

definition xclamp :: "xfloat \<Rightarrow> xfloat \<Rightarrow> xfloat \<Rightarrow> xfloat" where
  "xclamp lo hi x = (if xlt hi x then hi else if xlt x lo then lo else x)"

lemma xclamp_range:
  assumes "xle lo hi" "x \<noteq> NaN"
  shows "xle lo (xclamp lo hi x)" "xle (xclamp lo hi x) hi"
  using assms xle_refl by (auto simp: xclamp_def xle_def)

lemma xclamp_NaN [simp]: "xclamp lo hi NaN = NaN"
  by (simp add: xclamp_def)

lemma xclamp_finite:
  assumes "xle (Fin a) (Fin b)" "x \<noteq> NaN"
  shows "\<exists>r. xclamp (Fin a) (Fin b) x = Fin r \<and> a \<le> r \<and> r \<le> b"
  using assms by (cases x) (auto simp: xclamp_def)


section \<open>Representable values\<close>

definition rep :: "xfloat \<Rightarrow> bool" where
  "rep x \<longleftrightarrow> (case x of Fin r \<Rightarrow> is_f32 r | _ \<Rightarrow> True)"

lemma rep_simps [simp]: "rep (Fin r) \<longleftrightarrow> is_f32 r" "rep (Infty s)" "rep NaN" "rep (xround x)"
  by (simp_all add: rep_def xround_def is_f32_def Let_def)

lemma rep_xadd [simp]: "rep (xadd x y)"
  by (cases x; cases y) simp_all

lemma xadd_0: "rep x \<Longrightarrow> xadd x (Fin 0) = x"
  by (cases x) (simp_all add: xround_Fin)

lemma xadd_mono: "xle x y \<Longrightarrow> xadd x z \<noteq> NaN \<Longrightarrow> xadd y z \<noteq> NaN \<Longrightarrow> xle (xadd x z) (xadd y z)"
proof (cases z)
  case (Fin c)
  then show "xle x y \<Longrightarrow> ?thesis" using xadd_mono_Fin by simp
next
  case (Infty t)
  then show "xle x y \<Longrightarrow> xadd x z \<noteq> NaN \<Longrightarrow> xadd y z \<noteq> NaN \<Longrightarrow> ?thesis"
    by (cases x; cases y) (auto simp: xle_def)
qed simp

text \<open>Signs: a product of values that are not negative is not.\<close>

lemma xround_nonneg: "0 \<le> x \<Longrightarrow> xle (Fin 0) (xround x)"
  using xround_mono [of 0 x] by (simp add: xround_Fin)

lemma xround_nonpos: "x \<le> 0 \<Longrightarrow> xle (xround x) (Fin 0)"
  using xround_mono [of x 0] by (simp add: xround_Fin)

lemma xmul_pos_Fin: "xle (Fin 0) x \<Longrightarrow> 0 < t \<Longrightarrow> xle (Fin 0) (xmul x (Fin t))"
proof (cases x)
  case (Fin r)
  then show "xle (Fin 0) x \<Longrightarrow> 0 < t \<Longrightarrow> ?thesis" by (simp add: xround_nonneg)
qed (auto simp: xle_def)

lemma xmul_neg_Fin: "xle x (Fin 0) \<Longrightarrow> 0 < t \<Longrightarrow> xle (xmul x (Fin t)) (Fin 0)"
proof (cases x)
  case (Fin r)
  then show "xle x (Fin 0) \<Longrightarrow> 0 < t \<Longrightarrow> ?thesis" by (simp add: xround_nonpos mult_nonpos_nonneg)
qed (auto simp: xle_def)

section \<open>Magnitudes\<close>

text \<open>\<open>xb k x\<close>: a finite value of magnitude at most \<open>2 ^ k\<close>. Sums and products of such values are such values, so a bound
  on the inputs of a computation gives one on its result.\<close>

definition xb :: "nat \<Rightarrow> xfloat \<Rightarrow> bool" where
  "xb k x \<longleftrightarrow> (\<exists>r. x = Fin r \<and> is_f32 r \<and> \<bar>r\<bar> \<le> 2 ^ k)"

lemma f32_pow2: "f32 (2 ^ k) = 2 ^ k"
  using f32_exact [of 1 "int k"] by (simp add: power_int_def)

lemma f32_abs_le: "\<bar>x\<bar> \<le> 2 ^ k \<Longrightarrow> \<bar>f32 x\<bar> \<le> 2 ^ k"
  using f32_mono [of x "2 ^ k"] f32_mono [of "- x" "2 ^ k"] by (auto simp: f32_pow2 abs_le_iff)

lemma xround_xb: "\<bar>x\<bar> \<le> 2 ^ k \<Longrightarrow> k < 128 \<Longrightarrow> xb k (xround x)"
proof -
  assume x: "\<bar>x\<bar> \<le> 2 ^ k" and k: "k < 128"
  have "\<bar>f32 x\<bar> \<le> 2 ^ k" by (rule f32_abs_le [OF x])
  moreover have "(2 :: rat) ^ k < 2 ^ 128" using k by (intro power_strict_increasing) auto
  ultimately have "\<bar>f32 x\<bar> < 2 ^ 128" by linarith
  then show ?thesis using f32_abs_le [OF x] by (simp add: xb_def xround_def is_f32_def)
qed

lemma xb_mono: "xb k x \<Longrightarrow> k \<le> l \<Longrightarrow> xb l x"
proof -
  assume x: "xb k x" and kl: "k \<le> l"
  have "(2 :: rat) ^ k \<le> 2 ^ l" using kl by (intro power_increasing) auto
  then show ?thesis using x unfolding xb_def by (blast intro: order_trans)
qed

lemma xb_neg: "xb k x \<Longrightarrow> xb k (xneg x)"
  by (auto simp: xb_def is_f32_abs)

lemma xb_add: "xb k x \<Longrightarrow> xb k y \<Longrightarrow> k < 127 \<Longrightarrow> xb (Suc k) (xadd x y)"
  by (auto simp: xb_def [of k] intro!: xround_xb intro: order_trans [OF abs_triangle_ineq])

lemma xb_sub: "xb k x \<Longrightarrow> xb k y \<Longrightarrow> k < 127 \<Longrightarrow> xb (Suc k) (xsub x y)"
  unfolding xsub_def by (intro xb_add xb_neg)

lemma xb_mul: "xb k x \<Longrightarrow> xb l y \<Longrightarrow> k + l < 128 \<Longrightarrow> xb (k + l) (xmul x y)"
  by (auto simp: xb_def [of k] xb_def [of l] abs_mult power_add intro!: xround_xb mult_mono)

lemma xb_not_NaN: "xb k x \<Longrightarrow> x \<noteq> NaN"
  by (auto simp: xb_def)

end
