(* ===== verification/Flight_Servo.thy ===== *)
theory Flight_Servo
  imports Ieee32 "HOL-Library.Signed_Division"
begin

text \<open>
  The flap servos of the flight node, \<open>firmware/apps/node_flight/main/servo_task.c\<close> with the limit table of
  \<open>board_flight.h\<close>: the shared target buffer and one turn of the 100 Hz loop (envelope clamp, pairwise exclusion, slew limit,
  pulse width). Positions are permille of half-throw as integers; the \<open>int16_t\<close> casts of the code are of values that stay within
  the envelope. The pulses a turn writes to the comparators are part of its result. The rate scale comes from the parameter service
  and may be any \<open>float\<close>; \<open>cu\<close> is what its conversion to an integer gives where C leaves that open.
\<close>

section \<open>The limit table\<close>

abbreviation PS_FLAP_COUNT :: nat where "PS_FLAP_COUNT \<equiv> 12"
abbreviation SERVO_TASK_PERIOD_MS :: int where "SERVO_TASK_PERIOD_MS \<equiv> 10"

record ps_flap_cfg =
  gpio :: nat
  pulse_min_us :: int
  pulse_neutral_us :: int
  pulse_max_us :: int
  env_min_pm :: int
  env_max_pm :: int
  brake_pm :: int
  slew_max_pct_s :: int
  slew_default_pct_s :: int

definition flap_row :: "nat \<Rightarrow> int \<Rightarrow> int \<Rightarrow> int \<Rightarrow> int \<Rightarrow> ps_flap_cfg" where
  "flap_row pin env brake slew dflt =
     \<lparr> gpio = pin, pulse_min_us = 900, pulse_neutral_us = 1500, pulse_max_us = 2100, env_min_pm = - env, env_max_pm = env,
       brake_pm = brake, slew_max_pct_s = slew, slew_default_pct_s = dflt \<rparr>"

definition PS_FLAP_TABLE :: "ps_flap_cfg list" where
  "PS_FLAP_TABLE =
     [flap_row 10 900 800 250 120, flap_row 11 900 800 250 120, flap_row 12 1000 900 250 120, flap_row 13 1000 900 250 120,
      flap_row 14 800 700 200 100, flap_row 15 800 700 200 100, flap_row 16 900 800 250 120, flap_row 21 900 800 250 120,
      flap_row 38 1000 900 250 120, flap_row 39 1000 900 250 120, flap_row 40 800 700 200 100, flap_row 41 800 700 200 100]"

text \<open>Overlapping pairs with their joint limit.\<close>

definition PS_FLAP_PAIRS :: "(nat \<times> nat \<times> int) list" where
  "PS_FLAP_PAIRS = [(0, 1, 1400), (2, 3, 1600), (6, 7, 1400), (8, 9, 1600)]"

section \<open>Targets and states\<close>

record flight_target =
  t_pos_pm :: int
  t_rate_lim :: u8
  t_brake :: bool

record flight_flap_state =
  st_pos_pm :: int
  st_target_pm :: int
  st_at_limit :: bool

record servo =
  s_targets :: "flight_target list"
  s_states :: "flight_flap_state list"
  cur_pm :: "int list"

definition neutral_target :: flight_target where
  "neutral_target = \<lparr> t_pos_pm = 0, t_rate_lim = 0, t_brake = False \<rparr>"

definition servo_init :: servo where
  "servo_init = \<lparr> s_targets = replicate 12 neutral_target,
     s_states = replicate 12 \<lparr> st_pos_pm = 0, st_target_pm = 0, st_at_limit = False \<rparr>, cur_pm = replicate 12 0 \<rparr>"

definition flight_targets_set :: "nat \<Rightarrow> int \<Rightarrow> u8 \<Rightarrow> bool \<Rightarrow> servo \<Rightarrow> servo" where
  "flight_targets_set flap pos rate brake s =
     (if flap \<ge> PS_FLAP_COUNT then s
      else s\<lparr>s_targets := (s_targets s)[flap := \<lparr> t_pos_pm = pos, t_rate_lim = rate, t_brake = brake \<rparr>]\<rparr>)"

definition flight_targets_neutral_all :: "servo \<Rightarrow> servo" where
  "flight_targets_neutral_all s = s\<lparr>s_targets := replicate 12 neutral_target\<rparr>"

definition flight_flap_state_publish :: "flight_flap_state \<Rightarrow> nat \<Rightarrow> servo \<Rightarrow> servo" where
  "flight_flap_state_publish st flap s = s\<lparr>s_states := (s_states s)[flap := st]\<rparr>"

section \<open>One turn of the servo task\<close>

definition clamp_pm :: "int \<Rightarrow> int \<Rightarrow> int \<Rightarrow> int" where
  "clamp_pm v lo hi = (if v < lo then lo else if v > hi then hi else v)"

text \<open>The pulse written for a flap.\<close>

definition flap_write :: "nat \<Rightarrow> int \<Rightarrow> int" where
  "flap_write flap pos =
     (let c = PS_FLAP_TABLE ! flap;
          pos = clamp_pm pos (env_min_pm c) (env_max_pm c);
          pulse = (if pos \<ge> 0 then pulse_neutral_us c + (pos * (pulse_max_us c - pulse_neutral_us c)) sdiv 1000
                   else pulse_neutral_us c + (pos * (pulse_neutral_us c - pulse_min_us c)) sdiv 1000);
          pulse = (if pulse < pulse_min_us c then pulse_min_us c else pulse)
      in if pulse > pulse_max_us c then pulse_max_us c else pulse)"

text \<open>The first loop: what a flap should do and whether it is at a limit.\<close>

definition flap_want :: "bool \<Rightarrow> ps_flap_cfg \<Rightarrow> flight_target \<Rightarrow> int \<times> bool" where
  "flap_want can_act c t =
     (let w = (if \<not> can_act then 0 else if t_brake t then brake_pm c else t_pos_pm t);
          clamped = clamp_pm w (env_min_pm c) (env_max_pm c)
      in (clamped, clamped \<noteq> w \<or> clamped = env_min_pm c \<or> clamped = env_max_pm c))"

text \<open>Reduce a magnitude, keeping the sign.\<close>

definition pull_in :: "int \<Rightarrow> int \<Rightarrow> int" where
  "pull_in excess w =
     (let mag = \<bar>w\<bar> - excess; mag = (if mag < 0 then 0 else mag) in if w < 0 then - mag else mag)"

text \<open>One pair of the exclusion loop.\<close>

definition exclude_pair :: "nat \<times> nat \<times> int \<Rightarrow> (int \<times> bool) list \<Rightarrow> (int \<times> bool) list" where
  "exclude_pair pr ws =
     (case pr of (a, b, joint) \<Rightarrow>
        let sum = \<bar>fst (ws ! a)\<bar> + \<bar>fst (ws ! b)\<bar> in
        if sum > joint then
          let excess = (sum - joint + 1) div 2;
              ws = ws[a := (pull_in excess (fst (ws ! a)), True)]
          in ws[b := (pull_in excess (fst (ws ! b)), True)]
        else ws)"

definition flap_wants :: "bool \<Rightarrow> flight_target list \<Rightarrow> (int \<times> bool) list" where
  "flap_wants can_act ts = fold exclude_pair PS_FLAP_PAIRS (map2 (flap_want can_act) PS_FLAP_TABLE ts)"

text \<open>The slew step of a flap in one period.\<close>

definition slew_step :: "bool \<Rightarrow> int \<Rightarrow> xfloat \<Rightarrow> ps_flap_cfg \<Rightarrow> flight_target \<Rightarrow> int" where
  "slew_step can_act cu rate_scale c t =
     (let pct = slew_default_pct_s c;
          pct = (if can_act \<and> t_rate_lim t \<noteq> 0 \<and> uint (t_rate_lim t) < pct then uint (t_rate_lim t) else pct);
          pct = (if pct > slew_max_pct_s c then slew_max_pct_s c else pct);
          step = (to_i32 cu (xmul (xmul (xint pct) (Fin 10)) rate_scale) * SERVO_TASK_PERIOD_MS) sdiv 1000
      in if step < 1 then 1 else step)"

definition slew :: "int \<Rightarrow> int \<Rightarrow> int \<Rightarrow> int" where
  "slew step want cur =
     (let delta = want - cur;
          delta = (if delta > step then step else if delta < - step then - step else delta)
      in cur + delta)"

text \<open>The last loop for flap \<open>i\<close>: new position, pulse and published state.\<close>

definition servo_flap :: "bool \<Rightarrow> int \<Rightarrow> xfloat \<Rightarrow> (int \<times> bool) list \<Rightarrow> flight_target list \<Rightarrow> nat \<Rightarrow> int list \<times> servo \<Rightarrow> int list \<times> servo" where
  "servo_flap can_act cu rate_scale ws ts i ps =
     (let (pulses, s) = ps; c = PS_FLAP_TABLE ! i;
          pos = slew (slew_step can_act cu rate_scale c (ts ! i)) (fst (ws ! i)) (cur_pm s ! i);
          s = s\<lparr>cur_pm := (cur_pm s)[i := pos]\<rparr>;
          st = \<lparr> st_pos_pm = pos, st_target_pm = fst (ws ! i), st_at_limit = snd (ws ! i) \<rparr>
      in (pulses @ [flap_write i pos], flight_flap_state_publish st i s))"

definition servo_task_turn :: "bool \<Rightarrow> int \<Rightarrow> xfloat \<Rightarrow> servo \<Rightarrow> int list \<times> servo" where
  "servo_task_turn can_act cu rate_scale s =
     (let tgt = s_targets s; ws = flap_wants can_act tgt
      in fold (servo_flap can_act cu rate_scale ws tgt) [0..<PS_FLAP_COUNT] ([], s))"

section \<open>Targets after the limits\<close>

lemma table_length [simp]: "length PS_FLAP_TABLE = 12"
  by (simp add: PS_FLAP_TABLE_def)

text \<open>What the rows have in common.\<close>

definition row_ok :: "ps_flap_cfg \<Rightarrow> bool" where
  "row_ok c \<longleftrightarrow> pulse_min_us c = 900 \<and> pulse_neutral_us c = 1500 \<and> pulse_max_us c = 2100 \<and> env_min_pm c = - env_max_pm c \<and>
     800 \<le> env_max_pm c \<and> env_max_pm c \<le> 1000 \<and> 100 \<le> slew_default_pct_s c \<and> slew_default_pct_s c \<le> 120 \<and> slew_default_pct_s c \<le> slew_max_pct_s c"

lemma row_ok: "i < 12 \<Longrightarrow> row_ok (PS_FLAP_TABLE ! i)"
proof -
  have "list_all row_ok PS_FLAP_TABLE" by (simp add: PS_FLAP_TABLE_def flap_row_def row_ok_def)
  then show "i < 12 \<Longrightarrow> row_ok (PS_FLAP_TABLE ! i)" by (simp add: list_all_length)
qed

definition in_env :: "nat \<Rightarrow> int \<Rightarrow> bool" where
  "in_env i w \<longleftrightarrow> \<bar>w\<bar> \<le> env_max_pm (PS_FLAP_TABLE ! i)"

definition wants_ok :: "(int \<times> bool) list \<Rightarrow> bool" where
  "wants_ok ws \<longleftrightarrow> length ws = 12 \<and> (\<forall>i < 12. in_env i (fst (ws ! i)))"

lemma abs_pull_in: "\<bar>pull_in k w\<bar> = max 0 (\<bar>w\<bar> - k)"
  by (simp add: pull_in_def Let_def max_def)

lemma exclude_pair_length [simp]: "length (exclude_pair pr ws) = length ws"
  by (simp add: exclude_pair_def Let_def split: prod.splits)

lemma exclude_pair_other: "i \<noteq> a \<Longrightarrow> i \<noteq> b \<Longrightarrow> exclude_pair (a, b, j) ws ! i = ws ! i"
  by (simp add: exclude_pair_def Let_def)

lemma exclude_pair_shrinks:
  assumes "a < length ws" "b < length ws" "a \<noteq> b"
  shows "\<bar>fst (exclude_pair (a, b, j) ws ! i)\<bar> \<le> \<bar>fst (ws ! i)\<bar>"
  using assms by (cases "i = a \<or> i = b") (auto simp: exclude_pair_def Let_def abs_pull_in)

lemma exclude_pair_sum:
  assumes "a < length ws" "b < length ws" "a \<noteq> b" "\<bar>fst (ws ! a)\<bar> \<le> j" "\<bar>fst (ws ! b)\<bar> \<le> j"
  shows "\<bar>fst (exclude_pair (a, b, j) ws ! a)\<bar> + \<bar>fst (exclude_pair (a, b, j) ws ! b)\<bar> \<le> j"
proof -
  let ?x = "\<bar>fst (ws ! a)\<bar>" and ?y = "\<bar>fst (ws ! b)\<bar>"
  let ?k = "(?x + ?y - j + 1) div 2"
  have "max 0 (x - k) + max 0 (y - k) \<le> j" if "x \<le> j" "y \<le> j" "x + y - j \<le> 2 * k" "0 \<le> k" "0 \<le> j" for x y k :: int
    using that by (auto simp: max_def)
  moreover have "?x + ?y - j \<le> 2 * ?k" "?x + ?y > j \<Longrightarrow> 0 \<le> ?k" by linarith+
  ultimately have "?x + ?y > j \<Longrightarrow> max 0 (?x - ?k) + max 0 (?y - ?k) \<le> j" using assms(4,5) by (meson abs_ge_zero order_trans)
  then show ?thesis using assms(1-3) by (auto simp: exclude_pair_def Let_def abs_pull_in)
qed

lemma exclude_pair_ok: "wants_ok ws \<Longrightarrow> a < 12 \<Longrightarrow> b < 12 \<Longrightarrow> a \<noteq> b \<Longrightarrow> wants_ok (exclude_pair (a, b, j) ws)"
  using exclude_pair_shrinks [of a ws b j] by (auto simp: wants_ok_def in_env_def intro: order_trans)

lemma wants_ok_le: "wants_ok ws \<Longrightarrow> i < 12 \<Longrightarrow> 1000 \<le> j \<Longrightarrow> \<bar>fst (ws ! i)\<bar> \<le> j"
  using row_ok [of i] by (force simp: wants_ok_def in_env_def row_ok_def)

lemma flap_want_ok:
  assumes "row_ok c"
  shows "\<bar>fst (flap_want can_act c t)\<bar> \<le> env_max_pm c"
  using assms by (auto simp: flap_want_def clamp_pm_def row_ok_def Let_def)

lemma wants_before:
  assumes "length ts = 12"
  shows "wants_ok (map2 (flap_want can_act) PS_FLAP_TABLE ts)"
  using assms flap_want_ok [OF row_ok] by (auto simp: wants_ok_def in_env_def)

text \<open>The pairs share no flap, so the four steps do not undo each other.\<close>

lemma flap_wants_ok:
  assumes "length ts = 12"
  shows "wants_ok (flap_wants can_act ts)"
    "\<forall>(a, b, j) \<in> set PS_FLAP_PAIRS. \<bar>fst (flap_wants can_act ts ! a)\<bar> + \<bar>fst (flap_wants can_act ts ! b)\<bar> \<le> j"
proof -
  define w0 where "w0 = map2 (flap_want can_act) PS_FLAP_TABLE ts"
  define w1 where "w1 = exclude_pair (0, 1, 1400) w0"
  define w2 where "w2 = exclude_pair (2, 3, 1600) w1"
  define w3 where "w3 = exclude_pair (6, 7, 1400) w2"
  define w4 where "w4 = exclude_pair (8, 9, 1600) w3"
  note defs = w1_def w2_def w3_def w4_def
  have ok: "wants_ok w0" "wants_ok w1" "wants_ok w2" "wants_ok w3" "wants_ok w4"
    using wants_before [OF assms] exclude_pair_ok unfolding w0_def defs by simp_all
  have l: "length w0 = 12" "length w1 = 12" "length w2 = 12" "length w3 = 12" using ok by (simp_all add: wants_ok_def)
  have w: "flap_wants can_act ts = w4" by (simp add: flap_wants_def PS_FLAP_PAIRS_def defs w0_def)
  have s: "\<bar>fst (w1 ! 0)\<bar> + \<bar>fst (w1 ! 1)\<bar> \<le> 1400" "\<bar>fst (w2 ! 2)\<bar> + \<bar>fst (w2 ! 3)\<bar> \<le> 1600"
    "\<bar>fst (w3 ! 6)\<bar> + \<bar>fst (w3 ! 7)\<bar> \<le> 1400" "\<bar>fst (w4 ! 8)\<bar> + \<bar>fst (w4 ! 9)\<bar> \<le> 1600"
    using exclude_pair_sum [of 0 w0 1 1400] exclude_pair_sum [of 2 w1 3 1600] exclude_pair_sum [of 6 w2 7 1400]
      exclude_pair_sum [of 8 w3 9 1600] l wants_ok_le [OF ok(1)] wants_ok_le [OF ok(2)] wants_ok_le [OF ok(3)] wants_ok_le [OF ok(4)]
    by (simp_all del: One_nat_def flip: defs)
  have e: "w4 ! 0 = w1 ! 0" "w4 ! 1 = w1 ! 1" "w4 ! 2 = w2 ! 2" "w4 ! 3 = w2 ! 3" "w4 ! 6 = w3 ! 6" "w4 ! 7 = w3 ! 7"
    by (simp_all add: w2_def w3_def w4_def exclude_pair_other)
  show "wants_ok (flap_wants can_act ts)" unfolding w by (rule ok(5))
  show "\<forall>(a, b, j) \<in> set PS_FLAP_PAIRS. \<bar>fst (flap_wants can_act ts ! a)\<bar> + \<bar>fst (flap_wants can_act ts ! b)\<bar> \<le> j"
    unfolding w using s e by (simp add: PS_FLAP_PAIRS_def)
qed

section \<open>Slewing\<close>

lemma slew_dist: "1 \<le> k \<Longrightarrow> \<bar>w - slew k w c\<bar> = max 0 (\<bar>w - c\<bar> - k)"
  by (auto simp: slew_def Let_def max_def)

lemma slew_between: "1 \<le> k \<Longrightarrow> \<bar>c\<bar> \<le> e \<Longrightarrow> \<bar>w\<bar> \<le> e \<Longrightarrow> \<bar>slew k w c\<bar> \<le> e"
  by (auto simp: slew_def Let_def)

lemma slew_rate: "1 \<le> k \<Longrightarrow> \<bar>slew k w c - c\<bar> \<le> k"
  by (auto simp: slew_def Let_def)

lemma slew_step_pos: "1 \<le> slew_step can_act cu rs c t"
  by (simp add: slew_step_def Let_def)

lemma scaled_rate:
  assumes "0 \<le> p" "p \<le> 120" "0 \<le> r" "r \<le> 1"
  shows "0 \<le> to_i32 cu (xmul (xmul (xint p) (Fin 10)) (Fin r))" "to_i32 cu (xmul (xmul (xint p) (Fin 10)) (Fin r)) \<le> 1200"
proof -
  have "xint p = Fin (of_int p)" using f32_of_int [of p] assms(1,2) by (simp add: xint_def xround_def)
  moreover have "xround (of_int p * 10) = Fin (of_int (p * 10))"
    using f32_of_int [of "p * 10"] assms(1,2) by (simp add: xround_def)
  ultimately have e: "xmul (xmul (xint p) (Fin 10)) (Fin r) = xround (of_int (p * 10) * r)" by simp
  have "0 \<le> of_int (p * 10) * r" "of_int (p * 10) * r \<le> of_int 1200"
    using assms mult_mono [of "of_int (p * 10)" "of_int 1200" r 1] by simp_all
  then have b: "0 \<le> f32 (of_int (p * 10) * r)" "f32 (of_int (p * 10) * r) \<le> of_int 1200"
    using f32_mono [of "of_int (p * 10) * r" "of_int 1200"] f32_of_int [of 1200] f32_nonneg by simp_all
  then have x: "xmul (xmul (xint p) (Fin 10)) (Fin r) = Fin (f32 (of_int (p * 10) * r))" unfolding e by (simp add: xround_def)
  have "0 \<le> ftrunc (f32 (of_int (p * 10) * r))" "ftrunc (f32 (of_int (p * 10) * r)) \<le> 1200"
    using ftrunc_mono [OF b(1)] ftrunc_mono [OF b(2)] by (simp_all add: ftrunc_def)
  then show "0 \<le> to_i32 cu (xmul (xmul (xint p) (Fin 10)) (Fin r))" "to_i32 cu (xmul (xmul (xint p) (Fin 10)) (Fin r)) \<le> 1200"
    unfolding x by (simp_all add: to_i32_def)
qed

lemma slew_step_max:
  assumes "row_ok c" "xle (Fin 0) rs" "xle rs (Fin 1)"
  shows "slew_step can_act cu rs c t \<le> 12"
proof -
  obtain r where r: "rs = Fin r" "0 \<le> r" "r \<le> 1" using assms(2,3) by (cases rs) (auto simp: xle_def)
  have "m * 10 sdiv 1000 \<le> 12" if "0 \<le> m" "m \<le> 1200" for m :: int
    using that by (simp add: signed_divide_int_def sgn_if zdiv_mono1 [of "m * 10" 12000 1000, simplified])
  then have "to_i32 cu (xmul (xmul (xint p) (Fin 10)) (Fin r)) * 10 sdiv 1000 \<le> 12" if "0 \<le> p" "p \<le> 120" for p
    using scaled_rate [OF that r(2,3)] by blast
  moreover have "0 \<le> uint (t_rate_lim t)" by simp
  ultimately show ?thesis using assms(1) by (auto simp: slew_step_def Let_def row_ok_def r(1))
qed

section \<open>A turn as a whole\<close>

definition servo_wf :: "servo \<Rightarrow> bool" where
  "servo_wf s \<longleftrightarrow> length (s_targets s) = 12 \<and> length (s_states s) = 12 \<and> length (cur_pm s) = 12 \<and> (\<forall>i < 12. in_env i (cur_pm s ! i))"

definition next_pm :: "bool \<Rightarrow> int \<Rightarrow> xfloat \<Rightarrow> servo \<Rightarrow> nat \<Rightarrow> int" where
  "next_pm can_act cu rs s i =
     slew (slew_step can_act cu rs (PS_FLAP_TABLE ! i) (s_targets s ! i)) (fst (flap_wants can_act (s_targets s) ! i)) (cur_pm s ! i)"

lemma turn_loop:
  assumes "length (cur_pm s) = 12" "length (s_states s) = 12" "n \<le> 12" "ts = s_targets s" "ws = flap_wants can_act ts"
    and r_def: "r = fold (servo_flap can_act cu rs ws ts) [0..<n] ([], s)"
  shows "fst r = map (\<lambda>i. flap_write i (next_pm can_act cu rs s i)) [0..<n] \<and> s_targets (snd r) = s_targets s \<and>
    length (cur_pm (snd r)) = 12 \<and> length (s_states (snd r)) = 12 \<and>
    (\<forall>i < 12. cur_pm (snd r) ! i = (if i < n then next_pm can_act cu rs s i else cur_pm s ! i)) \<and>
    (\<forall>i < n. s_states (snd r) ! i = \<lparr> st_pos_pm = next_pm can_act cu rs s i, st_target_pm = fst (ws ! i), st_at_limit = snd (ws ! i) \<rparr>)"
  using assms(3) unfolding r_def
proof (induction n)
  case (Suc n)
  let ?r = "fold (servo_flap can_act cu rs ws ts) [0..<n] ([], s)"
  have IH: "fst ?r = map (\<lambda>i. flap_write i (next_pm can_act cu rs s i)) [0..<n]" "s_targets (snd ?r) = s_targets s"
    "length (cur_pm (snd ?r)) = 12" "length (s_states (snd ?r)) = 12"
    "\<forall>i < 12. cur_pm (snd ?r) ! i = (if i < n then next_pm can_act cu rs s i else cur_pm s ! i)"
    "\<forall>i < n. s_states (snd ?r) ! i = \<lparr> st_pos_pm = next_pm can_act cu rs s i, st_target_pm = fst (ws ! i), st_at_limit = snd (ws ! i) \<rparr>"
    using Suc by simp_all
  have e: "fold (servo_flap can_act cu rs ws ts) [0..<Suc n] ([], s) = servo_flap can_act cu rs ws ts n ?r" by simp
  obtain p t where r: "?r = (p, t)" by fastforce
  have "slew (slew_step can_act cu rs (PS_FLAP_TABLE ! n) (ts ! n)) (fst (ws ! n)) (cur_pm t ! n) = next_pm can_act cu rs s n"
    using IH(5) [unfolded r] Suc.prems by (simp add: next_pm_def flip: assms(4,5))
  then have f: "servo_flap can_act cu rs ws ts n (p, t) = (p @ [flap_write n (next_pm can_act cu rs s n)],
    t\<lparr>cur_pm := (cur_pm t)[n := next_pm can_act cu rs s n], s_states := (s_states t)[n :=
      \<lparr> st_pos_pm = next_pm can_act cu rs s n, st_target_pm = fst (ws ! n), st_at_limit = snd (ws ! n) \<rparr>]\<rparr>)"
    by (simp add: servo_flap_def flight_flap_state_publish_def Let_def)
  show ?case
    unfolding e r f using IH Suc.prems by (auto simp: r nth_list_update less_Suc_eq)
qed (simp add: assms(1,2))

lemma turn_effect:
  assumes "servo_wf s" "servo_task_turn can_act cu rs s = (pulses, s')"
  shows "pulses = map (\<lambda>i. flap_write i (next_pm can_act cu rs s i)) [0..<12]" "s_targets s' = s_targets s"
    "\<And>i. i < 12 \<Longrightarrow> cur_pm s' ! i = next_pm can_act cu rs s i" "length (cur_pm s') = 12" "length (s_states s') = 12"
    "\<And>i. i < 12 \<Longrightarrow> s_states s' ! i = \<lparr> st_pos_pm = next_pm can_act cu rs s i,
       st_target_pm = fst (flap_wants can_act (s_targets s) ! i), st_at_limit = snd (flap_wants can_act (s_targets s) ! i) \<rparr>"
  using turn_loop [of s 12 "s_targets s" "flap_wants can_act (s_targets s)" can_act, OF _ _ _ _ _ refl, of cu rs] assms
  by (simp_all add: servo_task_turn_def servo_wf_def Let_def)

lemma turn_wf:
  assumes "servo_wf s" "servo_task_turn can_act cu rs s = (pulses, s')"
  shows "servo_wf s'"
proof -
  have "in_env i (next_pm can_act cu rs s i)" if "i < 12" for i
    using that assms(1) flap_wants_ok(1) [of "s_targets s" can_act] slew_step_pos
    by (auto simp: in_env_def servo_wf_def wants_ok_def next_pm_def intro: slew_between)
  then show ?thesis using assms(1) turn_effect [OF assms] by (simp add: servo_wf_def)
qed

lemma flap_write_range: "i < 12 \<Longrightarrow> 900 \<le> flap_write i p \<and> flap_write i p \<le> 2100"
  using row_ok [of i] by (simp add: flap_write_def row_ok_def Let_def)

lemma flap_write_neutral: "i < 12 \<Longrightarrow> flap_write i 0 = 1500"
  using row_ok [of i] by (simp add: flap_write_def row_ok_def clamp_pm_def Let_def)

text \<open>Repeated turns with the same gate and rate.\<close>

definition turns :: "bool \<Rightarrow> int \<Rightarrow> xfloat \<Rightarrow> nat \<Rightarrow> servo \<Rightarrow> servo" where
  "turns can_act cu rs n s = ((\<lambda>s. snd (servo_task_turn can_act cu rs s)) ^^ n) s"

lemma turns_Suc: "turns can_act cu rs (Suc n) s = snd (servo_task_turn can_act cu rs (turns can_act cu rs n s))"
  by (simp add: turns_def)

lemma turns_distance:
  assumes "servo_wf s"
  shows "servo_wf (turns can_act cu rs n s) \<and> s_targets (turns can_act cu rs n s) = s_targets s \<and>
    (\<forall>i < 12. \<bar>fst (flap_wants can_act (s_targets s) ! i) - cur_pm (turns can_act cu rs n s) ! i\<bar> \<le>
       max 0 (\<bar>fst (flap_wants can_act (s_targets s) ! i) - cur_pm s ! i\<bar> - int n))"
proof (induction n)
  case 0
  then show ?case using assms by (simp add: turns_def)
next
  case (Suc n)
  let ?s = "turns can_act cu rs n s" and ?w = "\<lambda>i. fst (flap_wants can_act (s_targets s) ! i)"
  obtain pulses s' where t: "servo_task_turn can_act cu rs ?s = (pulses, s')" by fastforce
  have wf: "servo_wf ?s" "s_targets ?s = s_targets s" using Suc by simp_all
  note te = turn_effect [OF wf(1) t]
  have "\<bar>?w i - cur_pm s' ! i\<bar> \<le> max 0 (\<bar>?w i - cur_pm s ! i\<bar> - int (Suc n))" if i: "i < 12" for i
  proof -
    let ?k = "slew_step can_act cu rs (PS_FLAP_TABLE ! i) (s_targets s ! i)"
    have "\<bar>?w i - cur_pm s' ! i\<bar> = max 0 (\<bar>?w i - cur_pm ?s ! i\<bar> - ?k)"
      unfolding te(3) [OF i] next_pm_def wf(2) by (rule slew_dist) (rule slew_step_pos)
    moreover have "\<bar>?w i - cur_pm ?s ! i\<bar> \<le> max 0 (\<bar>?w i - cur_pm s ! i\<bar> - int n)" using Suc i by blast
    moreover have "1 \<le> ?k" by (rule slew_step_pos)
    ultimately show ?thesis by (simp add: max_def split: if_splits)
  qed
  then show ?case using turn_wf [OF wf(1) t] te(2) wf(2) by (simp add: turns_Suc t)
qed

lemma turns_arrive:
  assumes "servo_wf s" "i < 12" "2000 \<le> n"
  shows "cur_pm (turns can_act cu rs n s) ! i = fst (flap_wants can_act (s_targets s) ! i)"
proof -
  have "\<bar>fst (flap_wants can_act (s_targets s) ! i)\<bar> \<le> 1000" "\<bar>cur_pm s ! i\<bar> \<le> 1000"
    using assms(1,2) flap_wants_ok(1) [of "s_targets s" can_act] row_ok [OF assms(2)]
    by (auto simp: servo_wf_def wants_ok_def in_env_def row_ok_def)
  then show ?thesis using turns_distance [OF assms(1), of can_act cu rs n] assms(2,3) by auto
qed

lemma wants_closed:
  assumes "length ts = 12" "i < 12"
  shows "fst (flap_wants False ts ! i) = 0"
proof -
  have z: "\<forall>i < 12. fst (map2 (flap_want False) PS_FLAP_TABLE ts ! i) = 0"
  proof (intro allI impI)
    fix i :: nat
    assume "i < 12"
    then show "fst (map2 (flap_want False) PS_FLAP_TABLE ts ! i) = 0"
      using assms(1) row_ok [of i] by (simp add: flap_want_def clamp_pm_def row_ok_def Let_def)
  qed
  have "exclude_pair (a, b, j) ws = ws" if "\<forall>i < 12. fst (ws ! i) = 0" "a < 12" "b < 12" "0 \<le> j" for a b j and ws :: "(int \<times> bool) list"
    using that by (simp add: exclude_pair_def Let_def)
  then have "flap_wants False ts = map2 (flap_want False) PS_FLAP_TABLE ts" using z by (simp add: flap_wants_def PS_FLAP_PAIRS_def)
  then show ?thesis using z assms(2) by simp
qed

section \<open>Properties\<close>

text \<open>Claim C17. The mechanical envelope: whatever the targets, the gate and the rate scale (NaN included), a turn writes for each of the 12 flaps one pulse
  within 900 to 2100 us and keeps the position within the flap's envelope; with a rate scale between 0 and 1 no flap moves more than 12 permille
  in a turn.\<close>

theorem servo_stays_in_envelope:
  assumes "servo_wf s" "servo_task_turn can_act cu rs s = (pulses, s')"
  shows "servo_wf s' \<and> length pulses = 12 \<and> (\<forall>p \<in> set pulses. 900 \<le> p \<and> p \<le> 2100) \<and>
    (xle (Fin 0) rs \<and> xle rs (Fin 1) \<longrightarrow> (\<forall>i < 12. \<bar>cur_pm s' ! i - cur_pm s ! i\<bar> \<le> 12))"
proof -
  have "\<bar>cur_pm s' ! i - cur_pm s ! i\<bar> \<le> 12" if "i < 12" "xle (Fin 0) rs" "xle rs (Fin 1)" for i
    using slew_rate [OF slew_step_pos, of can_act cu rs "PS_FLAP_TABLE ! i" "s_targets s ! i"] slew_step_max [OF row_ok [OF that(1)] that(2,3)]
      turn_effect(3) [OF assms that(1)]
    unfolding next_pm_def by (metis order_trans)
  then show ?thesis using turn_wf [OF assms] turn_effect(1) [OF assms] flap_write_range by auto
qed

lemma servo_init_wf: "servo_wf servo_init"
  by (simp add: servo_wf_def servo_init_def in_env_def) (use row_ok in \<open>force simp: row_ok_def\<close>)

theorem servo_stays_in_envelope_witness:
  "servo_wf servo_init \<and> servo_wf (snd (servo_task_turn True 0 (Fin 1) (flight_targets_set 3 1000 0 False servo_init)))"
proof -
  have "servo_wf (flight_targets_set 3 1000 0 False servo_init)"
    using servo_init_wf by (simp add: servo_wf_def flight_targets_set_def)
  from servo_stays_in_envelope [OF this prod.collapse [symmetric]] servo_init_wf show ?thesis by blast
qed

text \<open>Pairwise exclusion: the target every turn tracks and publishes keeps each overlapping pair at or below its joint limit and each
  flap within its envelope, whatever was commanded.\<close>

lemma servo_targets_excluded:
  assumes "servo_wf s" "servo_task_turn can_act cu rs s = (pulses, s')" "(a, b, j) \<in> set PS_FLAP_PAIRS"
  shows "\<bar>st_target_pm (s_states s' ! a)\<bar> + \<bar>st_target_pm (s_states s' ! b)\<bar> \<le> j \<and> in_env a (st_target_pm (s_states s' ! a))"
proof -
  have "length (s_targets s) = 12" using assms(1) by (simp add: servo_wf_def)
  note w = flap_wants_ok [OF this, of can_act]
  have "a < 12" "b < 12" using assms(3) by (auto simp: PS_FLAP_PAIRS_def)
  then show ?thesis using w assms(3) turn_effect(6) [OF assms(1,2)] by (auto simp: wants_ok_def)
qed

text \<open>With the gate closed every flap reaches neutral: after at most 1000 turns (10 s), however small the rate scale and wherever the flaps
  were, all positions are 0 and every further pulse is the neutral 1500 us.\<close>

lemma servo_reaches_neutral:
  assumes "servo_wf s" "1000 \<le> n"
  shows "cur_pm (turns False cu rs n s) = replicate 12 0 \<and> fst (servo_task_turn False cu rs (turns False cu rs n s)) = replicate 12 1500"
proof -
  let ?s = "turns False cu rs n s"
  have wf: "servo_wf ?s" "s_targets ?s = s_targets s" using turns_distance [OF assms(1)] by auto
  have t: "length (s_targets s) = 12" using assms(1) by (simp add: servo_wf_def)
  have "\<bar>cur_pm s ! i\<bar> \<le> 1000" if "i < 12" for i
    using assms(1) that row_ok [OF that] by (auto simp: servo_wf_def in_env_def row_ok_def)
  then have z: "cur_pm ?s ! i = 0" if "i < 12" for i
    using turns_distance [OF assms(1), of False cu rs n] wants_closed [OF t that] that assms(2) by force
  then have "cur_pm ?s = replicate 12 0" using wf(1) by (intro nth_equalityI) (simp_all add: servo_wf_def)
  moreover have "next_pm False cu rs ?s i = 0" if "i < 12" for i
    using z [OF that] wants_closed [OF t that] slew_step_pos [of False cu rs "PS_FLAP_TABLE ! i" "s_targets s ! i"] wf(2) by (simp add: next_pm_def slew_def)
  then have "fst (servo_task_turn False cu rs ?s) = replicate 12 1500"
    using turn_effect(1) [OF wf(1) prod.collapse [symmetric], of False cu rs] flap_write_neutral
    by (intro nth_equalityI) simp_all
  ultimately show ?thesis by blast
qed

text \<open>Between legal targets the horns may pass through an illegal position: two flaps of a pair that stand at 900 and 495 permille (a
  legal pair, reached from neutral) and are sent to the legal pair 500 and 900, the first with the slowest rate, stand one turn later at a sum of
  1406, above the joint limit of 1400.\<close>

lemma exclusion_not_kept_while_slewing:
  "let s1 = turns True 0 (Fin 1) 2000 (flight_targets_set 1 495 0 False (flight_targets_set 0 900 0 False servo_init));
       s2 = snd (servo_task_turn True 0 (Fin 1) (flight_targets_set 1 900 0 False (flight_targets_set 0 500 1 False s1)))
   in cur_pm s1 ! 0 + cur_pm s1 ! 1 = 1395 \<and> cur_pm s2 ! 0 + cur_pm s2 ! 1 = 1406 \<and>
      st_target_pm (s_states s2 ! 0) = 500 \<and> st_target_pm (s_states s2 ! 1) = 900"
proof -
  let ?t = "\<lambda>p r. \<lparr>t_pos_pm = p, t_rate_lim = r, t_brake = False\<rparr>"
  let ?s0 = "flight_targets_set 1 495 0 False (flight_targets_set 0 900 0 False servo_init)"
  let ?s1 = "turns True 0 (Fin 1) 2000 ?s0"
  let ?u = "flight_targets_set 1 900 0 False (flight_targets_set 0 500 1 False ?s1)"
  have wf0: "servo_wf ?s0" using servo_init_wf by (simp add: servo_wf_def flight_targets_set_def)
  have tg: "s_targets ?s0 = ?t 900 0 # ?t 495 0 # replicate 10 neutral_target"
    by (simp add: servo_init_def flight_targets_set_def numeral_eq_Suc)
  have z: "flap_want True c neutral_target = (0, False)" if "row_ok c" for c
    using that by (auto simp: flap_want_def neutral_target_def clamp_pm_def row_ok_def Let_def)
  have w0: "fst (flap_wants True (?t 900 0 # ?t 495 0 # replicate 10 neutral_target) ! 0) = 900"
    "fst (flap_wants True (?t 900 0 # ?t 495 0 # replicate 10 neutral_target) ! 1) = 495"
    "fst (flap_wants True (?t 500 1 # ?t 900 0 # replicate 10 neutral_target) ! 0) = 500"
    "fst (flap_wants True (?t 500 1 # ?t 900 0 # replicate 10 neutral_target) ! 1) = 900"
    by code_simp+
  have wf1: "servo_wf ?s1" "s_targets ?s1 = s_targets ?s0" using turns_distance [OF wf0] by auto
  have c1: "cur_pm ?s1 ! 0 = 900" "cur_pm ?s1 ! 1 = 495"
    using turns_arrive [OF wf0, of 0 2000] turns_arrive [OF wf0, of 1 2000] w0 unfolding tg by simp_all
  have wfu: "servo_wf ?u" using wf1 by (simp add: servo_wf_def flight_targets_set_def)
  have tu: "s_targets ?u = ?t 500 1 # ?t 900 0 # replicate 10 neutral_target" and cu: "cur_pm ?u = cur_pm ?s1"
    using wf1(2) unfolding tg by (simp_all add: flight_targets_set_def)
  have st: "slew_step True 0 (Fin 1) (PS_FLAP_TABLE ! 0) (?t 500 1) = 1" "slew_step True 0 (Fin 1) (PS_FLAP_TABLE ! 1) (?t 900 0) = 12"
    by code_simp+
  note te = turn_effect [where can_act = True and cu = 0 and rs = "Fin 1", OF wfu prod.collapse [symmetric]]
  have "next_pm True 0 (Fin 1) ?u 0 = 899" "next_pm True 0 (Fin 1) ?u 1 = 507"
    unfolding next_pm_def tu cu using w0 st c1 by (simp_all add: slew_def)
  then show ?thesis using te(3) [of 0] te(3) [of 1] te(6) [of 0] te(6) [of 1] c1 w0 unfolding Let_def tu by simp
qed

end
