(* ===== verification/Node_Glue.thy ===== *)
theory Node_Glue
  imports Safety_Esp
begin

text \<open>
  How a node's application hangs on the safety service: the transitions the safety core reports are delivered, in order, to
  the application's callback (\<open>on_core_transition\<close> of \<open>ps_safety_esp.c\<close> calls \<open>cfg->on_transition\<close>). The core logs the calls it makes;
  those an operation added are handed to the callback here. The locale \<open>safe_on_stop\<close> is what the nodes with actuators promise of it.
\<close>

section \<open>Delivery\<close>

definition new_calls :: "'w safety_esp \<Rightarrow> 'w safety_esp \<Rightarrow> (u8 \<times> u8 \<times> u8) list" where
  "new_calls s s' = drop (length (calls (core s))) (calls (core s'))"

definition on_core_transition ::
    "(u8 \<Rightarrow> u8 \<Rightarrow> u8 \<Rightarrow> 'a \<Rightarrow> 'a) \<Rightarrow> 'w safety_esp \<Rightarrow> 'w safety_esp \<Rightarrow> 'a \<Rightarrow> 'a" where
  "on_core_transition cb s s' a = foldl (\<lambda>a (old, new, cause). cb old new cause a) a (new_calls s s')"

lemma no_new_calls [simp]: "on_core_transition cb s s a = a"
  by (simp add: on_core_transition_def new_calls_def)

section \<open>The contract of the callback\<close>

text \<open>\<open>neutral\<close>: the application's targets ask for no force. A stop state makes them so, and no transition undoes it.\<close>

locale safe_on_stop =
  fixes cb :: "u8 \<Rightarrow> u8 \<Rightarrow> u8 \<Rightarrow> 'a \<Rightarrow> 'a" and neutral :: "'a \<Rightarrow> bool"
  assumes stop_neutral: "new \<in> {PS_STATE_PASSIVE, PS_STATE_ESTOP, PS_STATE_FAULT} \<Longrightarrow> neutral (cb old new cause a)"
    and keeps_neutral: "neutral a \<Longrightarrow> neutral (cb old new cause a)"
begin

lemma calls_neutral: "neutral a \<Longrightarrow> neutral (foldl (\<lambda>a (old, new, cause). cb old new cause a) a cs)"
  by (induction cs arbitrary: a) (auto simp: keeps_neutral)

text \<open>An operation that reports a stop, at whatever place among its transitions, leaves neutral targets.\<close>

lemma stop_reported:
  assumes "(old, new, cause) \<in> set (new_calls s s')" "new \<in> {PS_STATE_PASSIVE, PS_STATE_ESTOP, PS_STATE_FAULT}"
  shows "neutral (on_core_transition cb s s' a)"
proof -
  obtain xs ys where "new_calls s s' = xs @ (old, new, cause) # ys" using split_list [OF assms(1)] by blast
  then show ?thesis using calls_neutral stop_neutral [OF assms(2)] by (simp add: on_core_transition_def)
qed

end

section \<open>What the operations report\<close>

lemma estop_reported:
  assumes "state (core s) \<noteq> PS_STATE_ESTOP" "on_transition (core s)"
  shows "\<exists>cause. new_calls s (s\<lparr>core := ps_safety_core_on_estop (core s) t k\<rparr>) = [(state (core s), PS_STATE_ESTOP, cause)]"
  using assms by (auto simp: new_calls_def ps_safety_core_on_estop_def go_def Let_def)

lemma estop_frame_reported:
  assumes "ps_can_id_type (f_id f) = PS_T_ESTOP" "state (core s) \<noteq> PS_STATE_ESTOP" "on_transition (core s)"
  shows "\<exists>cause. (state (core s), PS_STATE_ESTOP, cause) \<in> set (new_calls s (safety_rx t f s))"
  using estop_reported [OF assms(2,3), of t "es_cause (PS_WIRE_READ dec_estop (f_data f))"] assms(1) by (auto simp: safety_rx_def)

context safe_on_stop
begin

text \<open>An ESTOP frame neutralises the targets in the dispatch of the frame.\<close>

lemma estop_frame_neutral:
  assumes "ps_can_id_type (f_id f) = PS_T_ESTOP" "state (core s) \<noteq> PS_STATE_ESTOP" "on_transition (core s)"
  shows "neutral (on_core_transition cb s (safety_rx t f s) a)"
  using estop_frame_reported [OF assms, of t] stop_reported by blast

end

section \<open>A latched service stays latched\<close>

lemma core_event_latched:
  assumes "latched c"
  shows "latched (ps_safety_core_on_heartbeat c t hb)" "latched (ps_safety_core_on_estop c t k)" "latched (ps_safety_core_on_cmd c t)"
    "latched (ps_safety_core_on_mode_set c t m)" "latched (ps_safety_core_on_bus_down c t)" "latched (ps_safety_core_tick c t)"
  using assms by (auto simp: latched_def core_defs Let_def)

lemma service_latched:
  assumes "started s" "latched (core s)"
  shows "started (ps_safety_note_cmd t s) \<and> latched (core (ps_safety_note_cmd t s))"
    "started (ps_safety_note_mode_set t m s) \<and> latched (core (ps_safety_note_mode_set t m s))"
    "started (can_state_cb t st s) \<and> latched (core (can_state_cb t st s))"
    "started (tick_cb t s) \<and> latched (core (tick_cb t s))"
    "ps_can_id_type (f_id f) \<noteq> PS_T_CLEAR_ESTOP \<Longrightarrow> started (safety_rx t f s) \<and> latched (core (safety_rx t f s))"
  using assms by (simp_all add: ps_safety_note_cmd_def ps_safety_note_mode_set_def can_state_cb_def tick_cb_def safety_rx_def Let_def core_event_latched)

section \<open>A callback that records the state\<close>

text \<open>Between two states of the core every change was reported, and the last report is the state it is in.\<close>

definition tracks :: "ps_safety_core \<Rightarrow> ps_safety_core \<Rightarrow> bool" where
  "tracks c c' \<longleftrightarrow> on_transition c' = on_transition c \<and>
     (on_transition c \<longrightarrow> (\<exists>cs. calls c' = calls c @ cs \<and> state c' = (if cs = [] then state c else fst (snd (last cs)))))"

lemma tracks_same: "on_transition c' = on_transition c \<Longrightarrow> state c' = state c \<Longrightarrow> calls c' = calls c \<Longrightarrow> tracks c c'"
  by (simp add: tracks_def)

lemma tracks_go: "on_transition c' = on_transition c \<Longrightarrow> state c' = state c \<Longrightarrow> calls c' = calls c \<Longrightarrow> tracks c (go c' s k)"
  by (auto simp: tracks_def calls_go)

lemma tracks_core:
  "tracks c (ps_safety_core_on_estop c t k)" "tracks c (ps_safety_core_on_heartbeat c t hb)" "tracks c (snd (ps_safety_core_on_clear c t mg n))"
  "tracks c (ps_safety_core_on_bus_down c t)" "tracks c (ps_safety_core_tick c t)"
  by (simp_all add: ps_safety_core_on_estop_def ps_safety_core_on_heartbeat_def ps_safety_core_on_clear_def ps_safety_core_on_bus_down_def
    ps_safety_core_tick_def Let_def tracks_same tracks_go)

lemma service_tracks:
  "tracks (core s) (core (safety_rx t f s))" "tracks (core s) (core (can_state_cb t st s))" "tracks (core s) (core (tick_cb t s))"
  by (simp_all add: safety_rx_def can_state_cb_def tick_cb_def Let_def tracks_core tracks_same)

text \<open>\<open>shown\<close>: the state the application displays, which its callback writes.\<close>

locale state_display =
  fixes cb :: "u8 \<Rightarrow> u8 \<Rightarrow> u8 \<Rightarrow> 'a \<Rightarrow> 'a" and shown :: "'a \<Rightarrow> u8"
  assumes shown_cb: "shown (cb old new cause a) = new"
begin

lemma calls_shown: "shown (foldl (\<lambda>a (old, new, cause). cb old new cause a) a cs) = (if cs = [] then shown a else fst (snd (last cs)))"
  by (induction cs rule: rev_induct) (auto simp: shown_cb split: prod.splits)

lemma display_follows:
  assumes "tracks (core s) (core s')" "on_transition (core s)" "shown a = state (core s)"
  shows "shown (on_core_transition cb s s' a) = state (core s')"
  using assms by (auto simp: tracks_def on_core_transition_def new_calls_def calls_shown)

end

end
