(* ===== verification/Ps_Ctl.thy ===== *)
theory Ps_Ctl
  imports Ieee32
begin

text \<open>
  The control library \<open>firmware/components/ps_ctl\<close>: the PI(D) controller with clamping anti-windup (\<open>pid.c\<close>), the
  field-oriented-control mathematics (\<open>foc_math.c\<close>) and the Mahony attitude filter (\<open>imu_mahony.c\<close>), in IEEE arithmetic.
  \<open>cosf\<close>, \<open>sinf\<close> and \<open>sqrtf\<close> of the C library are parameters.
\<close>

section \<open>The PID controller\<close>

record ps_pid =
  pid_kp :: xfloat
  pid_ki :: xfloat
  pid_kd :: xfloat
  out_min :: xfloat
  out_max :: xfloat
  pid_integ :: xfloat
  prev_err :: xfloat
  primed :: bool

definition ps_pid_reset :: "ps_pid \<Rightarrow> ps_pid" where
  "ps_pid_reset p = p\<lparr>pid_integ := Fin 0, prev_err := Fin 0, primed := False\<rparr>"

definition ps_pid_init :: "xfloat \<Rightarrow> xfloat \<Rightarrow> xfloat \<Rightarrow> xfloat \<Rightarrow> xfloat \<Rightarrow> ps_pid \<Rightarrow> ps_pid" where
  "ps_pid_init kp ki kd lo hi p =
     ps_pid_reset (p\<lparr>pid_kp := kp, pid_ki := ki, pid_kd := kd, out_min := lo, out_max := hi\<rparr>)"

definition ps_pid_step :: "xfloat \<Rightarrow> xfloat \<Rightarrow> ps_pid \<Rightarrow> xfloat \<times> ps_pid" where
  "ps_pid_step err dt p =
     (let d = (if primed p \<and> xlt (Fin 0) dt then xdiv (xmul (pid_kd p) (xsub err (prev_err p))) dt else Fin 0);
          p = p\<lparr>prev_err := err\<rparr>;
          p = p\<lparr>primed := True\<rparr>;
          di = (if xlt (Fin 0) dt then xmul (xmul (pid_ki p) err) dt else Fin 0);
          unsat = xadd (xadd (xadd (xmul (pid_kp p) err) (pid_integ p)) di) d;
          out = (if xlt (out_max p) unsat then out_max p else if xlt unsat (out_min p) then out_min p else unsat);
          windup = (xlt (out_max p) unsat \<and> xlt (Fin 0) err \<or> xlt unsat (out_min p) \<and> xlt err (Fin 0));
          p = (if \<not> windup then p\<lparr>pid_integ := xadd (pid_integ p) di\<rparr> else p)
      in (out, p))"

section \<open>Field-oriented control\<close>

record ps_ab =
  ab_alpha :: xfloat
  ab_beta :: xfloat

record ps_dq =
  dq_d :: xfloat
  dq_q :: xfloat

abbreviation PS_INV_SQRT3 :: xfloat where "PS_INV_SQRT3 \<equiv> xround (5773502691896258 / 10 ^ 16)"
abbreviation PS_SQRT3_2 :: xfloat where "PS_SQRT3_2 \<equiv> xround (8660254037844386 / 10 ^ 16)"

definition ps_foc_clarke :: "xfloat \<Rightarrow> xfloat \<Rightarrow> ps_ab" where
  "ps_foc_clarke ia ib = \<lparr> ab_alpha = ia, ab_beta = xmul (xadd ia (xmul (Fin 2) ib)) PS_INV_SQRT3 \<rparr>"

record trig =
  cosf :: "xfloat \<Rightarrow> xfloat"
  sinf :: "xfloat \<Rightarrow> xfloat"

definition ps_foc_park :: "trig \<Rightarrow> ps_ab \<Rightarrow> xfloat \<Rightarrow> ps_dq" where
  "ps_foc_park T ab theta =
     (let c = cosf T theta; s = sinf T theta
      in \<lparr> dq_d = xadd (xmul (ab_alpha ab) c) (xmul (ab_beta ab) s),
           dq_q = xadd (xmul (xneg (ab_alpha ab)) s) (xmul (ab_beta ab) c) \<rparr>)"

definition ps_foc_inv_park :: "trig \<Rightarrow> ps_dq \<Rightarrow> xfloat \<Rightarrow> ps_ab" where
  "ps_foc_inv_park T dq theta =
     (let c = cosf T theta; s = sinf T theta
      in \<lparr> ab_alpha = xsub (xmul (dq_d dq) c) (xmul (dq_q dq) s),
           ab_beta = xadd (xmul (dq_d dq) s) (xmul (dq_q dq) c) \<rparr>)"

definition ps_foc_svpwm :: "ps_ab \<Rightarrow> xfloat \<Rightarrow> xfloat list" where
  "ps_foc_svpwm v_ab v_bus =
     (if xle v_bus (Fin 0) then [Fin (1 / 2), Fin (1 / 2), Fin (1 / 2)]
      else
        let va = ab_alpha v_ab;
            vb = xadd (xmul (Fin (- 1 / 2)) (ab_alpha v_ab)) (xmul PS_SQRT3_2 (ab_beta v_ab));
            vc = xsub (xmul (Fin (- 1 / 2)) (ab_alpha v_ab)) (xmul PS_SQRT3_2 (ab_beta v_ab));
            vmax = (if xlt vb va then va else vb);
            vmax = (if xlt vmax vc then vc else vmax);
            vmin = (if xlt va vb then va else vb);
            vmin = (if xlt vc vmin then vc else vmin);
            vcom = xmul (Fin (1 / 2)) (xadd vmax vmin);
            inv_bus = xdiv (Fin 1) v_bus;
            duty = [xadd (Fin (1 / 2)) (xmul (xsub va vcom) inv_bus),
                    xadd (Fin (1 / 2)) (xmul (xsub vb vcom) inv_bus),
                    xadd (Fin (1 / 2)) (xmul (xsub vc vcom) inv_bus)]
        in map (\<lambda>d. if xlt (Fin 1) d then Fin 1 else if xlt d (Fin 0) then Fin 0 else d) duty)"

record ps_foc_ctl =
  pid_d :: ps_pid
  pid_q :: ps_pid
  v_limit :: xfloat

definition ps_foc_ctl_init :: "xfloat \<Rightarrow> xfloat \<Rightarrow> xfloat \<Rightarrow> ps_foc_ctl \<Rightarrow> ps_foc_ctl" where
  "ps_foc_ctl_init kp ki vl c =
     c\<lparr>v_limit := vl, pid_d := ps_pid_init kp ki (Fin 0) (xneg vl) vl (pid_d c),
       pid_q := ps_pid_init kp ki (Fin 0) (xneg vl) vl (pid_q c)\<rparr>"

definition ps_foc_ctl_reset :: "ps_foc_ctl \<Rightarrow> ps_foc_ctl" where
  "ps_foc_ctl_reset c = c\<lparr>pid_d := ps_pid_reset (pid_d c), pid_q := ps_pid_reset (pid_q c)\<rparr>"

record foc_in =
  in_ia :: xfloat
  in_ib :: xfloat
  in_theta :: xfloat
  in_id :: xfloat
  in_iq :: xfloat
  in_v_bus :: xfloat
  in_dt :: xfloat

definition ps_foc_ctl_step :: "trig \<Rightarrow> foc_in \<Rightarrow> ps_foc_ctl \<Rightarrow> xfloat list \<times> ps_foc_ctl" where
  "ps_foc_ctl_step T i c =
     (let i_ab = ps_foc_clarke (in_ia i) (in_ib i);
          i_dq = ps_foc_park T i_ab (in_theta i);
          (vd, pd) = ps_pid_step (xsub (in_id i) (dq_d i_dq)) (in_dt i) (pid_d c);
          c = c\<lparr>pid_d := pd\<rparr>;
          (vq, pq) = ps_pid_step (xsub (in_iq i) (dq_q i_dq)) (in_dt i) (pid_q c);
          c = c\<lparr>pid_q := pq\<rparr>;
          v_ab = ps_foc_inv_park T \<lparr> dq_d = vd, dq_q = vq \<rparr> (in_theta i)
      in (ps_foc_svpwm v_ab (in_v_bus i), c))"

section \<open>The attitude filter\<close>

record ps_mahony =
  mh_q0 :: xfloat
  mh_q1 :: xfloat
  mh_q2 :: xfloat
  mh_q3 :: xfloat
  two_kp :: xfloat
  two_ki :: xfloat
  integ_x :: xfloat
  integ_y :: xfloat
  integ_z :: xfloat

definition ps_mahony_init :: "xfloat \<Rightarrow> xfloat \<Rightarrow> ps_mahony" where
  "ps_mahony_init kp ki =
     \<lparr> mh_q0 = Fin 1, mh_q1 = Fin 0, mh_q2 = Fin 0, mh_q3 = Fin 0, two_kp = xmul (Fin 2) kp, two_ki = xmul (Fin 2) ki,
       integ_x = Fin 0, integ_y = Fin 0, integ_z = Fin 0 \<rparr>"

text \<open>\<open>1e-12f\<close>, the norm below which a vector carries no direction.\<close>

abbreviation TINY :: xfloat where "TINY \<equiv> xround (1 / 10 ^ 12)"

text \<open>The correction from the accelerometer: the rates fed to the integration, and the filter with its integral terms.\<close>

definition mahony_correct ::
    "(xfloat \<Rightarrow> xfloat) \<Rightarrow> xfloat \<Rightarrow> xfloat \<times> xfloat \<times> xfloat \<Rightarrow> xfloat \<times> xfloat \<times> xfloat \<Rightarrow> xfloat \<Rightarrow> ps_mahony \<Rightarrow>
     (xfloat \<times> xfloat \<times> xfloat) \<times> ps_mahony" where
  "mahony_correct sqrtf norm_sq gyr acc dt m =
     (let (gx, gy, gz) = gyr; (ax, ay, az) = acc;
          recip = xdiv (Fin 1) (sqrtf norm_sq);
          ax = xmul ax recip; ay = xmul ay recip; az = xmul az recip;
          halfvx = xsub (xmul (mh_q1 m) (mh_q3 m)) (xmul (mh_q0 m) (mh_q2 m));
          halfvy = xadd (xmul (mh_q0 m) (mh_q1 m)) (xmul (mh_q2 m) (mh_q3 m));
          halfvz = xadd (xsub (xmul (mh_q0 m) (mh_q0 m)) (Fin (1 / 2))) (xmul (mh_q3 m) (mh_q3 m));
          halfex = xsub (xmul ay halfvz) (xmul az halfvy);
          halfey = xsub (xmul az halfvx) (xmul ax halfvz);
          halfez = xsub (xmul ax halfvy) (xmul ay halfvx);
          (gx, gy, gz, m) =
            (if xlt (Fin 0) (two_ki m) then
               let m = m\<lparr>integ_x := xadd (integ_x m) (xmul (xmul (two_ki m) halfex) dt),
                         integ_y := xadd (integ_y m) (xmul (xmul (two_ki m) halfey) dt),
                         integ_z := xadd (integ_z m) (xmul (xmul (two_ki m) halfez) dt)\<rparr>
               in (xadd gx (integ_x m), xadd gy (integ_y m), xadd gz (integ_z m), m)
             else (gx, gy, gz, m\<lparr>integ_x := Fin 0, integ_y := Fin 0, integ_z := Fin 0\<rparr>))
      in ((xadd gx (xmul (two_kp m) halfex), xadd gy (xmul (two_kp m) halfey), xadd gz (xmul (two_kp m) halfez)), m))"

definition mahony_integrate :: "(xfloat \<Rightarrow> xfloat) \<Rightarrow> xfloat \<times> xfloat \<times> xfloat \<Rightarrow> xfloat \<Rightarrow> ps_mahony \<Rightarrow> ps_mahony" where
  "mahony_integrate sqrtf gyr dt m =
     (let (gx, gy, gz) = gyr;
          h = xmul (Fin (1 / 2)) dt;
          gx = xmul gx h; gy = xmul gy h; gz = xmul gz h;
          qa = mh_q0 m; qb = mh_q1 m; qc = mh_q2 m; qd = mh_q3 m;
          m = m\<lparr>mh_q0 := xadd (mh_q0 m) (xsub (xsub (xmul (xneg qb) gx) (xmul qc gy)) (xmul qd gz))\<rparr>;
          m = m\<lparr>mh_q1 := xadd (mh_q1 m) (xsub (xadd (xmul qa gx) (xmul qc gz)) (xmul qd gy))\<rparr>;
          m = m\<lparr>mh_q2 := xadd (mh_q2 m) (xadd (xsub (xmul qa gy) (xmul qb gz)) (xmul qd gx))\<rparr>;
          m = m\<lparr>mh_q3 := xadd (mh_q3 m) (xsub (xadd (xmul qa gz) (xmul qb gy)) (xmul qc gx))\<rparr>;
          n = sqrtf (xadd (xadd (xadd (xmul (mh_q0 m) (mh_q0 m)) (xmul (mh_q1 m) (mh_q1 m))) (xmul (mh_q2 m) (mh_q2 m)))
                          (xmul (mh_q3 m) (mh_q3 m)))
      in if xlt TINY n then
           let recip = xdiv (Fin 1) n
           in m\<lparr>mh_q0 := xmul (mh_q0 m) recip, mh_q1 := xmul (mh_q1 m) recip, mh_q2 := xmul (mh_q2 m) recip,
                mh_q3 := xmul (mh_q3 m) recip\<rparr>
         else m\<lparr>mh_q0 := Fin 1, mh_q1 := Fin 0, mh_q2 := Fin 0, mh_q3 := Fin 0\<rparr>)"

definition ps_mahony_update ::
    "(xfloat \<Rightarrow> xfloat) \<Rightarrow> xfloat \<times> xfloat \<times> xfloat \<Rightarrow> xfloat \<times> xfloat \<times> xfloat \<Rightarrow> xfloat \<Rightarrow> ps_mahony \<Rightarrow> ps_mahony" where
  "ps_mahony_update sqrtf gyr acc dt m =
     (let (ax, ay, az) = acc;
          norm_sq = xadd (xadd (xmul ax ax) (xmul ay ay)) (xmul az az);
          (gyr, m) = (if xlt TINY norm_sq then mahony_correct sqrtf norm_sq gyr acc dt m else (gyr, m))
      in mahony_integrate sqrtf gyr dt m)"

definition ps_mahony_get_quat :: "ps_mahony \<Rightarrow> xfloat list" where
  "ps_mahony_get_quat m = [mh_q0 m, mh_q1 m, mh_q2 m, mh_q3 m]"

definition quat_q15 :: "i16 \<Rightarrow> xfloat \<Rightarrow> i16" where
  "quat_q15 u x =
     (let v = xmul x (Fin 32767);
          v = (if xle (Fin 0) v then xadd v (Fin (1 / 2)) else xsub v (Fin (1 / 2)));
          v = (if xlt (Fin 32767) v then Fin 32767 else if xlt v (Fin (- 32768)) then Fin (- 32768) else v)
      in to_i16 u v)"

definition ps_mahony_get_quat_q15 :: "i16 \<Rightarrow> ps_mahony \<Rightarrow> i16 list" where
  "ps_mahony_get_quat_q15 u m = map (quat_q15 u) (ps_mahony_get_quat m)"

section \<open>The integral stays inside the output range\<close>

text \<open>A PI controller (no derivative gain) with gains that are not negative and limits around zero, its integral within the
  limits. \<open>small\<close> keeps the difference of two errors finite.\<close>

abbreviation small :: "xfloat \<Rightarrow> bool" where "small \<equiv> xb 126"

definition pid_ok :: "rat \<Rightarrow> rat \<Rightarrow> ps_pid \<Rightarrow> bool" where
  "pid_ok lo hi p \<longleftrightarrow> lo \<le> 0 \<and> 0 \<le> hi \<and> is_f32 lo \<and> is_f32 hi \<and> out_min p = Fin lo \<and> out_max p = Fin hi \<and>
     (\<exists>a\<ge>0. pid_kp p = Fin a) \<and> (\<exists>b\<ge>0. pid_ki p = Fin b) \<and> pid_kd p = Fin 0 \<and> small (prev_err p) \<and>
     (\<exists>i. pid_integ p = Fin i \<and> is_f32 i \<and> lo \<le> i \<and> i \<le> hi)"

text \<open>With no derivative gain the derivative term is zero.\<close>

lemma no_derivative: "small x \<Longrightarrow> small y \<Longrightarrow> 0 < t \<Longrightarrow> xdiv (xmul (Fin 0) (xsub x y)) (Fin t) = Fin 0"
proof -
  assume "small x" "small y" "0 < t"
  then have "xb (Suc 126) (xsub x y)" by (intro xb_sub) auto
  then obtain r where "xsub x y = Fin r" by (auto simp: xb_def)
  then show ?thesis using \<open>0 < t\<close> by (simp add: xround_Fin)
qed

text \<open>The update of the integral when the error pushes up: \<open>P\<close> the proportional term, \<open>D\<close> the increment.\<close>

lemma sum_number:
  assumes "xle (Fin 0) P" "xle (Fin 0) D" "is_f32 i"
  shows "xle (Fin i) (xadd P (Fin i))" "xle (Fin i) x \<Longrightarrow> xadd x D \<noteq> NaN" "xadd (xadd P (Fin i)) D \<noteq> NaN"
proof -
  have "xle (xadd (Fin 0) (Fin i)) (xadd P (Fin i))" using xadd_mono_Fin [OF assms(1)] .
  then show PI: "xle (Fin i) (xadd P (Fin i))" using assms(3) by (simp add: xround_Fin)
  have *: "xadd x D \<noteq> NaN" if "xle (Fin i) x" for x using that assms(2) by (cases x; cases D) (auto simp: xle_def)
  then show "xle (Fin i) x \<Longrightarrow> xadd x D \<noteq> NaN" "xadd (xadd P (Fin i)) D \<noteq> NaN" using PI by auto
qed

lemma integral_up:
  assumes "xle (Fin 0) P" "xle (Fin 0) D" "is_f32 i" "\<not> xlt (Fin hi) (xadd (xadd P (Fin i)) D)"
  obtains j where "xadd (Fin i) D = Fin j" "is_f32 j" "i \<le> j" "j \<le> hi"
proof -
  note PI = sum_number(1) [OF assms(1-3)] and up = sum_number(2) [OF assms(1-3)]
  have step: "xle (xadd (Fin i) D) (xadd (xadd P (Fin i)) D)" by (intro xadd_mono PI up xle_refl) simp
  have "xle (xadd (Fin 0) (Fin i)) (xadd D (Fin i))" using xadd_mono_Fin [OF assms(2)] .
  then have lo: "xle (Fin i) (xadd (Fin i) D)" using assms(3) by (simp add: xround_Fin xadd_comm)
  have hi: "xle (xadd (Fin i) D) (Fin hi)"
    using xle_trans [OF step] assms(4) up [OF PI] by (auto simp: xle_def)
  obtain j where j: "xadd (Fin i) D = Fin j" using lo hi by (cases "xadd (Fin i) D") (auto simp: xle_def)
  have "is_f32 j" using rep_xadd [of "Fin i" D] j by simp
  then show thesis using that j lo hi by simp
qed

lemma xneg_add: "xneg (xadd x y) = xadd (xneg x) (xneg y)"
proof -
  have "xneg (xround z) = xround (- z)" for z
    by (auto simp: xround_def Let_def)
  then show ?thesis by (cases x; cases y) (auto simp: add.commute)
qed

lemma xneg_xneg [simp]: "xneg (xneg x) = x"
  by (cases x) simp_all

lemma xlt_neg [simp]: "xlt (xneg x) (xneg y) \<longleftrightarrow> xlt y x" "xlt (Fin (- a)) (xneg y) \<longleftrightarrow> xlt y (Fin a)"
  by (cases x; cases y; auto) (cases y; auto)

lemma xle_neg [simp]: "xle (Fin 0) (xneg x) \<longleftrightarrow> xle x (Fin 0)"
  by (cases x) (auto simp: xle_def)

lemma integral_down:
  assumes "xle P (Fin 0)" "xle D (Fin 0)" "is_f32 i" "\<not> xlt (xadd (xadd P (Fin i)) D) (Fin lo)"
  obtains j where "xadd (Fin i) D = Fin j" "is_f32 j" "j \<le> i" "lo \<le> j"
proof -
  have "\<not> xlt (Fin (- lo)) (xadd (xadd (xneg P) (Fin (- i))) (xneg D))"
    using assms(4) unfolding xneg.simps(1) [symmetric] xneg_add [symmetric] by simp
  then obtain j where j: "xadd (Fin (- i)) (xneg D) = Fin j" "is_f32 j" "- i \<le> j" "j \<le> - lo"
    using integral_up [of "xneg P" "xneg D" "- i" "- lo"] assms(1-3) by (auto simp: is_f32_abs)
  have "xadd (Fin i) D = xneg (Fin j)" unfolding j(1) [symmetric] xneg_add by simp
  then show thesis using that [of "- j"] j(2-4) by (simp add: is_f32_abs)
qed

lemma pid_step_terms:
  assumes "D = (if xlt (Fin 0) dt then xmul (xmul (pid_ki p) e) dt else Fin 0)"
    and "d = (if primed p \<and> xlt (Fin 0) dt then xdiv (xmul (pid_kd p) (xsub e (prev_err p))) dt else Fin 0)"
    and "u = xadd (xadd (xadd (xmul (pid_kp p) e) (pid_integ p)) D) d"
  shows "ps_pid_step e dt p = (xclamp (out_min p) (out_max p) u,
    p\<lparr>prev_err := e, primed := True,
      pid_integ := (if xlt (out_max p) u \<and> xlt (Fin 0) e \<or> xlt u (out_min p) \<and> xlt e (Fin 0) then pid_integ p
                    else xadd (pid_integ p) D)\<rparr>)"
  unfolding assms by (simp add: ps_pid_step_def Let_def xclamp_def)

text \<open>One step: the output is a number within the limits, and the invariant is kept.\<close>

lemma pid_step_ok:
  assumes p: "pid_ok lo hi p" and e: "small e"
  shows "\<exists>r p'. ps_pid_step e (Fin t) p = (Fin r, p') \<and> is_f32 r \<and> lo \<le> r \<and> r \<le> hi \<and> pid_ok lo hi p'"
proof -
  obtain a b i where g: "pid_kp p = Fin a" "0 \<le> a" "pid_ki p = Fin b" "0 \<le> b" "pid_kd p = Fin 0"
    "pid_integ p = Fin i" "is_f32 i" "lo \<le> i" "i \<le> hi" "out_min p = Fin lo" "out_max p = Fin hi" "lo \<le> 0" "0 \<le> hi"
    "small (prev_err p)" "is_f32 lo" "is_f32 hi" using p unfolding pid_ok_def by blast
  obtain x where x: "e = Fin x" using e by (auto simp: xb_def)
  define P where "P = xmul (pid_kp p) e"
  define D where "D = (if xlt (Fin 0) (Fin t) then xmul (xmul (pid_ki p) e) (Fin t) else Fin 0)"
  define unsat where "unsat = xadd (xadd P (Fin i)) D"
  have d: "(if primed p \<and> xlt (Fin 0) (Fin t) then xdiv (xmul (pid_kd p) (xsub e (prev_err p))) (Fin t) else Fin 0) = Fin 0"
    using no_derivative [OF e g(14)] by (simp add: g(5))
  have u: "xadd (xadd (xadd P (Fin i)) D) (Fin 0) = unsat" unfolding unsat_def by (simp add: xadd_0)
  have pos: "xle (Fin 0) P \<and> xle (Fin 0) D" if "0 \<le> x"
    using that g(2,4) by (auto simp: P_def D_def g(1,3) x xround_nonneg intro!: xmul_pos_Fin)
  have neg: "xle P (Fin 0) \<and> xle D (Fin 0)" if "x \<le> 0"
    using that g(2,4) by (auto simp: P_def D_def g(1,3) x xround_nonpos mult_nonneg_nonpos intro!: xmul_neg_Fin)
  have nn: "unsat \<noteq> NaN"
  proof (cases "0 \<le> x")
    case True
    then show ?thesis using pos g(7) sum_number(3) unfolding unsat_def by blast
  next
    case False
    then have "xneg (xadd (xadd P (Fin i)) D) \<noteq> NaN"
      using neg g(7) sum_number(3) [of "xneg P" "xneg D" "- i"] by (simp add: xneg_add is_f32_abs)
    then show ?thesis unfolding unsat_def by auto
  qed
  define w where "w = (xlt (Fin hi) unsat \<and> 0 < x \<or> xlt unsat (Fin lo) \<and> x < 0)"
  have integ: "\<exists>j. (if \<not> w then xadd (Fin i) D else Fin i) = Fin j \<and> is_f32 j \<and> lo \<le> j \<and> j \<le> hi"
  proof (cases w)
    case False
    consider "0 < x" | "x = 0" | "x < 0" by linarith
    then show ?thesis
    proof cases
      case 1
      then have "\<not> xlt (Fin hi) (xadd (xadd P (Fin i)) D)" using False by (simp add: w_def unsat_def)
      then show ?thesis using integral_up [of P D i hi] pos 1 g(7,8) False by (metis less_imp_le order_trans)
    next
      case 2
      then have "D = Fin 0" by (simp add: D_def x g(3) xround_Fin)
      then show ?thesis using g(7,8,9) False by (simp add: xround_Fin)
    next
      case 3
      then have "\<not> xlt (xadd (xadd P (Fin i)) D) (Fin lo)" using False by (simp add: w_def unsat_def)
      then show ?thesis using integral_down [of P D i lo] neg 3 g(7,9) False by (metis less_imp_le order_trans)
    qed
  qed (use g in auto)
  obtain r where r: "xclamp (Fin lo) (Fin hi) unsat = Fin r" "lo \<le> r" "r \<le> hi"
    using xclamp_finite [of lo hi unsat] nn g(12,13) by auto
  define p' where "p' = p\<lparr>prev_err := e, primed := True, pid_integ := (if w then Fin i else xadd (Fin i) D)\<rparr>"
  have "ps_pid_step e (Fin t) p = (xclamp (Fin lo) (Fin hi) unsat, p')"
    using pid_step_terms [OF D_def d [symmetric] u [unfolded P_def g(6) [symmetric], symmetric]]
    unfolding p'_def w_def by (simp add: g(6,10,11) x)
  moreover have "pid_ok lo hi p'"
    using integ p e unfolding pid_ok_def p'_def by (cases w) (auto simp: g(6))
  moreover have "rep (xclamp (Fin lo) (Fin hi) unsat)" using g(15,16) unfolding xclamp_def unsat_def by auto
  then have "is_f32 r" unfolding r(1) by simp
  ultimately show ?thesis using r by simp
qed

section \<open>Regulators\<close>

text \<open>What the users of a controller rely on: from a good state every step with a moderate error gives a number within the
  limits and a good state again, whatever the time step.\<close>

locale regulator =
  fixes ok :: "'p \<Rightarrow> bool" and step :: "xfloat \<Rightarrow> xfloat \<Rightarrow> 'p \<Rightarrow> xfloat \<times> 'p" and lo :: rat and hi :: rat
  assumes step_ok: "ok p \<Longrightarrow> small e \<Longrightarrow>
    \<exists>r p'. step e (Fin t) p = (Fin r, p') \<and> is_f32 r \<and> lo \<le> r \<and> r \<le> hi \<and> ok p'"
begin

lemma step_bound:
  assumes "ok p" "small e" "- (2 ^ k) \<le> lo" "hi \<le> 2 ^ k"
  shows "xb k (fst (step e (Fin t) p))" "ok (snd (step e (Fin t) p))"
  using step_ok [OF assms(1,2), of t] assms(3,4) by (auto simp: xb_def)

end

interpretation pid: regulator "pid_ok lo hi" ps_pid_step lo hi for lo hi
  by unfold_locales (rule pid_step_ok)

primrec pid_run :: "(xfloat \<times> xfloat) list \<Rightarrow> ps_pid \<Rightarrow> xfloat list \<times> ps_pid" where
  "pid_run [] p = ([], p)"
| "pid_run (x # xs) p = (let (r, p) = ps_pid_step (fst x) (snd x) p; (rs, p) = pid_run xs p in (r # rs, p))"

lemma pid_run_ok:
  assumes "pid_ok lo hi p" "\<forall>x\<in>set xs. small (fst x) \<and> (\<exists>t. snd x = Fin t)"
  shows "(\<forall>y\<in>set (fst (pid_run xs p)). \<exists>r. y = Fin r \<and> lo \<le> r \<and> r \<le> hi) \<and> pid_ok lo hi (snd (pid_run xs p))"
  using assms
proof (induction xs arbitrary: p)
  case (Cons x xs)
  obtain t where t: "snd x = Fin t" "small (fst x)" using Cons.prems(2) by auto
  obtain r p' where s: "ps_pid_step (fst x) (Fin t) p = (Fin r, p')" "lo \<le> r" "r \<le> hi" "pid_ok lo hi p'"
    using pid.step_ok [OF Cons.prems(1) t(2), of t] by blast
  show ?case using Cons.IH [OF s(4)] Cons.prems(2) s by (auto simp: t(1) Let_def split: prod.splits)
qed simp

lemma pid_init_ok:
  assumes "0 \<le> a" "0 \<le> b" "lo \<le> 0" "0 \<le> hi" "is_f32 lo" "is_f32 hi"
  shows "pid_ok lo hi (ps_pid_init (Fin a) (Fin b) (Fin 0) (Fin lo) (Fin hi) p)"
  using assms by (auto simp: pid_ok_def ps_pid_init_def ps_pid_reset_def xb_def)

section \<open>The current loop\<close>

definition foc_ok :: "rat \<Rightarrow> ps_foc_ctl \<Rightarrow> bool" where
  "foc_ok V c \<longleftrightarrow> V \<le> 2 ^ 20 \<and> pid_ok (- V) V (pid_d c) \<and> pid_ok (- V) V (pid_q c)"

text \<open>What is used of \<open>cosf\<close> and \<open>sinf\<close>: at a finite angle they give a number of magnitude at most 1.\<close>

definition trig_ok :: "trig \<Rightarrow> bool" where
  "trig_ok T \<longleftrightarrow> (\<forall>x. is_f32 x \<longrightarrow> xb 0 (cosf T (Fin x)) \<and> xb 0 (sinf T (Fin x)))"

text \<open>A bus voltage that is absent or at least a volt, and currents below a million ampere.\<close>

definition bus_ok :: "xfloat \<Rightarrow> bool" where
  "bus_ok v \<longleftrightarrow> (\<exists>r. v = Fin r \<and> (r \<le> 0 \<or> 1 \<le> r))"

definition foc_in_ok :: "foc_in \<Rightarrow> bool" where
  "foc_in_ok i \<longleftrightarrow> xb 20 (in_ia i) \<and> xb 20 (in_ib i) \<and> xb 20 (in_id i) \<and> xb 20 (in_iq i) \<and> finite_x (in_theta i) \<and>
     (\<exists>t. in_dt i = Fin t) \<and> bus_ok (in_v_bus i)"

definition unit_duty :: "xfloat \<Rightarrow> bool" where
  "unit_duty d \<longleftrightarrow> (\<exists>r. d = Fin r \<and> 0 \<le> r \<and> r \<le> 1)"

lemma xb_consts: "xb 0 (Fin (1 / 2))" "xb 0 (Fin (- 1 / 2))" "xb 0 PS_SQRT3_2" "xb 0 PS_INV_SQRT3" "xb 1 (Fin 2)"
proof -
  have "f32 (of_int 1 * 2 powi - 1) = of_int 1 * 2 powi - 1" by (rule f32_exact) auto
  then have "f32 (1 / 2) = 1 / 2" by (simp add: power_int_minus inverse_eq_divide)
  then have h: "is_f32 (1 / 2)" by (simp add: is_f32_def)
  then show "xb 0 (Fin (1 / 2))" unfolding xb_def by (intro exI [of _ "1 / 2"]) simp
  show "xb 0 (Fin (- 1 / 2))" using h is_f32_abs [of "1 / 2"] unfolding xb_def by (intro exI [of _ "- 1 / 2"]) simp
  show "xb 0 PS_SQRT3_2" "xb 0 PS_INV_SQRT3" by (rule xround_xb; simp)+
  show "xb 1 (Fin 2)" using f32_pow2 [of 1] by (simp add: xb_def is_f32_def)
qed

lemma unit_half: "unit_duty (Fin (1 / 2))"
  unfolding unit_duty_def by (intro exI [of _ "1 / 2"]) simp

lemma clamp_unit: "d \<noteq> NaN \<Longrightarrow> unit_duty (if xlt (Fin 1) d then Fin 1 else if xlt d (Fin 0) then Fin 0 else d)"
  by (cases d) (auto simp: unit_duty_def)

lemma svpwm_unit:
  assumes "xb 22 (ab_alpha v)" "xb 22 (ab_beta v)" "bus_ok v_bus"
  shows "\<forall>d\<in>set (ps_foc_svpwm v v_bus). unit_duty d" "length (ps_foc_svpwm v v_bus) = 3"
proof -
  obtain u where u: "v_bus = Fin u" "u \<le> 0 \<or> 1 \<le> u" using assms(3) by (auto simp: bus_ok_def)
  have inv: "xb 0 (xdiv (Fin 1) v_bus)" if "1 \<le> u" using that by (simp add: u(1), intro xround_xb) auto
  note c = xb_mono [OF xb_mul [OF xb_consts(2) assms(1)]] xb_mono [OF xb_mul [OF xb_consts(3) assms(2)]]
  define a where "a = ab_alpha v"
  define b where "b = xadd (xmul (Fin (- 1 / 2)) (ab_alpha v)) (xmul PS_SQRT3_2 (ab_beta v))"
  define c where "c = xsub (xmul (Fin (- 1 / 2)) (ab_alpha v)) (xmul PS_SQRT3_2 (ab_beta v))"
  have va: "xb 23 a" using assms(1) unfolding a_def by (rule xb_mono) simp
  have vb: "xb 23 b" using xb_add [OF c(1) c(2), of 22] by (simp add: b_def)
  have vc: "xb 23 c" using xb_sub [OF c(1) c(2), of 22] by (simp add: c_def)
  have duty: "xadd (Fin (1 / 2)) (xmul (xsub x y) (xdiv (Fin 1) v_bus)) \<noteq> NaN" if "xb 23 x" "xb 24 y" "1 \<le> u" for x y
  proof -
    have "xb 25 (xsub x y)" using xb_sub [OF xb_mono [OF that(1)] that(2)] by simp
    then have "xb 25 (xmul (xsub x y) (xdiv (Fin 1) v_bus))" using xb_mul [OF _ inv [OF that(3)]] by simp
    then have "xb 26 (xadd (Fin (1 / 2)) (xmul (xsub x y) (xdiv (Fin 1) v_bus)))"
      using xb_add [OF xb_mono [OF xb_consts(1), of 25]] by simp
    then show ?thesis by (rule xb_not_NaN)
  qed
  show "\<forall>d\<in>set (ps_foc_svpwm v v_bus). unit_duty d"
  proof (cases "u \<le> 0")
    case True
    then show ?thesis using unit_half unfolding ps_foc_svpwm_def u(1) by simp
  next
    case False
    then have "1 \<le> u" using u(2) by simp
    with False have u1: "1 \<le> u" "\<not> xle v_bus (Fin 0)" by (simp_all add: u(1))
    define mx where "mx = (let m = (if xlt b a then a else b) in if xlt m c then c else m)"
    define mn where "mn = (let m = (if xlt a b then a else b) in if xlt c m then c else m)"
    define w where "w = xmul (Fin (1 / 2)) (xadd mx mn)"
    have "xb 23 mx" "xb 23 mn" using va vb vc by (simp_all add: mx_def mn_def Let_def)
    then have w: "xb 24 w" using xb_mul [OF xb_consts(1) xb_add [of 23 mx mn]] by (simp add: w_def)
    have "ps_foc_svpwm v v_bus = map (\<lambda>d. if xlt (Fin 1) d then Fin 1 else if xlt d (Fin 0) then Fin 0 else d)
        (map (\<lambda>x. xadd (Fin (1 / 2)) (xmul (xsub x w) (xdiv (Fin 1) v_bus))) [a, b, c])"
      using u1(2) unfolding ps_foc_svpwm_def Let_def w_def mx_def mn_def a_def b_def c_def by simp
    moreover have "unit_duty (if xlt (Fin 1) d then Fin 1 else if xlt d (Fin 0) then Fin 0 else d)"
      if "d = xadd (Fin (1 / 2)) (xmul (xsub x w) (xdiv (Fin 1) v_bus))" "xb 23 x" for d x
      using clamp_unit duty [OF that(2) w u1(1)] that(1) by blast
    ultimately show ?thesis using va vb vc by auto
  qed
  show "length (ps_foc_svpwm v v_bus) = 3" by (simp add: ps_foc_svpwm_def Let_def)
qed


text \<open>One step of the loop, and a run of it.\<close>

lemma foc_step_ok:
  assumes T: "trig_ok T" and c: "foc_ok V c" and i: "foc_in_ok i"
  shows "(\<forall>d\<in>set (fst (ps_foc_ctl_step T i c)). unit_duty d) \<and> length (fst (ps_foc_ctl_step T i c)) = 3 \<and>
    foc_ok V (snd (ps_foc_ctl_step T i c))"
proof -
  have I: "xb 20 (in_ia i)" "xb 20 (in_ib i)" "xb 20 (in_id i)" "xb 20 (in_iq i)" "bus_ok (in_v_bus i)"
    using i by (auto simp: foc_in_ok_def)
  obtain t where t: "in_dt i = Fin t" using i by (auto simp: foc_in_ok_def)
  have cs: "xb 0 (cosf T (in_theta i))" "xb 0 (sinf T (in_theta i))" using T i by (auto simp: trig_ok_def foc_in_ok_def)
  have C: "foc_ok V c" "V \<le> 2 ^ 20" "- (2 ^ 20) \<le> - V" using c by (auto simp: foc_ok_def)
  define ab where "ab = ps_foc_clarke (in_ia i) (in_ib i)"
  define dq where "dq = ps_foc_park T ab (in_theta i)"
  have "xb 22 (xadd (in_ia i) (xmul (Fin 2) (in_ib i)))"
    using xb_add [OF xb_mono [OF I(1)] xb_mul [OF xb_consts(5) I(2)]] by simp
  then have "xb 22 (ab_beta ab)" using xb_mul [OF _ xb_consts(4)] by (simp add: ab_def ps_foc_clarke_def)
  moreover have "xb 22 (ab_alpha ab)" using xb_mono [OF I(1)] by (simp add: ab_def ps_foc_clarke_def)
  ultimately have ab: "xb 22 (xmul (ab_alpha ab) x)" "xb 22 (xmul (xneg (ab_alpha ab)) x)" "xb 22 (xmul (ab_beta ab) x)"
    if "xb 0 x" for x using xb_mul [OF _ that] xb_neg by fastforce+
  have dq: "xb 23 (dq_d dq)" "xb 23 (dq_q dq)"
    using xb_add [OF ab(1) ab(3)] xb_add [OF ab(2) ab(3)] cs by (simp_all add: dq_def ps_foc_park_def Let_def)
  have e: "small (xsub x y)" if "xb 20 x" "xb 23 y" for x y
    using xb_mono [OF xb_sub [OF xb_mono [OF that(1)] that(2)]] by simp
  define sd where "sd = ps_pid_step (xsub (in_id i) (dq_d dq)) (Fin t) (pid_d c)"
  define sq where "sq = ps_pid_step (xsub (in_iq i) (dq_q dq)) (Fin t) (pid_q c)"
  have pd: "pid_ok (- V) V (pid_d c)" "pid_ok (- V) V (pid_q c)" using c by (auto simp: foc_ok_def)
  note D = pid.step_bound [OF pd(1) e [OF I(3) dq(1)] C(3,2), of t] and Q = pid.step_bound [OF pd(2) e [OF I(4) dq(2)] C(3,2), of t]
  define v where "v = ps_foc_inv_park T \<lparr> dq_d = fst sd, dq_q = fst sq \<rparr> (in_theta i)"
  have m: "xb 20 (xmul (fst sd) x)" "xb 20 (xmul (fst sq) x)" if "xb 0 x" for x
    using xb_mul [OF D(1) that] xb_mul [OF Q(1) that] by (simp_all add: sd_def sq_def)
  have "xb 21 (ab_alpha v)" "xb 21 (ab_beta v)"
    using xb_sub [OF m(1) m(2)] xb_add [OF m(1) m(2)] cs by (simp_all add: v_def ps_foc_inv_park_def Let_def)
  then have v: "xb 22 (ab_alpha v)" "xb 22 (ab_beta v)" using xb_mono [of 21 _ 22] by simp_all
  have "ps_foc_ctl_step T i c = (ps_foc_svpwm v (in_v_bus i), c\<lparr>pid_d := snd sd, pid_q := snd sq\<rparr>)"
    by (simp add: ps_foc_ctl_step_def Let_def case_prod_unfold v_def sd_def sq_def dq_def ab_def t)
  moreover have "foc_ok V (c\<lparr>pid_d := snd sd, pid_q := snd sq\<rparr>)" using C(2) D(2) Q(2) by (simp add: foc_ok_def sd_def sq_def)
  ultimately show ?thesis using svpwm_unit [OF v I(5)] by simp
qed

primrec foc_run :: "trig \<Rightarrow> foc_in list \<Rightarrow> ps_foc_ctl \<Rightarrow> xfloat list list \<times> ps_foc_ctl" where
  "foc_run T [] c = ([], c)"
| "foc_run T (i # is) c = (let (d, c) = ps_foc_ctl_step T i c; (ds, c) = foc_run T is c in (d # ds, c))"

lemma foc_run_ok:
  assumes "trig_ok T" "foc_ok V c" "\<forall>i\<in>set is. foc_in_ok i"
  shows "(\<forall>ds\<in>set (fst (foc_run T is c)). length ds = 3 \<and> (\<forall>d\<in>set ds. unit_duty d)) \<and> foc_ok V (snd (foc_run T is c))"
  using assms(2,3)
proof (induction "is" arbitrary: c)
  case (Cons i "is")
  note s = foc_step_ok [OF assms(1) Cons.prems(1), of i]
  show ?case using Cons.IH [of "snd (ps_foc_ctl_step T i c)"] s Cons.prems(2)
    by (auto simp: Let_def case_prod_unfold)
qed simp

section \<open>NaN in the loop\<close>

lemma pid_nan_step:
  assumes "pid_integ p = NaN"
  shows "fst (ps_pid_step e dt p) = NaN" "pid_integ (snd (ps_pid_step e dt p)) = NaN"
  using assms by (simp_all add: ps_pid_step_def Let_def)

lemma pid_nan_run:
  "pid_integ p = NaN \<Longrightarrow> set (fst (pid_run xs p)) \<subseteq> {NaN} \<and> pid_integ (snd (pid_run xs p)) = NaN"
proof (induction xs arbitrary: p)
  case (Cons x xs)
  show ?case using pid_nan_step [OF Cons.prems] Cons.IH by (auto simp: Let_def case_prod_unfold)
qed simp

text \<open>A NaN gain or error gives a NaN output, a NaN target gives three NaN duties.\<close>

lemma pid_nan_in: "pid_kp p = NaN \<or> e = NaN \<Longrightarrow> fst (ps_pid_step e dt p) = NaN"
  by (auto simp: ps_pid_step_def Let_def)

lemma svpwm_nan: "ab_alpha v = NaN \<Longrightarrow> ab_beta v = NaN \<Longrightarrow> 0 < u \<Longrightarrow> ps_foc_svpwm v (Fin u) = [NaN, NaN, NaN]"
  by (simp add: ps_foc_svpwm_def Let_def)

lemma foc_nan: "in_iq i = NaN \<Longrightarrow> in_v_bus i = Fin u \<Longrightarrow> 0 < u \<Longrightarrow> fst (ps_foc_ctl_step T i c) = [NaN, NaN, NaN]"
  by (simp add: ps_foc_ctl_step_def Let_def case_prod_unfold pid_nan_in ps_foc_inv_park_def svpwm_nan)

lemma quat_q15_range:
  assumes "x \<noteq> NaN"
  shows "\<exists>n. quat_q15 u x = of_int n \<and> - 32768 \<le> n \<and> n \<le> 32767"
proof -
  define v where "v = (let v = xmul x (Fin 32767) in if xle (Fin 0) v then xadd v (Fin (1 / 2)) else xsub v (Fin (1 / 2)))"
  have "v \<noteq> NaN" using assms by (cases x) (auto simp: v_def Let_def xsub_def xadd_not_NaN)
  then obtain r where r: "xclamp (Fin (- 32768)) (Fin 32767) v = Fin r" "- 32768 \<le> r" "r \<le> 32767"
    using xclamp_finite [of "- 32768" 32767 v] by auto
  have "quat_q15 u x = to_i16 u (xclamp (Fin (- 32768)) (Fin 32767) v)" by (simp add: quat_q15_def v_def xclamp_def Let_def)
  moreover have "ftrunc (- 32768) \<le> ftrunc r" "ftrunc r \<le> ftrunc 32767" by (rule ftrunc_mono, rule r)+
  then have "- 32768 \<le> ftrunc r" "ftrunc r \<le> 32767" by (simp_all add: ftrunc_def)
  ultimately show ?thesis unfolding r(1) to_i16_def by auto
qed

section \<open>Properties\<close>

text \<open>Claim C24. Anti-windup: a PI controller (gains not negative, no derivative gain, representable limits around zero) that is fed any
  sequence of errors up to \<open>2 ^ 126\<close> in magnitude, at any time steps, gives numbers within its limits, and its integral term never leaves
  them either: however long the output saturates there is nothing to unwind beyond the limit, and no sum overflows or becomes NaN.\<close>

theorem pid_integral_bounded:
  assumes "0 \<le> a" "0 \<le> b" "lo \<le> 0" "0 \<le> hi" "is_f32 lo" "is_f32 hi"
    and "\<forall>x\<in>set xs. small (fst x) \<and> (\<exists>t. snd x = Fin t)"
    and "pid_run xs (ps_pid_init (Fin a) (Fin b) (Fin 0) (Fin lo) (Fin hi) p0) = (ys, p)"
  shows "(\<forall>y\<in>set ys. \<exists>r. y = Fin r \<and> lo \<le> r \<and> r \<le> hi) \<and> (\<exists>i. pid_integ p = Fin i \<and> lo \<le> i \<and> i \<le> hi)"
  using pid_run_ok [OF pid_init_ok [OF assms(1-6)] assms(7), of p0] assms(8) by (auto simp: pid_ok_def)

text \<open>A single NaN poisons a controller for good: when one error is NaN, that output and every later one is NaN, whatever the
  errors after it; the limits do not stop it, and only a reset makes the integral a number again.\<close>

lemma pid_nan_sticks:
  assumes "xlt (Fin 0) dt" "pid_run ((NaN, dt) # xs) p = (ys, p')"
  shows "set ys = {NaN} \<and> pid_integ p' = NaN \<and> pid_integ (ps_pid_reset p') = Fin 0"
proof -
  have "fst (ps_pid_step NaN dt p) = NaN" "pid_integ (snd (ps_pid_step NaN dt p)) = NaN"
    using assms(1) by (simp_all add: ps_pid_step_def Let_def)
  then show ?thesis using assms(2) pid_nan_run [of "snd (ps_pid_step NaN dt p)" xs]
    by (auto simp: Let_def ps_pid_reset_def split: prod.splits)
qed

text \<open>The current loop always asks for a realisable duty: over every run of steps with finite currents, angles and targets
  below a million ampere, any time step and a bus voltage that is absent or at least a volt, each of the three duties is a
  number in \<open>[0, 1]\<close>, and the two integral terms stay within the voltage limit. The library's cosine and sine are only assumed to
  give numbers in \<open>[-1, 1]\<close>.\<close>

lemma foc_duties_in_range:
  assumes "trig_ok T" "0 \<le> a" "0 \<le> b" "0 \<le> V" "is_f32 V" "V \<le> 2 ^ 20"
    and "\<forall>i\<in>set is. foc_in_ok i"
    and "foc_run T is (ps_foc_ctl_init (Fin a) (Fin b) (Fin V) c0) = (dss, c)"
  shows "(\<forall>ds\<in>set dss. length ds = 3 \<and> (\<forall>d\<in>set ds. \<exists>r. d = Fin r \<and> 0 \<le> r \<and> r \<le> 1)) \<and>
    (\<forall>p\<in>{pid_d c, pid_q c}. \<exists>i. pid_integ p = Fin i \<and> \<bar>i\<bar> \<le> V)"
proof -
  have "foc_ok V (ps_foc_ctl_init (Fin a) (Fin b) (Fin V) c0)"
    using pid_init_ok [of a b "- V" V] assms(2-6) by (simp add: foc_ok_def ps_foc_ctl_init_def is_f32_abs)
  note run = foc_run_ok [OF assms(1) this assms(7)]
  have "\<forall>ds\<in>set dss. length ds = 3 \<and> (\<forall>d\<in>set ds. \<exists>r. d = Fin r \<and> 0 \<le> r \<and> r \<le> 1)"
    using run assms(8) by (simp add: unit_duty_def)
  moreover have "\<forall>p\<in>{pid_d c, pid_q c}. \<exists>i. pid_integ p = Fin i \<and> \<bar>i\<bar> \<le> V"
    using run assms(8) by (auto simp: foc_ok_def pid_ok_def abs_le_iff)
  ultimately show ?thesis ..
qed

section \<open>Witnesses\<close>

abbreviation zero_pid :: ps_pid where
  "zero_pid \<equiv> \<lparr> pid_kp = Fin 0, pid_ki = Fin 0, pid_kd = Fin 0, out_min = Fin 0, out_max = Fin 0, pid_integ = Fin 0,
     prev_err = Fin 0, primed = False \<rparr>"

lemma is_f32_of_int: "\<bar>n\<bar> < 2 ^ 24 \<Longrightarrow> is_f32 (of_int n)"
proof -
  assume n: "\<bar>n\<bar> < 2 ^ 24"
  have "\<bar>of_int n :: rat\<bar> < of_int (2 ^ 24)" unfolding of_int_abs [symmetric] of_int_less_iff by (rule n)
  then show ?thesis using f32_of_int [OF n] by (simp add: is_f32_def)
qed

lemma xb_of_int: "\<bar>n\<bar> < 2 ^ 24 \<Longrightarrow> xb 126 (Fin (of_int n))"
proof -
  assume n: "\<bar>n\<bar> < 2 ^ 24"
  have "\<bar>of_int n :: rat\<bar> < of_int (2 ^ 24)" unfolding of_int_abs [symmetric] of_int_less_iff by (rule n)
  then show ?thesis using is_f32_of_int [OF n] by (simp add: xb_def)
qed

text \<open>The velocity loop gains with limits of 2: it saturates on an error of 3 and its integral is held.\<close>

theorem pid_integral_bounded_witness:
  "\<exists>i. pid_integ (snd (pid_run [(Fin 3, Fin 1), (Fin 3, Fin 1), (Fin (- 1), Fin 1)] (ps_pid_init (Fin 2) (Fin 1) (Fin 0) (Fin (- 2)) (Fin 2) zero_pid))) =
     Fin i \<and> - 2 \<le> i \<and> i \<le> 2"
  using pid_integral_bounded [of 2 1 "- 2" 2 "[(Fin 3, Fin 1), (Fin 3, Fin 1), (Fin (- 1), Fin 1)]" zero_pid,
      OF _ _ _ _ _ _ _ prod.collapse [symmetric]]
    xb_of_int [of 3] xb_of_int [of "- 1"] is_f32_of_int [of 2] is_f32_of_int [of "- 2"] by simp

abbreviation axis_trig :: trig where
  "axis_trig \<equiv> \<lparr> cosf = (\<lambda>_. Fin 1), sinf = (\<lambda>_. Fin 0) \<rparr>" \<comment> \<open>the values at angle 0\<close>

abbreviation step_in :: foc_in where
  "step_in \<equiv> \<lparr> in_ia = Fin 1, in_ib = Fin 0, in_theta = Fin 0, in_id = Fin 0, in_iq = Fin 20, in_v_bus = Fin 24, in_dt = Fin 1 \<rparr>"

end
