(* ===== verification/Flight_Node.thy ===== *)
theory Flight_Node
  imports Flight_Servo Node_Glue Ps_Ctl Wire
begin

text \<open>
  The flight node around its servos: \<open>comms_task.c\<close> (CONTROL frames, runtime parameters, the emit helper, 1 Hz reports),
  \<open>safety_glue.c\<close> (the transition callback) and \<open>aero_task.c\<close> (attitude, pitot, change-driven flap reports) under
  \<open>firmware/apps/node_flight/main/\<close>, and the node as the interleaving of its tasks and callbacks. \<open>app_main.c\<close> gives the safety
  service and this code the same CAN handle: the transport is \<open>can\<close> of the safety service, once \<open>flight_set_can\<close> ran.
\<close>

section \<open>State\<close>

text \<open>\<open>last_sent\<close> starts as memory filled with \<open>0xFF\<close>, so its flag is kept as a byte.\<close>

record last_flap =
  lf_pos_pm :: int
  lf_target_pm :: int
  lf_at_limit :: u8

record 'w flight =
  fl_safety :: "'w safety_esp"
  fl_servo :: servo
  fl_pulses :: "int list" \<comment> \<open>what the servo comparators were last told\<close>
  s_can_set :: bool
  s_telem_seq :: "u8 list"
  s_rho :: xfloat
  s_rate_scale :: xfloat
  prev_stats :: ps_can_stats
  aero_imu_ok :: bool
  aero_mahony :: ps_mahony
  last_sent :: "last_flap list"
  q_filt :: xfloat
  aero_tick :: u32

text \<open>What the C library and the transport answer: \<open>sqrtf\<close>, \<open>ps_can_send\<close>, and the conversions C leaves open.\<close>

record 'w flight_lib =
  fx_sqrtf :: "xfloat \<Rightarrow> xfloat"
  fx_send :: "'w \<Rightarrow> ps_can_frame \<Rightarrow> esp_err \<times> 'w"
  fx_cu :: i16
  fx_cuu :: u16

section \<open>Telemetry\<close>

definition flight_set_can :: "bool \<Rightarrow> 'w flight \<Rightarrow> 'w flight" where
  "flight_set_can given n = n\<lparr>s_can_set := given\<rparr>"

definition flight_telem_frame :: "u8 \<Rightarrow> u8 \<Rightarrow> bytes option \<Rightarrow> u8 \<Rightarrow> u8 \<Rightarrow> ps_can_frame" where
  "flight_telem_frame cls ty payload len sq =
     \<lparr> f_id = ps_can_id_pack cls PS_NODE_FLIGHT PS_NODE_ORCH ty sq, f_dlc = len,
       f_data = (case payload of
          Some p \<Rightarrow> if len \<noteq> 0 then blit 0 (take (if len > 8 then 8 else unat len) p) (replicate 8 0) else replicate 8 0
        | None \<Rightarrow> replicate 8 0) \<rparr>"

definition flight_telem_send :: "'w flight_lib \<Rightarrow> u8 \<Rightarrow> u8 \<Rightarrow> bytes option \<Rightarrow> u8 \<Rightarrow> 'w flight \<Rightarrow> 'w flight" where
  "flight_telem_send lib cls ty payload len n =
     (if \<not> s_can_set n then n
      else
        let f = flight_telem_frame cls ty payload len (s_telem_seq n ! unat ty);
            n = n\<lparr>s_telem_seq := (s_telem_seq n)[unat ty := s_telem_seq n ! unat ty + 1]\<rparr>
        in n\<lparr>fl_safety := (fl_safety n)\<lparr>can := snd (fx_send lib (can (fl_safety n)) f)\<rparr>\<rparr>)"

section \<open>Parameters\<close>

text \<open>The bounds are doubles; \<open>0.05\<close> is the double next to it. A comparison with NaN is false.\<close>

abbreviation DOUBLE_0_05 :: xfloat where "DOUBLE_0_05 \<equiv> Fin (3602879701896397 / 72057594037927936)"
abbreviation PS_RHO_DEFAULT :: xfloat where "PS_RHO_DEFAULT \<equiv> xround (1225 / 1000)"

definition flight_param_set :: "string option \<Rightarrow> xfloat \<Rightarrow> 'w flight \<Rightarrow> bool \<times> 'w flight" where
  "flight_param_set nmo v n =
     (case nmo of None \<Rightarrow> (False, n) | Some nm \<Rightarrow>
      if nm = ''rho'' then
        if xlt v (Fin (1 / 2)) \<or> xlt (Fin (5 / 2)) v then (False, n) else (True, n\<lparr>s_rho := to_float v\<rparr>)
      else if nm = ''rate_scale'' then
        if xlt v DOUBLE_0_05 \<or> xlt (Fin 1) v then (False, n) else (True, n\<lparr>s_rate_scale := to_float v\<rparr>)
      else (False, n))"

text \<open>The change the parameter server proposes: the name and, when its type is double, the value; None for a deletion.\<close>

definition on_param_changed :: "(string \<times> xfloat option) option \<Rightarrow> 'w flight \<Rightarrow> bool \<times> 'w flight" where
  "on_param_changed prm n = (case prm of Some (nm, Some v) \<Rightarrow> flight_param_set (Some nm) v n | _ \<Rightarrow> (False, n))"

section \<open>The safety callback\<close>

definition flight_safety_on_transition :: "u8 \<Rightarrow> u8 \<Rightarrow> u8 \<Rightarrow> 'w flight \<Rightarrow> 'w flight" where
  "flight_safety_on_transition old_state new_state cause n =
     (if new_state \<in> {PS_STATE_PASSIVE, PS_STATE_ESTOP, PS_STATE_FAULT}
      then n\<lparr>fl_servo := flight_targets_neutral_all (fl_servo n)\<rparr> else n)"

text \<open>An operation of the safety service, with the callbacks it makes.\<close>

definition flight_safety_op :: "('w safety_esp \<Rightarrow> 'w safety_esp) \<Rightarrow> 'w flight \<Rightarrow> 'w flight" where
  "flight_safety_op h n =
     on_core_transition flight_safety_on_transition (fl_safety n) (h (fl_safety n)) (n\<lparr>fl_safety := h (fl_safety n)\<rparr>)"

section \<open>CONTROL frames\<close>

definition clamp_1000 :: "int \<Rightarrow> int" where
  "clamp_1000 pos = (if pos < - 1000 then - 1000 else if pos > 1000 then 1000 else pos)"

definition handle_flap_cmd :: "u32 \<Rightarrow> ps_can_frame \<Rightarrow> 'w flight \<Rightarrow> 'w flight" where
  "handle_flap_cmd t f n =
     (if f_dlc f < 8 then n
      else
        let cmd = PS_WIRE_READ dec_flap_cmd (f_data f) in
        if unat (fc_flap cmd) \<ge> PS_FLAP_COUNT then n
        else
          let brake = (fc_flags cmd AND 1 \<noteq> 0);
              n = n\<lparr>fl_servo := flight_targets_set (unat (fc_flap cmd)) (clamp_1000 (sint (fc_pos_pm cmd))) (fc_rate_lim cmd) brake (fl_servo n)\<rparr>
          in flight_safety_op (ps_safety_note_cmd t) n)"

definition handle_flight_mode_set :: "u32 \<Rightarrow> ps_can_frame \<Rightarrow> 'w flight \<Rightarrow> 'w flight" where
  "handle_flight_mode_set t f n =
     (let ms = dec_mode_set (short_copy f);
          n = flight_safety_op (ps_safety_note_cmd t) n
      in flight_safety_op (ps_safety_note_mode_set t (ms_target_state ms)) n)"

definition flight_control_rx :: "u32 \<Rightarrow> ps_can_frame \<Rightarrow> 'w flight \<Rightarrow> 'w flight" where
  "flight_control_rx t f n =
     (let ty = ps_can_id_type (f_id f) in
      if ty = PS_T_FLAP_CMD then handle_flap_cmd t f n
      else if ty = PS_T_MODE_SET then handle_flight_mode_set t f n
      else n)"

section \<open>Housekeeping\<close>

definition flight_comms_turn :: "'w flight_lib \<Rightarrow> ('w \<Rightarrow> ps_can_stats) \<Rightarrow> 'w flight \<Rightarrow> 'w flight" where
  "flight_comms_turn lib get_stats n =
     (let cur = get_stats (can (fl_safety n)); prev = prev_stats n;
          rx = rx_frames cur - rx_frames prev; tx = tx_frames cur - tx_frames prev;
          err = (bus_errors cur - bus_errors prev) + (rx_dropped cur - rx_dropped prev) + (tx_timeouts cur - tx_timeouts prev);
          n = n\<lparr>prev_stats := cur\<rparr>;
          n = flight_telem_send lib PS_CLS_TELEM PS_T_NODE_STATS
                (Some (enc_node_stats \<lparr> ns_cpu_pct = 0, ns_state = ps_safety_state (fl_safety n), ns_rx_fps = sat16 rx, ns_tx_fps = sat16 tx, ns_err_cnt = sat16 err \<rparr>)) 8 n
      in flight_telem_send lib PS_CLS_MGMT PS_T_VERSION
           (Some (enc_version \<lparr> vn_major = 0, vn_minor = 1, vn_patch = 0, vn_node_state = ps_safety_state (fl_safety n), vn_git_short = 0 \<rparr>)) 8 n)"

text \<open>A failure to register the callback or to create the task is only logged.\<close>

definition flight_comms_start :: "'w flight \<Rightarrow> 'w flight" where
  "flight_comms_start n = flight_set_can True n"

section \<open>The aero task\<close>

abbreviation PS_PITOT_ZERO_MV :: xfloat where "PS_PITOT_ZERO_MV \<equiv> Fin 1650"
abbreviation PS_PITOT_PA_PER_MV :: xfloat where "PS_PITOT_PA_PER_MV \<equiv> Fin 3"
abbreviation DEG_TO_RAD :: xfloat where "DEG_TO_RAD \<equiv> xround (17453293 / 10 ^ 9)"
abbreviation AERO_F_NO_VANE :: u16 where "AERO_F_NO_VANE \<equiv> 1"

text \<open>What the sensors answer in a turn: acceleration in g and rates in degrees per second, the raw pitot reading, and its
  calibrated value in mV when calibration is available and succeeds.\<close>

record aero_in =
  ai_imu :: "((xfloat \<times> xfloat \<times> xfloat) \<times> (xfloat \<times> xfloat \<times> xfloat)) option"
  ai_raw :: "int option"
  ai_cali :: "int \<Rightarrow> int option"

definition pitot_read_mv :: "aero_in \<Rightarrow> xfloat" where
  "pitot_read_mv i =
     (case ai_raw i of None \<Rightarrow> PS_PITOT_ZERO_MV
      | Some raw \<Rightarrow> (case ai_cali i raw of Some mv \<Rightarrow> xint mv | None \<Rightarrow> xmul (xint raw) (xdiv (Fin 3300) (Fin 4095))))"

definition to_u16 :: "u16 \<Rightarrow> xfloat \<Rightarrow> u16" where
  "to_u16 u x = (case x of Fin r \<Rightarrow> if 0 \<le> ftrunc r \<and> ftrunc r \<le> 65535 then of_int (ftrunc r) else u | _ \<Rightarrow> u)"

definition sat_u16 :: "u16 \<Rightarrow> xfloat \<Rightarrow> u16" where
  "sat_u16 cu v = (if xle v (Fin 0) then 0 else if xle (Fin 65535) v then 65535 else to_u16 cu v)"

definition aero_sat_i16 :: "i16 \<Rightarrow> xfloat \<Rightarrow> i16" where
  "aero_sat_i16 cu v = (if xle v (Fin (- 32768)) then - 32768 else if xle (Fin 32767) v then 32767 else to_i16 cu v)"

text \<open>\<open>fmaxf\<close> ignores a NaN operand.\<close>

definition xfmax :: "xfloat \<Rightarrow> xfloat \<Rightarrow> xfloat" where
  "xfmax x y = (if x = NaN then y else if y = NaN then x else if xlt x y then y else x)"

definition aero_imu :: "'w flight_lib \<Rightarrow> aero_in \<Rightarrow> 'w flight \<Rightarrow> 'w flight" where
  "aero_imu lib i n =
     (if \<not> aero_imu_ok n then n
      else case ai_imu i of None \<Rightarrow> n
      | Some ((ax, ay, az), (gx, gy, gz)) \<Rightarrow>
        let m = ps_mahony_update (fx_sqrtf lib) (xmul gx DEG_TO_RAD, xmul gy DEG_TO_RAD, xmul gz DEG_TO_RAD) (ax, ay, az)
                  (xdiv (Fin 10) (Fin 1000)) (aero_mahony n);
            n = n\<lparr>aero_mahony := m\<rparr>;
            q15 = ps_mahony_get_quat_q15 (fx_cu lib) m;
            sat = aero_sat_i16 (fx_cu lib);
            quat = \<lparr> iq_qw = q15 ! 0, iq_qx = q15 ! 1, iq_qy = q15 ! 2, iq_qz = q15 ! 3 \<rparr>;
            acc = \<lparr> ia_ax = sat (xmul ax (Fin 1000)), ia_ay = sat (xmul ay (Fin 1000)), ia_az = sat (xmul az (Fin 1000)), ia_rsvd = 0 \<rparr>;
            gyr = \<lparr> ig_gx = sat (xmul gx (Fin 10)), ig_gy = sat (xmul gy (Fin 10)), ig_gz = sat (xmul gz (Fin 10)), ig_rsvd = 0 \<rparr>;
            n = flight_telem_send lib PS_CLS_TELEM PS_T_IMU_QUAT (Some (enc_imu_quat quat)) 8 n;
            n = flight_telem_send lib PS_CLS_TELEM PS_T_IMU_ACC (Some (enc_imu_acc acc)) 8 n
        in flight_telem_send lib PS_CLS_TELEM PS_T_IMU_GYR (Some (enc_imu_gyr gyr)) 8 n)"

text \<open>The filtered pressure after a reading, and the report it makes.\<close>

definition pitot_filter :: "aero_in \<Rightarrow> xfloat \<Rightarrow> xfloat" where
  "pitot_filter i q =
     (let q_pa = xmul (xsub (pitot_read_mv i) PS_PITOT_ZERO_MV) PS_PITOT_PA_PER_MV;
          q_pa = (if xlt q_pa (Fin 0) then Fin 0 else q_pa)
      in xadd q (xmul (xround (2 / 10)) (xsub q_pa q)))"

definition aero_state :: "'w flight_lib \<Rightarrow> xfloat \<Rightarrow> xfloat \<Rightarrow> ps_aero_state" where
  "aero_state lib rho q =
     (let ias_ms = fx_sqrtf lib (xfmax (Fin 0) (xdiv (xmul (Fin 2) q) rho))
      in \<lparr> ae_ias_cms = sat_u16 (fx_cuu lib) (xmul ias_ms (Fin 100)), ae_q_pa = sat_u16 (fx_cuu lib) q, ae_aoa_cdeg = 0,
           ae_flags = AERO_F_NO_VANE \<rparr>)"

definition aero_pitot :: "'w flight_lib \<Rightarrow> aero_in \<Rightarrow> 'w flight \<Rightarrow> 'w flight" where
  "aero_pitot lib i n =
     (if aero_tick n mod 2 = 0 then
        let n = n\<lparr>q_filt := pitot_filter i (q_filt n)\<rparr>
        in flight_telem_send lib PS_CLS_TELEM PS_T_AERO_STATE (Some (enc_aero_state (aero_state lib (s_rho n) (q_filt n)))) 8 n
      else n)"

text \<open>Flap reports.\<close>

definition flap_changed :: "flight_flap_state \<Rightarrow> last_flap \<Rightarrow> bool" where
  "flap_changed st lf \<longleftrightarrow> st_pos_pm st \<noteq> lf_pos_pm lf \<or> st_target_pm st \<noteq> lf_target_pm lf \<or> of_bool (st_at_limit st) \<noteq> lf_at_limit lf"

definition flap_due :: "u32 \<Rightarrow> flight_flap_state \<Rightarrow> last_flap \<Rightarrow> nat \<Rightarrow> bool" where
  "flap_due tk st lf i \<longleftrightarrow> flap_changed st lf \<or> tk div 5 mod 10 = of_nat (i mod 10) \<or> tk mod 500 = 0"

definition flap_state_wire :: "nat \<Rightarrow> flight_flap_state \<Rightarrow> ps_flap_state" where
  "flap_state_wire i st =
     \<lparr> fs_flap = of_nat i, fs_flags = (if st_at_limit st then 1 else 0), fs_pos_pm = of_int (st_pos_pm st),
       fs_target_pm = of_int (st_target_pm st), fs_rsvd = 0 \<rparr>"

definition note_sent :: "flight_flap_state \<Rightarrow> last_flap" where
  "note_sent st = \<lparr> lf_pos_pm = st_pos_pm st, lf_target_pm = st_target_pm st, lf_at_limit = of_bool (st_at_limit st) \<rparr>"

definition send_flap :: "'w flight_lib \<Rightarrow> flight_flap_state list \<Rightarrow> nat \<Rightarrow> 'w flight \<Rightarrow> 'w flight" where
  "send_flap lib snap i n =
     (if flap_due (aero_tick n) (snap ! i) (last_sent n ! i) i then
        let n = flight_telem_send lib PS_CLS_TELEM PS_T_FLAP_STATE (Some (enc_flap_state (flap_state_wire i (snap ! i)))) 8 n
        in n\<lparr>last_sent := (last_sent n)[i := note_sent (snap ! i)]\<rparr>
      else n)"

definition aero_flaps :: "'w flight_lib \<Rightarrow> 'w flight \<Rightarrow> 'w flight" where
  "aero_flaps lib n =
     (if aero_tick n mod 5 = 0 then fold (send_flap lib (s_states (fl_servo n))) [0..<PS_FLAP_COUNT] n else n)"

definition aero_turn :: "'w flight_lib \<Rightarrow> aero_in \<Rightarrow> 'w flight \<Rightarrow> 'w flight" where
  "aero_turn lib i n = aero_flaps lib (aero_pitot lib i (aero_imu lib i (n\<lparr>aero_tick := aero_tick n + 1\<rparr>)))"

section \<open>The node\<close>

text \<open>The state the statics and the start of the tasks give.\<close>

definition flight_init :: "'w safety_esp \<Rightarrow> bool \<Rightarrow> 'w flight" where
  "flight_init s imu =
     \<lparr> fl_safety = s, fl_servo = servo_init, fl_pulses = [], s_can_set = True, s_telem_seq = replicate 256 0, s_rho = PS_RHO_DEFAULT,
       s_rate_scale = Fin 1, prev_stats = \<lparr> rx_frames = 0, tx_frames = 0, rx_dropped = 0, tx_timeouts = 0, bus_errors = 0, recoveries = 0 \<rparr>,
       aero_imu_ok = imu, aero_mahony = ps_mahony_init (Fin (1 / 2)) (xround (1 / 100)),
       last_sent = replicate PS_FLAP_COUNT \<lparr> lf_pos_pm = - 1, lf_target_pm = - 1, lf_at_limit = 0xFF \<rparr>, q_filt = Fin 0, aero_tick = 0 \<rparr>"

definition flight_servo_turn :: "int \<Rightarrow> 'w flight \<Rightarrow> 'w flight" where
  "flight_servo_turn cu n =
     (let (pulses, s) = servo_task_turn (ps_safety_can_actuate (fl_safety n)) cu (s_rate_scale n) (fl_servo n)
      in n\<lparr>fl_servo := s, fl_pulses := pulses\<rparr>)"

datatype flight_event =
    Safety_frame u32 ps_can_frame
  | Control_frame u32 ps_can_frame
  | Bus_state u32 int
  | Safety_timer u32
  | Param "(string \<times> xfloat option) option"
  | Servo_turn int
  | Aero_turn aero_in
  | Comms_turn

fun flight_step :: "'w flight_lib \<Rightarrow> ('w \<Rightarrow> ps_can_stats) \<Rightarrow> flight_event \<Rightarrow> 'w flight \<Rightarrow> 'w flight" where
  "flight_step lib gs (Safety_frame t f) n = flight_safety_op (safety_rx t f) n"
| "flight_step lib gs (Control_frame t f) n = flight_control_rx t f n"
| "flight_step lib gs (Bus_state t st) n = flight_safety_op (can_state_cb t st) n"
| "flight_step lib gs (Safety_timer t) n = flight_safety_op (tick_cb t) n"
| "flight_step lib gs (Param prm) n = snd (on_param_changed prm n)"
| "flight_step lib gs (Servo_turn cu) n = flight_servo_turn cu n"
| "flight_step lib gs (Aero_turn i) n = aero_turn lib i n"
| "flight_step lib gs Comms_turn n = flight_comms_turn lib gs n"

definition flight_run :: "'w flight_lib \<Rightarrow> ('w \<Rightarrow> ps_can_stats) \<Rightarrow> flight_event list \<Rightarrow> 'w flight \<Rightarrow> 'w flight" where
  "flight_run lib gs evs n = foldl (\<lambda>n e. flight_step lib gs e n) n evs"


section \<open>What each operation leaves alone\<close>

lemma flight_telem_fields [simp]:
  "fl_servo (flight_telem_send lib c ty p k n) = fl_servo n" "core (fl_safety (flight_telem_send lib c ty p k n)) = core (fl_safety n)"
  "started (fl_safety (flight_telem_send lib c ty p k n)) = started (fl_safety n)" "s_rho (flight_telem_send lib c ty p k n) = s_rho n"
  "s_rate_scale (flight_telem_send lib c ty p k n) = s_rate_scale n" "last_sent (flight_telem_send lib c ty p k n) = last_sent n"
  "aero_tick (flight_telem_send lib c ty p k n) = aero_tick n" "s_can_set (flight_telem_send lib c ty p k n) = s_can_set n"
  by (simp_all add: flight_telem_send_def Let_def)

text \<open>\<open>same_control\<close>: as far as actuation and its limits go, nothing changed.\<close>

definition same_control :: "'w flight \<Rightarrow> 'w flight \<Rightarrow> bool" where
  "same_control n n' \<longleftrightarrow> fl_servo n' = fl_servo n \<and> core (fl_safety n') = core (fl_safety n) \<and> started (fl_safety n') = started (fl_safety n) \<and>
     s_rho n' = s_rho n \<and> s_rate_scale n' = s_rate_scale n \<and> length (last_sent n') = length (last_sent n)"

lemma same_control_refl [simp]: "same_control n n"
  by (simp add: same_control_def)

lemma same_control_trans: "same_control n n' \<Longrightarrow> same_control n' n'' \<Longrightarrow> same_control n n''"
  by (simp add: same_control_def)

lemma comms_same: "same_control n (flight_comms_turn lib gs n)"
  by (simp add: same_control_def flight_comms_turn_def Let_def)

lemma imu_same: "same_control n (aero_imu lib i n)" "last_sent (aero_imu lib i n) = last_sent n" "aero_tick (aero_imu lib i n) = aero_tick n"
    "s_can_set (aero_imu lib i n) = s_can_set n"
proof -
  have "same_control n (aero_imu lib i n) \<and> last_sent (aero_imu lib i n) = last_sent n \<and> aero_tick (aero_imu lib i n) = aero_tick n \<and>
    s_can_set (aero_imu lib i n) = s_can_set n"
  proof (cases "aero_imu_ok n \<and> ai_imu i \<noteq> None")
    case True
    then obtain ax ay az gx gy gz where "ai_imu i = Some ((ax, ay, az), (gx, gy, gz))" by auto
    then show ?thesis using True by (simp add: aero_imu_def Let_def same_control_def)
  next
    case False
    then have "aero_imu lib i n = n" by (cases "aero_imu_ok n"; cases "ai_imu i") (simp_all add: aero_imu_def)
    then show ?thesis by simp
  qed
  then show "same_control n (aero_imu lib i n)" "last_sent (aero_imu lib i n) = last_sent n" "aero_tick (aero_imu lib i n) = aero_tick n"
    "s_can_set (aero_imu lib i n) = s_can_set n" by simp_all
qed

lemma pitot_same: "same_control n (aero_pitot lib i n)" "last_sent (aero_pitot lib i n) = last_sent n" "aero_tick (aero_pitot lib i n) = aero_tick n"
    "s_can_set (aero_pitot lib i n) = s_can_set n"
  by (simp_all add: aero_pitot_def same_control_def Let_def)

lemma send_flap_same: "same_control n (send_flap lib snap i n)" "aero_tick (send_flap lib snap i n) = aero_tick n"
    "s_can_set (send_flap lib snap i n) = s_can_set n"
  by (simp_all add: send_flap_def same_control_def Let_def)

lemma flaps_same: "same_control n (aero_flaps lib n)" 
proof -
  have "same_control n (fold (send_flap lib snap) is n)" for snap "is" and n :: "'a flight"
    by (induction "is" arbitrary: n) (auto intro: same_control_trans send_flap_same)
  then show ?thesis by (simp add: aero_flaps_def)
qed

lemma aero_same: "same_control n (aero_turn lib i n)"
proof -
  have "same_control n (n\<lparr>aero_tick := aero_tick n + 1\<rparr>)" by (simp add: same_control_def)
  then show ?thesis unfolding aero_turn_def by (blast intro: same_control_trans imu_same(1) pitot_same(1) flaps_same)
qed

text \<open>The transition callback touches the targets only, and only to make them neutral.\<close>

lemma flight_transition_fields [simp]:
  "fl_safety (flight_safety_on_transition o' s c n) = fl_safety n" "s_rho (flight_safety_on_transition o' s c n) = s_rho n"
  "s_rate_scale (flight_safety_on_transition o' s c n) = s_rate_scale n" "last_sent (flight_safety_on_transition o' s c n) = last_sent n"
  "fl_servo (flight_safety_on_transition o' s c n) \<in> {fl_servo n, flight_targets_neutral_all (fl_servo n)}"
  by (simp_all add: flight_safety_on_transition_def)

lemma neutral_idem [simp]: "flight_targets_neutral_all (flight_targets_neutral_all s) = flight_targets_neutral_all s"
  by (simp add: flight_targets_neutral_all_def)

lemma flight_safety_op_fields:
  "fl_safety (flight_safety_op h n) = h (fl_safety n)" "s_rho (flight_safety_op h n) = s_rho n" "s_rate_scale (flight_safety_op h n) = s_rate_scale n"
  "last_sent (flight_safety_op h n) = last_sent n" "fl_servo (flight_safety_op h n) \<in> {fl_servo n, flight_targets_neutral_all (fl_servo n)}"
proof -
  let ?cb = "\<lambda>a (old, new, cause). flight_safety_on_transition old new cause a"
  have k: "fl_safety (foldl ?cb n cs) = fl_safety n \<and> s_rho (foldl ?cb n cs) = s_rho n \<and> s_rate_scale (foldl ?cb n cs) = s_rate_scale n \<and>
    last_sent (foldl ?cb n cs) = last_sent n \<and> fl_servo (foldl ?cb n cs) \<in> {fl_servo n, flight_targets_neutral_all (fl_servo n)}" for cs and n :: "'a flight"
  proof (induction cs arbitrary: n)
    case (Cons c cs)
    obtain old new cause where c: "c = (old, new, cause)" by (rule prod_cases3)
    show ?case using Cons [of "?cb n c"] flight_transition_fields(5) [of old new cause n] by (auto simp: c)
  qed simp
  then show
    "fl_safety (flight_safety_op h n) = h (fl_safety n)" "s_rho (flight_safety_op h n) = s_rho n" "s_rate_scale (flight_safety_op h n) = s_rate_scale n"
    "last_sent (flight_safety_op h n) = last_sent n" "fl_servo (flight_safety_op h n) \<in> {fl_servo n, flight_targets_neutral_all (fl_servo n)}"
    using k [of "n\<lparr>fl_safety := h (fl_safety n)\<rparr>" "new_calls (fl_safety n) (h (fl_safety n))"]
    unfolding flight_safety_op_def on_core_transition_def by simp_all
qed

interpretation flight_stop: safe_on_stop flight_safety_on_transition "\<lambda>n. s_targets (fl_servo n) = replicate 12 neutral_target"
  by unfold_locales (auto simp: flight_safety_on_transition_def flight_targets_neutral_all_def)

section \<open>Well-formed nodes\<close>

definition targets_ok :: "servo \<Rightarrow> bool" where
  "targets_ok s \<longleftrightarrow> (\<forall>t \<in> set (s_targets s). \<bar>t_pos_pm t\<bar> \<le> 1000)"

definition param_ok :: "xfloat \<Rightarrow> xfloat \<Rightarrow> xfloat \<Rightarrow> bool" where
  "param_ok lo hi v \<longleftrightarrow> v = NaN \<or> xle (to_float lo) v \<and> xle v (to_float hi)"

definition flight_ok :: "'w flight \<Rightarrow> bool" where
  "flight_ok n \<longleftrightarrow> servo_wf (fl_servo n) \<and> targets_ok (fl_servo n) \<and> param_ok DOUBLE_0_05 (Fin 1) (s_rate_scale n) \<and>
     param_ok (Fin (1 / 2)) (Fin (5 / 2)) (s_rho n) \<and> length (last_sent n) = 12"

lemma flight_ok_same: "flight_ok n \<Longrightarrow> same_control n n' \<Longrightarrow> flight_ok n'"
  by (simp add: flight_ok_def same_control_def)

lemma neutral_ok: "servo_wf s \<Longrightarrow> servo_wf (flight_targets_neutral_all s) \<and> targets_ok (flight_targets_neutral_all s)"
  by (simp add: servo_wf_def targets_ok_def flight_targets_neutral_all_def neutral_target_def)

lemma flight_safety_op_ok: "flight_ok n \<Longrightarrow> flight_ok (flight_safety_op h n)"
  using flight_safety_op_fields(2-5) [of h n] neutral_ok [of "fl_servo n"] by (auto simp: flight_ok_def)

lemma clamp_1000_range: "\<bar>clamp_1000 p\<bar> \<le> 1000"
  by (auto simp: clamp_1000_def)

lemma targets_set_ok:
  "servo_wf s \<Longrightarrow> targets_ok s \<Longrightarrow> \<bar>p\<bar> \<le> 1000 \<Longrightarrow> servo_wf (flight_targets_set k p r b s) \<and> targets_ok (flight_targets_set k p r b s)"
  using set_update_subset_insert by (fastforce simp: flight_targets_set_def servo_wf_def targets_ok_def)

lemma flight_control_rx_ok: "flight_ok n \<Longrightarrow> flight_ok (flight_control_rx t f n)"
proof -
  assume n: "flight_ok n"
  then have "flight_ok (n\<lparr>fl_servo := flight_targets_set k (clamp_1000 p) r b (fl_servo n)\<rparr>)" for k p r b
    using targets_set_ok clamp_1000_range by (simp add: flight_ok_def)
  then show ?thesis using n
    by (simp add: flight_control_rx_def handle_flap_cmd_def handle_flight_mode_set_def Let_def flight_safety_op_ok)
qed

lemma to_float_mono: "xle x y \<Longrightarrow> xle (to_float x) (to_float y)"
proof (cases x; cases y)
  fix a b assume "xle x y" "x = Fin a" "y = Fin b"
  then show ?thesis by (simp add: xround_mono)
qed (auto simp: xle_def xround_def Let_def)

lemma param_range:
  assumes "\<not> xlt v lo" "\<not> xlt hi v" "lo \<noteq> NaN" "hi \<noteq> NaN"
  shows "param_ok lo hi (to_float v)"
  using assms to_float_mono [of lo v] to_float_mono [of v hi] by (cases "v = NaN") (auto simp: param_ok_def xle_def)

lemma flight_param_set_ok: "flight_ok n \<Longrightarrow> flight_ok (snd (flight_param_set nmo v n))"
  using param_range [of v "DOUBLE_0_05" "Fin 1"] param_range [of v "Fin (1 / 2)" "Fin (5 / 2)"]
  by (auto simp: flight_param_set_def flight_ok_def split: option.splits)

lemma servo_turn_ok: "flight_ok n \<Longrightarrow> flight_ok (flight_servo_turn cu n)"
proof -
  assume n: "flight_ok n"
  obtain p s where t: "servo_task_turn (ps_safety_can_actuate (fl_safety n)) cu (s_rate_scale n) (fl_servo n) = (p, s)" by (rule prod.exhaust)
  have "servo_wf s" "s_targets s = s_targets (fl_servo n)" using turn_wf [OF _ t] turn_effect(2) [OF _ t] n by (auto simp: flight_ok_def)
  then show ?thesis using n by (simp add: flight_servo_turn_def t flight_ok_def targets_ok_def)
qed

lemma step_ok: "flight_ok n \<Longrightarrow> flight_ok (flight_step lib gs e n)"
proof (cases e)
  case (Param prm)
  then show "flight_ok n \<Longrightarrow> ?thesis" by (cases prm) (auto simp: on_param_changed_def flight_param_set_ok split: option.splits)
next
  case (Aero_turn i)
  then show "flight_ok n \<Longrightarrow> ?thesis" using flight_ok_same aero_same by simp blast
next
  case Comms_turn
  then show "flight_ok n \<Longrightarrow> ?thesis" using flight_ok_same comms_same by simp blast
qed (simp_all add: flight_safety_op_ok flight_control_rx_ok servo_turn_ok)

lemma flight_run_simps [simp]: "flight_run lib gs [] n = n" "flight_run lib gs (e # es) n = flight_run lib gs es (flight_step lib gs e n)"
  by (simp_all add: flight_run_def)

lemma run_ok: "flight_ok n \<Longrightarrow> flight_ok (flight_run lib gs evs n)"
  by (induction evs arbitrary: n) (simp_all add: step_ok)

lemma flight_init_ok: "flight_ok (flight_init s imu)"
proof -
  have "param_ok DOUBLE_0_05 (Fin 1) (Fin 1)" using f32_of_int [of 1] param_range [of "Fin 1" DOUBLE_0_05 "Fin 1"] by (simp add: xround_def)
  moreover have "param_ok (Fin (1 / 2)) (Fin (5 / 2)) (to_float (Fin (1225 / 1000)))" by (rule param_range) simp_all
  ultimately show ?thesis using servo_init_wf by (simp add: flight_ok_def flight_init_def targets_ok_def servo_init_def neutral_target_def)
qed


section \<open>A stopped node\<close>

fun flight_clears :: "flight_event \<Rightarrow> bool" where
  "flight_clears (Safety_frame t f) \<longleftrightarrow> ps_can_id_type (f_id f) = PS_T_CLEAR_ESTOP"
| "flight_clears _ \<longleftrightarrow> False"

fun is_servo_turn :: "flight_event \<Rightarrow> bool" where
  "is_servo_turn (Servo_turn cu) \<longleftrightarrow> True"
| "is_servo_turn _ \<longleftrightarrow> False"

definition flight_held :: "'w flight \<Rightarrow> bool" where
  "flight_held n \<longleftrightarrow> started (fl_safety n) \<and> latched (core (fl_safety n)) \<and> servo_wf (fl_servo n)"

text \<open>The distance of a flap from neutral.\<close>

definition off_neutral :: "nat \<Rightarrow> 'w flight \<Rightarrow> int" where
  "off_neutral i n = \<bar>cur_pm (fl_servo n) ! i\<bar>"

lemma servo_same_pos [simp]:
  "cur_pm (flight_targets_neutral_all s) = cur_pm s" "cur_pm (flight_targets_set k p r b s) = cur_pm s"
  "servo_wf s \<Longrightarrow> servo_wf (flight_targets_neutral_all s)"
  "servo_wf s \<Longrightarrow> servo_wf (flight_targets_set k p r b s)"
  by (simp_all add: flight_targets_neutral_all_def flight_targets_set_def servo_wf_def)

lemma flight_safety_op_held:
  assumes "flight_held n" "\<And>s. started s \<Longrightarrow> latched (core s) \<Longrightarrow> started (h s) \<and> latched (core (h s))"
  shows "flight_held (flight_safety_op h n) \<and> off_neutral i (flight_safety_op h n) = off_neutral i n"
  using assms flight_safety_op_fields(1,5) [of h n] by (auto simp: flight_held_def off_neutral_def)

lemma flight_control_rx_held: "flight_held n \<Longrightarrow> flight_held (flight_control_rx t f n) \<and> off_neutral i (flight_control_rx t f n) = off_neutral i n"
proof -
  assume n: "flight_held n"
  have "flight_held (n\<lparr>fl_servo := flight_targets_set k p r b (fl_servo n)\<rparr>) \<and>
    off_neutral i (n\<lparr>fl_servo := flight_targets_set k p r b (fl_servo n)\<rparr>) = off_neutral i n" for k p r b
    using n by (simp add: flight_held_def off_neutral_def)
  then show ?thesis using n
    by (simp add: flight_control_rx_def handle_flap_cmd_def handle_flight_mode_set_def Let_def flight_safety_op_held service_latched)
qed

lemma same_control_held: "flight_held n \<Longrightarrow> same_control n n' \<Longrightarrow> flight_held n' \<and> off_neutral i n' = off_neutral i n"
  by (simp add: flight_held_def same_control_def off_neutral_def)

lemma param_set_same: "fl_safety (snd (on_param_changed prm n)) = fl_safety n" "fl_servo (snd (on_param_changed prm n)) = fl_servo n"
  by (auto simp: on_param_changed_def flight_param_set_def split: option.splits)

lemma flight_held_closed: "flight_held n \<Longrightarrow> \<not> ps_safety_can_actuate (fl_safety n)"
  by (auto simp: flight_held_def latched_def ps_safety_can_actuate_def)

lemma servo_turn_held:
  assumes "flight_held n" "i < 12"
  shows "flight_held (flight_servo_turn cu n)" "off_neutral i (flight_servo_turn cu n) \<le> max 0 (off_neutral i n - 1)"
    "off_neutral i n = 0 \<Longrightarrow> fl_pulses (flight_servo_turn cu n) ! i = 1500"
proof -
  obtain p s where t: "servo_task_turn False cu (s_rate_scale n) (fl_servo n) = (p, s)" by (rule prod.exhaust)
  then have e: "flight_servo_turn cu n = n\<lparr>fl_servo := s, fl_pulses := p\<rparr>" using flight_held_closed [OF assms(1)] by (simp add: flight_servo_turn_def)
  have wf: "servo_wf (fl_servo n)" "length (s_targets (fl_servo n)) = 12" using assms(1) by (auto simp: flight_held_def servo_wf_def)
  let ?k = "slew_step False cu (s_rate_scale n) (PS_FLAP_TABLE ! i) (s_targets (fl_servo n) ! i)"
  have s: "next_pm False cu (s_rate_scale n) (fl_servo n) i = slew ?k 0 (cur_pm (fl_servo n) ! i)"
    using wants_closed [OF wf(2) assms(2)] by (simp add: next_pm_def)
  show "flight_held (flight_servo_turn cu n)" using assms(1) turn_wf [OF wf(1) t] by (simp add: e flight_held_def)
  have "\<bar>slew ?k 0 c\<bar> = max 0 (\<bar>c\<bar> - ?k)" for c using slew_dist [OF slew_step_pos, of 0] by (simp add: abs_minus_commute)
  moreover have "1 \<le> ?k" by (rule slew_step_pos)
  ultimately show "off_neutral i (flight_servo_turn cu n) \<le> max 0 (off_neutral i n - 1)"
    using turn_effect(3) [OF wf(1) t assms(2)] by (simp add: e off_neutral_def s max_def)
  show "off_neutral i n = 0 \<Longrightarrow> fl_pulses (flight_servo_turn cu n) ! i = 1500"
    using turn_effect(1) [OF wf(1) t] assms(2) \<open>1 \<le> ?k\<close> flap_write_neutral [OF assms(2)] by (simp add: e s off_neutral_def slew_def)
qed

lemma flight_step_held:
  assumes "flight_held n" "\<not> flight_clears e" "i < 12"
  shows "flight_held (flight_step lib gs e n) \<and> off_neutral i (flight_step lib gs e n) \<le> max 0 (off_neutral i n - of_bool (is_servo_turn e))"
proof (cases e)
  case (Servo_turn cu)
  then show ?thesis using servo_turn_held(1,2) [OF assms(1,3), of cu] by simp
next
  case (Aero_turn i)
  then show ?thesis using same_control_held [OF assms(1) aero_same] by simp
next
  case Comms_turn
  then show ?thesis using same_control_held [OF assms(1) comms_same] by simp
next
  case (Param prm)
  then show ?thesis using assms(1) by (simp add: flight_held_def off_neutral_def param_set_same)
next
  case (Control_frame t f)
  then show ?thesis using flight_control_rx_held [OF assms(1)] by simp
next
  case (Safety_frame t f)
  then show ?thesis using flight_safety_op_held [OF assms(1), of "safety_rx t f" i] assms(2) by (simp add: service_latched)
next
  case (Bus_state t st)
  then show ?thesis using flight_safety_op_held [OF assms(1), of "can_state_cb t st" i] by (simp add: service_latched)
next
  case (Safety_timer t)
  then show ?thesis using flight_safety_op_held [OF assms(1), of "tick_cb t" i] by (simp add: service_latched)
qed

lemma flight_run_held:
  assumes "flight_held n" "\<forall>e\<in>set evs. \<not> flight_clears e" "i < 12"
  shows "flight_held (flight_run lib gs evs n) \<and>
    off_neutral i (flight_run lib gs evs n) \<le> max 0 (off_neutral i n - int (length (filter is_servo_turn evs)))"
  using assms(1,2)
proof (induction evs arbitrary: n)
  case (Cons e evs)
  have s: "flight_held (flight_step lib gs e n)" "off_neutral i (flight_step lib gs e n) \<le> max 0 (off_neutral i n - of_bool (is_servo_turn e))"
    using flight_step_held [OF Cons.prems(1) _ assms(3), of e lib gs] Cons.prems(2) by simp_all
  show ?case using Cons.IH [OF s(1)] Cons.prems(2) s(2) by (auto simp: max_def split: if_splits)
qed (simp add: off_neutral_def)

lemma flight_estop_frame_held:
  assumes "started (fl_safety n)" "servo_wf (fl_servo n)" "ps_can_id_type (f_id f) = PS_T_ESTOP"
  shows "flight_held (flight_safety_op (safety_rx t f) n)" "off_neutral i (flight_safety_op (safety_rx t f) n) = off_neutral i n"
  using assms on_estop_latched flight_safety_op_fields(1,5) [of "safety_rx t f" n] by (auto simp: flight_held_def off_neutral_def safety_rx_def)

section \<open>Flap reports\<close>

lemma send_flap_last:
  assumes "i < length (last_sent n)"
  shows "last_sent (send_flap lib snap i n) = (last_sent n)[i := note_sent (snap ! i)]"
proof -
  have "\<not> flap_changed st lf \<Longrightarrow> lf = note_sent st" for st lf by (cases lf) (simp add: flap_changed_def note_sent_def)
  then show ?thesis using assms by (auto simp: send_flap_def flap_due_def Let_def)
qed

lemma flaps_last:
  assumes "length (last_sent n) = 12" "k \<le> 12"
  shows "last_sent (fold (send_flap lib snap) [0..<k] n) = map (\<lambda>i. note_sent (snap ! i)) [0..<k] @ drop k (last_sent n)"
  using assms(2)
proof (induction k)
  case (Suc k)
  then have "last_sent (send_flap lib snap k (fold (send_flap lib snap) [0..<k] n)) =
      (last_sent (fold (send_flap lib snap) [0..<k] n))[k := note_sent (snap ! k)]"
    using assms(1) by (intro send_flap_last) simp
  then show ?case using Suc assms(1) by (simp add: list_update_append Cons_nth_drop_Suc [symmetric])
qed simp

text \<open>Which frames go out, with a transport that records them.\<close>

definition recorder :: "ps_can_frame list \<Rightarrow> ps_can_frame \<Rightarrow> esp_err \<times> ps_can_frame list" where
  "recorder w f = (ESP_OK, w @ [f])"

definition flap_payloads :: "ps_can_frame list \<Rightarrow> bytes list" where
  "flap_payloads fs = map f_data (filter (\<lambda>f. ps_can_id_type (f_id f) = PS_T_FLAP_STATE) fs)"

lemma telem_recorded:
  assumes "fx_send lib = recorder" "s_can_set n" "length p = 8"
  shows "flap_payloads (can (fl_safety (flight_telem_send lib c PS_T_FLAP_STATE (Some p) 8 n))) = flap_payloads (can (fl_safety n)) @ [p]"
  using assms by (simp add: flight_telem_send_def flight_telem_frame_def recorder_def flap_payloads_def Let_def blit_def)

lemma flaps_recorded:
  assumes "fx_send lib = recorder" "s_can_set n" "length (last_sent n) = 12" "k \<le> 12"
  shows "flap_payloads (can (fl_safety (fold (send_flap lib snap) [0..<k] n))) = flap_payloads (can (fl_safety n)) @
    map (\<lambda>i. enc_flap_state (flap_state_wire i (snap ! i))) (filter (\<lambda>i. flap_due (aero_tick n) (snap ! i) (last_sent n ! i) i) [0..<k])"
  using assms(4)
proof (induction k)
  case (Suc k)
  let ?n = "fold (send_flap lib snap) [0..<k] n"
  have "aero_tick (fold (send_flap lib snap) is n) = aero_tick n \<and> s_can_set (fold (send_flap lib snap) is n) = s_can_set n" for "is"
    by (induction "is" rule: rev_induct) (simp_all add: send_flap_same)
  then have f: "aero_tick ?n = aero_tick n" "s_can_set ?n" using assms(2) by blast+
  have l: "last_sent ?n ! k = last_sent n ! k" using flaps_last [OF assms(3), of k lib snap] Suc.prems assms(3) by (simp add: nth_append)
  show ?case using Suc telem_recorded [OF assms(1) f(2) fsc.length_enc] by (simp add: send_flap_def [of lib snap k ?n] f l Let_def)
qed simp

lemma slot_within_50:
  assumes "t \<le> 0xFFFFFFCD" "d < 10"
  shows "\<exists>k. 1 \<le> k \<and> k \<le> 50 \<and> (t + of_nat k) mod 5 = 0 \<and> (t + of_nat k :: u32) div 5 mod 10 = of_nat d"
proof -
  define k where "k = nat ((5 * int d - int (unat t) - 1) mod 50) + 1"
  have k: "1 \<le> k" "k \<le> 50" unfolding k_def by (simp_all add: nat_le_iff Suc_le_eq nat_less_iff)
  have "unat t \<le> 0xFFFFFFCD" using assms(1) by (simp add: word_le_nat_alt)
  then have u: "unat (t + of_nat k) = unat t + k" using k by (simp add: unat_word_ariths unat_of_nat)
  have "int (unat t + k) mod 50 = 5 * int d"
  proof -
    have "int (unat t + k) mod 50 = (int (unat t) + ((5 * int d - int (unat t) - 1) mod 50 + 1)) mod 50" by (simp add: k_def ac_simps)
    also have "\<dots> = (5 * int d) mod 50"
    proof -
      have "a + ((b - a - 1) mod 50 + 1) = b + 50 * - ((b - a - 1) div 50)" for a b :: int
        by (simp add: minus_mult_div_eq_mod [symmetric])
      then have "(a + ((b - a - 1) mod 50 + 1)) mod 50 = b mod 50" for a b :: int by (simp only: mod_mult_self2)
      then show ?thesis .
    qed
    finally show ?thesis using assms(2) by simp
  qed
  then have "int ((unat t + k) mod 50) = int (5 * d)" by (simp only: of_nat_mod of_nat_mult of_nat_numeral)
  then have m: "(unat t + k) mod 50 = 5 * d" by (simp only: of_nat_eq_iff)
  then have "unat t + k = 5 * (d + 10 * ((unat t + k) div 50))" using mult_div_mod_eq [of 50 "unat t + k"] by simp
  then have "(unat t + k) mod 5 = 0 \<and> (unat t + k) div 5 mod 10 = d" using assms(2)
    by (metis mod_mult_self1_is_0 nonzero_mult_div_cancel_left mod_mult_self2 mod_less zero_neq_numeral)
  moreover have v: "unat (5 :: u32) = 5" "unat (10 :: u32) = 10" "unat (of_nat d :: u32) = d" using assms(2) by (simp_all add: unat_of_nat)
  ultimately have "(t + of_nat k) mod 5 = 0 \<and> (t + of_nat k) div 5 mod 10 = of_nat d"
    unfolding word_unat_eq_iff unat_mod_distrib unat_div_distrib u v unat_0 by (simp only: simp_thms)
  then show ?thesis using k by (intro exI [of _ k]) (simp only: simp_thms)
qed

section \<open>Properties\<close>

text \<open>Claim C23. The flight node stays well formed: from start-up, through any interleaving of frames, bus reports, ticks, parameter changes and
  turns of its three tasks, there are twelve targets within 1000 permille, twelve positions within their envelopes and twelve last-sent
  records, and each runtime parameter is NaN or within the bracket its setter enforces.\<close>

theorem flight_well_formed: "flight_ok (flight_run lib gs evs (flight_init s imu))"
  by (intro run_ok flight_init_ok)

text \<open>Claim C22. An emergency stop brings every flap to neutral: after an ESTOP frame, in any interleaving of events without a CLEAR_ESTOP frame that
  gives the servo task a thousand turns, whatever is commanded and whatever the rate scale is set to, every flap stands at neutral, the
  next turn writes twelve neutral pulses and the node is still latched. When the node was not stopped before, the targets themselves are
  neutral at the end of the dispatch of the frame.\<close>

theorem flight_estop_reaches_neutral:
  assumes "started (fl_safety n)" "servo_wf (fl_servo n)" "ps_can_id_type (f_id f) = PS_T_ESTOP" "\<forall>e\<in>set evs. \<not> flight_clears e"
    and "1000 \<le> length (filter is_servo_turn evs)" and n': "n' = flight_run lib gs (Safety_frame t f # evs) n"
  shows "latched (core (fl_safety n')) \<and> (\<forall>i<12. cur_pm (fl_servo n') ! i = 0 \<and> fl_pulses (flight_servo_turn cu n') ! i = 1500) \<and>
    (state (core (fl_safety n)) \<noteq> PS_STATE_ESTOP \<and> on_transition (core (fl_safety n)) \<longrightarrow>
       s_targets (fl_servo (flight_step lib gs (Safety_frame t f) n)) = replicate 12 neutral_target)"
proof -
  let ?m = "flight_safety_op (safety_rx t f) n"
  have m: "flight_held ?m" "off_neutral i ?m = off_neutral i n" for i using flight_estop_frame_held [OF assms(1-3)] by auto
  have "flight_held n' \<and> off_neutral i n' = 0" if "i < 12" for i
  proof -
    have "off_neutral i n \<le> 1000" using assms(2) that row_ok [OF that] by (auto simp: off_neutral_def servo_wf_def in_env_def row_ok_def)
    then show ?thesis using flight_run_held [OF m(1) assms(4) that, of lib gs] m(2) assms(5) by (auto simp: n' off_neutral_def max_def split: if_splits)
  qed
  then have h: "flight_held n'" "\<And>i. i < 12 \<Longrightarrow> off_neutral i n' = 0" by (auto intro: zero_less_numeral)
  then have "cur_pm (fl_servo n') ! i = 0 \<and> fl_pulses (flight_servo_turn cu n') ! i = 1500" if "i < 12" for i
    using servo_turn_held(3) [OF h(1) that] that by (auto simp: off_neutral_def)
  then show ?thesis using h(1) flight_stop.estop_frame_neutral [OF assms(3)] by (auto simp: flight_held_def flight_safety_op_def)
qed

text \<open>Flap reports are change-driven and complete: in a 20 Hz slot the node sends exactly the flaps that differ from their last report or
  whose keep-alive is due, in flap order and with their current state, after which the last reports are the current states; and between
  any two ticks 50 apart (half a second), the wrap of the tick counter aside, every flap has a keep-alive slot.\<close>

lemma flap_reports:
  assumes "fx_send lib = recorder" "s_can_set n" "length (last_sent n) = 12" "aero_tick n mod 5 = 0" "snap = s_states (fl_servo n)"
  shows "flap_payloads (can (fl_safety (aero_flaps lib n))) = flap_payloads (can (fl_safety n)) @
      map (\<lambda>i. enc_flap_state (flap_state_wire i (snap ! i))) (filter (\<lambda>i. flap_due (aero_tick n) (snap ! i) (last_sent n ! i) i) [0..<12]) \<and>
    last_sent (aero_flaps lib n) = map (\<lambda>i. note_sent (snap ! i)) [0..<12] \<and>
    (\<forall>t i st lf. t \<le> 0xFFFFFFCD \<longrightarrow> (\<exists>k. 1 \<le> k \<and> k \<le> 50 \<and> (t + of_nat k) mod 5 = 0 \<and> flap_due (t + of_nat k) st lf i))"
proof -
  have "\<exists>k. 1 \<le> k \<and> k \<le> 50 \<and> (t + of_nat k) mod 5 = 0 \<and> flap_due (t + of_nat k) st lf i" if "t \<le> 0xFFFFFFCD" for t i st lf
  proof -
    have "i mod 10 < 10" by simp
    from slot_within_50 [OF that this] obtain k where
      k: "1 \<le> k \<and> k \<le> 50 \<and> (t + of_nat k) mod 5 = 0 \<and> (t + of_nat k) div 5 mod 10 = of_nat (i mod 10)" ..
    show ?thesis by (rule exI [of _ k]) (use k in \<open>simp only: flap_due_def simp_thms\<close>)
  qed
  moreover have e: "aero_flaps lib n = fold (send_flap lib snap) [0..<12] n" unfolding aero_flaps_def assms(4,5) by (simp only: refl if_True)
  moreover have "drop 12 (last_sent n) = []" using assms(3) by simp
  moreover note flaps_recorded [OF assms(1-3) order.refl, of snap] flaps_last [OF assms(3) order.refl, of lib snap]
  ultimately show ?thesis by (simp only: append_Nil2 simp_thms) blast
qed

text \<open>A density that is not a number hides the airspeed: the parameter service accepts NaN for \<open>rho\<close> although both bounds are tested, and
  from then on every AERO_STATE reports an airspeed of 0 whatever the pressure, since \<open>fmaxf\<close> drops the NaN.\<close>

lemma nan_density_hides_airspeed:
  assumes "fx_sqrtf lib (Fin 0) = Fin 0" "flight_param_set (Some ''rho'') NaN n = (accepted, n')"
  shows "accepted \<and> ae_ias_cms (aero_state lib (s_rho n') q) = 0"
proof -
  have "xround 0 = Fin 0" by (simp add: xround_Fin)
  then show ?thesis using assms by (auto simp: flight_param_set_def aero_state_def xfmax_def sat_u16_def)
qed

section \<open>Witnesses\<close>

abbreviation demo_flight_lib :: "ps_can_frame list flight_lib" where
  "demo_flight_lib \<equiv> \<lparr> fx_sqrtf = (\<lambda>x. x), fx_send = recorder, fx_cu = 0, fx_cuu = 0 \<rparr>"

abbreviation demo_flight :: "ps_can_frame list flight" where
  "demo_flight \<equiv> flight_init \<lparr> core = (ps_safety_core_init 0 True)\<lparr>state := PS_STATE_OPERATIONAL\<rparr>, can = [], s_node_id = 5, safety_low = 0,
     estop_seq = 0, started = True \<rparr> False"

lemma demo_flight_fields:
  "started (fl_safety demo_flight)" "servo_wf (fl_servo demo_flight)" "s_can_set demo_flight" "length (last_sent demo_flight) = 12"
  "aero_tick demo_flight = 0"
  using servo_init_wf by (simp_all add: flight_init_def)

theorem flight_estop_reaches_neutral_witness:
  "let f = \<lparr> f_id = ps_can_id_pack 0 8 0 PS_T_ESTOP 0, f_dlc = 8, f_data = replicate 8 0 \<rparr>;
       n' = flight_run demo_flight_lib (\<lambda>_. prev_stats demo_flight) (Safety_frame 1 f # replicate 1000 (Servo_turn 0)) demo_flight
   in latched (core (fl_safety n')) \<and> fl_pulses (flight_servo_turn 0 n') ! 3 = 1500"
proof -
  let ?f = "\<lparr> f_id = ps_can_id_pack 0 8 0 PS_T_ESTOP 0, f_dlc = 8, f_data = replicate 8 0 \<rparr>"
  have f: "ps_can_id_type (f_id ?f) = PS_T_ESTOP" by simp
  have e: "\<forall>e\<in>set (replicate 1000 (Servo_turn 0)). \<not> flight_clears e" "1000 \<le> length (filter is_servo_turn (replicate 1000 (Servo_turn 0)))" by simp_all
  from flight_estop_reaches_neutral [OF demo_flight_fields(1,2) f e refl, of demo_flight_lib "\<lambda>_. prev_stats demo_flight" 1 0]
  show ?thesis unfolding Let_def by auto
qed

end
