(* ===== verification/Limb_Control.thy ===== *)
theory Limb_Control
  imports Node_Glue Ps_Ctl Wire
begin

text \<open>
  The limb nodes' control task, \<open>firmware/apps/node_limb/main/control_task.c\<close>, with the joint table of \<open>board_limb.h\<close> and the safety
  callback of \<open>safety_glue.c\<close>: encoders, the mode-specific cascade of the two joints, the torque ceiling, the actuation gate, the
  overcurrent trip, the sensor snapshot and the live parameters. The build with motor hardware is modelled
  (\<open>CONFIG_PS_LIMB_BENCH\<close> off). What the drivers answer during a turn is the record \<open>ctl_in\<close>; what they are told is the field
  \<open>drive\<close>. A conversion C leaves open gives the argument \<open>cu\<close>.
\<close>

section \<open>The joint table\<close>

abbreviation PS_LIMB_JOINT_COUNT :: nat where "PS_LIMB_JOINT_COUNT \<equiv> 2"

text \<open>The pins of the gate bank and the encoder select have no part in the computation and are left out.\<close>

record ps_limb_joint_cfg =
  jn_name :: string
  adc_ia :: nat
  adc_ib :: nat
  pole_pairs :: u8
  gear_ratio :: xfloat
  dir_sign :: int
  pos_min_crad :: int
  pos_max_crad :: int
  torque_limit_cnm :: int
  kt_nm_per_a :: xfloat
  cur_mv_per_a :: xfloat
  cur_offset_mv :: xfloat
  k_imp_nm_per_rad :: xfloat
  d_imp_nms_per_rad :: xfloat
  cf_pos_kp :: xfloat
  cf_pos_ki :: xfloat
  cf_pos_kd :: xfloat
  pos_vel_limit_rad_s :: xfloat
  cf_vel_kp :: xfloat
  cf_vel_ki :: xfloat
  cf_vel_kd :: xfloat
  cf_cur_kp :: xfloat
  cf_cur_ki :: xfloat

text \<open>The shape of \<open>PS_LIMB_JOINT_TABLE_COMMON\<close>: per joint the name, gear, range, torque limit, torque constant and impedance gains.\<close>

definition joint_row0 :: "string \<Rightarrow> rat \<Rightarrow> int \<Rightarrow> int \<Rightarrow> int \<Rightarrow> int \<Rightarrow> rat \<Rightarrow> rat \<Rightarrow> rat \<Rightarrow> ps_limb_joint_cfg" where
  "joint_row0 nm gear dir pmin pmax tlim kt kimp dimp =
     \<lparr> jn_name = nm, adc_ia = 0, adc_ib = 1, pole_pairs = 7, gear_ratio = Fin gear, dir_sign = dir,
       pos_min_crad = pmin, pos_max_crad = pmax, torque_limit_cnm = tlim, kt_nm_per_a = xround kt,
       cur_mv_per_a = Fin 55, cur_offset_mv = Fin 1650, k_imp_nm_per_rad = xround kimp, d_imp_nms_per_rad = xround dimp,
       cf_pos_kp = Fin 6, cf_pos_ki = Fin (1 / 2), cf_pos_kd = xround (5 / 100), pos_vel_limit_rad_s = Fin 4,
       cf_vel_kp = Fin (5 / 2), cf_vel_ki = Fin 4, cf_vel_kd = Fin 0, cf_cur_kp = Fin 4, cf_cur_ki = Fin 800 \<rparr>"

definition joint_row1 :: "string \<Rightarrow> rat \<Rightarrow> int \<Rightarrow> int \<Rightarrow> int \<Rightarrow> int \<Rightarrow> rat \<Rightarrow> rat \<Rightarrow> rat \<Rightarrow> ps_limb_joint_cfg" where
  "joint_row1 nm gear dir pmin pmax tlim kt kimp dimp =
     (joint_row0 nm gear dir pmin pmax tlim kt kimp dimp)
       \<lparr> adc_ia := 2, adc_ib := 3, cf_pos_kp := Fin 5, cf_pos_ki := xround (4 / 10), cf_pos_kd := xround (4 / 100),
         pos_vel_limit_rad_s := Fin 5, cf_vel_kp := Fin 2, cf_vel_ki := Fin 3 \<rparr>"

text \<open>The four builds, by \<open>CONFIG_PS_LIMB_NODE_ID\<close>.\<close>

datatype limb_node = Arm_right | Arm_left | Leg_right | Leg_left

definition PS_LIMB_JOINTS :: "limb_node \<Rightarrow> ps_limb_joint_cfg list" where
  "PS_LIMB_JOINTS n =
     (let arm = (\<lambda>dir. [joint_row0 ''elbow'' 6 dir (- 10) 260 4000 (18 / 100) 15 (5 / 10),
                        joint_row1 ''wrist'' 4 dir (- 157) 157 1500 (12 / 100) 6 (2 / 10)]);
          leg = (\<lambda>dir. [joint_row0 ''hip'' 9 dir (- 52) 209 8000 (25 / 100) 25 (8 / 10),
                        joint_row1 ''knee'' 8 dir 0 244 6000 (22 / 100) 20 (6 / 10)])
      in case n of Arm_right \<Rightarrow> arm 1 | Arm_left \<Rightarrow> arm (- 1) | Leg_right \<Rightarrow> leg 1 | Leg_left \<Rightarrow> leg (- 1))"

abbreviation PS_LIMB_V_BUS_VOLTS :: xfloat where "PS_LIMB_V_BUS_VOLTS \<equiv> Fin 24"
abbreviation PS_STRAIN_CN_PER_COUNT :: xfloat where "PS_STRAIN_CN_PER_COUNT \<equiv> Fin (25 / 2)"
abbreviation CTRL_TICK_S :: xfloat where "CTRL_TICK_S \<equiv> xdiv (Fin 1) (Fin 1000)"
abbreviation SENSOR_TICK_DIV :: u32 where "SENSOR_TICK_DIV \<equiv> 4"
abbreviation OVERCURRENT_TRIP_TICKS :: u32 where "OVERCURRENT_TRIP_TICKS \<equiv> 5"
abbreviation TWO_PI :: xfloat where "TWO_PI \<equiv> xround (6283185307 / 10 ^ 9)"
abbreviation RAD_S_TO_DDPS :: xfloat where "RAD_S_TO_DDPS \<equiv> xround (5729578 / 10 ^ 4)"

section \<open>Encoder\<close>

record limb_encoder =
  last_raw :: u16
  have_last :: bool
  angle_rad :: xfloat
  vel_rad_s :: xfloat

text \<open>\<open>rx\<close>: the two bytes of the transfer, None on a bus fault.\<close>

definition encoder_read_raw14 :: "(u8 \<times> u8) option \<Rightarrow> limb_encoder \<Rightarrow> u16" where
  "encoder_read_raw14 rx e =
     (case rx of None \<Rightarrow> last_raw e
      | Some (b0, b1) \<Rightarrow> (push_bit 8 (ucast b0) OR ucast b1) AND 0x3FFF)"

definition enc_delta :: "u16 \<Rightarrow> u16 \<Rightarrow> int" where
  "enc_delta raw prev =
     (let delta = uint raw - uint prev
      in if delta > 8192 then delta - 16384 else if delta < - 8192 then delta + 16384 else delta)"

definition encoder_update :: "(u8 \<times> u8) option \<Rightarrow> xfloat \<Rightarrow> limb_encoder \<Rightarrow> limb_encoder" where
  "encoder_update rx dt e =
     (let raw = encoder_read_raw14 rx e;
          e = (if have_last e then
                 let dtheta = xmul (xint (enc_delta raw (last_raw e))) (xdiv TWO_PI (Fin 16384));
                     e = e\<lparr>angle_rad := xadd (angle_rad e) dtheta\<rparr>;
                     inst_vel = xdiv dtheta dt
                 in e\<lparr>vel_rad_s := xadd (vel_rad_s e) (xmul (Fin (1 / 4)) (xsub inst_vel (vel_rad_s e)))\<rparr>
               else e)
      in e\<lparr>last_raw := raw, have_last := True\<rparr>)"

definition encoder_electrical_theta :: "u16 \<Rightarrow> u8 \<Rightarrow> xfloat" where
  "encoder_electrical_theta raw pp =
     (let mech = xmul (xint (uint raw)) (xdiv TWO_PI (Fin 16384))
      in xfmod (xmul mech (xint (uint pp))) TWO_PI)"

section \<open>State\<close>

record limb_setpoint =
  sp_mode :: u8
  sp_pos_crad :: int
  sp_vel_crad_s :: int
  sp_eff_cNm :: int

record limb_joint_state =
  st_pos_crad :: i16
  st_vel_crad_s :: i16
  st_eff_cNm :: i16
  st_saturated :: bool
  st_passive :: bool

record limb_sensor_snapshot =
  sn_quat :: ps_imu_quat
  sn_acc :: ps_imu_acc
  sn_gyr :: ps_imu_gyr
  sn_force :: ps_force
  imu_valid :: bool

record limb_counters =
  control_ticks :: u32
  overcurrent_trips :: u32
  joint_cmd_rx :: u32
  mode_set_rx :: u32
  cmd_rejected :: u32

text \<open>What the output stage of a joint was told last.\<close>

datatype motor = Duty "xfloat list" | Brake | Disabled

record 'w limb =
  l_safety :: "'w safety_esp"
  s_setpoints :: "limb_setpoint list"
  s_states :: "limb_joint_state list"
  s_sensors :: limb_sensor_snapshot
  s_pos_pid :: "ps_pid list"
  s_vel_pid :: "ps_pid list"
  s_foc :: "ps_foc_ctl list"
  s_torque_limit_cnm :: "int list"
  s_oc_ticks :: "u32 list"
  s_enc :: "limb_encoder list"
  s_imu_ok :: bool
  s_mahony :: ps_mahony
  s_strain_offset :: "xfloat list"
  s_max_exec_us :: u32
  s_missed_ticks :: u32
  s_stack_free_bytes :: u32
  l_ctr :: limb_counters
  ctl_tick :: u32
  drive :: "motor list"
  l_node_id :: u8 \<comment> \<open>from here on the statics of \<open>comms_task.c\<close>; its CAN handle is the one of the safety service\<close>
  s_seq :: "u8 list"
  comms_tick :: u32
  prev_can :: ps_can_stats

section \<open>Shared state and parameters\<close>

definition limb_setpoint_set :: "u8 \<Rightarrow> limb_setpoint option \<Rightarrow> 'w limb \<Rightarrow> 'w limb" where
  "limb_setpoint_set joint spo l =
     (case spo of None \<Rightarrow> l
      | Some sp \<Rightarrow> if unat joint \<ge> PS_LIMB_JOINT_COUNT then l else l\<lparr>s_setpoints := (s_setpoints l)[unat joint := sp]\<rparr>)"

definition zero_setpoint :: limb_setpoint where
  "zero_setpoint = \<lparr> sp_mode = PS_JMODE_PASSIVE, sp_pos_crad = 0, sp_vel_crad_s = 0, sp_eff_cNm = 0 \<rparr>"

definition limb_setpoint_zero_all :: "'w limb \<Rightarrow> 'w limb" where
  "limb_setpoint_zero_all l = l\<lparr>s_setpoints := replicate PS_LIMB_JOINT_COUNT zero_setpoint\<rparr>"

definition joint_state_publish :: "nat \<Rightarrow> limb_joint_state \<Rightarrow> 'w limb \<Rightarrow> 'w limb" where
  "joint_state_publish j st l = l\<lparr>s_states := (s_states l)[j := st]\<rparr>"

definition sensor_publish :: "limb_sensor_snapshot \<Rightarrow> 'w limb \<Rightarrow> 'w limb" where
  "sensor_publish snap l = l\<lparr>s_sensors := snap\<rparr>"

definition limb_control_reset_pids :: "'w limb \<Rightarrow> 'w limb" where
  "limb_control_reset_pids l =
     l\<lparr>s_pos_pid := map ps_pid_reset (s_pos_pid l), s_vel_pid := map ps_pid_reset (s_vel_pid l),
       s_foc := map ps_foc_ctl_reset (s_foc l)\<rparr>"

text \<open>The first joint whose name and an underscore start the parameter's name, with what follows.\<close>

fun match_joint :: "string \<Rightarrow> nat \<Rightarrow> ps_limb_joint_cfg list \<Rightarrow> (nat \<times> string) option" where
  "match_joint nm j [] = None"
| "match_joint nm j (c # cs) =
     (let n = length (jn_name c) in
      if take n nm = jn_name c \<and> n < length nm \<and> nm ! n = CHR ''_'' then Some (j, drop (n + 1) nm)
      else match_joint nm (j + 1) cs)"

definition param_match_joint :: "limb_node \<Rightarrow> string \<Rightarrow> (nat \<times> string) option" where
  "param_match_joint nd nm = match_joint nm 0 (PS_LIMB_JOINTS nd)"

definition limb_param_set :: "int \<Rightarrow> limb_node \<Rightarrow> string option \<Rightarrow> xfloat \<Rightarrow> 'w limb \<Rightarrow> bool \<times> 'w limb" where
  "limb_param_set cu nd nmo value l =
     (case nmo of None \<Rightarrow> (False, l) | Some nm \<Rightarrow>
      case param_match_joint nd nm of None \<Rightarrow> (False, l)
      | Some (j, suffix) \<Rightarrow>
        if suffix = ''pos_kp'' then (True, l\<lparr>s_pos_pid := (s_pos_pid l)[j := (s_pos_pid l ! j)\<lparr>pid_kp := to_float value\<rparr>]\<rparr>)
        else if suffix = ''pos_ki'' then (True, l\<lparr>s_pos_pid := (s_pos_pid l)[j := (s_pos_pid l ! j)\<lparr>pid_ki := to_float value\<rparr>]\<rparr>)
        else if suffix = ''vel_kp'' then (True, l\<lparr>s_vel_pid := (s_vel_pid l)[j := (s_vel_pid l ! j)\<lparr>pid_kp := to_float value\<rparr>]\<rparr>)
        else if suffix = ''vel_ki'' then (True, l\<lparr>s_vel_pid := (s_vel_pid l)[j := (s_vel_pid l ! j)\<lparr>pid_ki := to_float value\<rparr>]\<rparr>)
        else if suffix = ''torque_limit_cnm'' then
          let v = to_i32 cu value;
              board_max = torque_limit_cnm (PS_LIMB_JOINTS nd ! j);
              v = (if v < 0 then 0 else v);
              v = (if v > board_max then board_max else v)
          in (True, l\<lparr>s_torque_limit_cnm := (s_torque_limit_cnm l)[j := v]\<rparr>)
        else (False, l))"

definition limb_param_get :: "limb_node \<Rightarrow> string option \<Rightarrow> 'w limb \<Rightarrow> xfloat option" where
  "limb_param_get nd nmo l =
     (case nmo of None \<Rightarrow> None | Some nm \<Rightarrow>
      case param_match_joint nd nm of None \<Rightarrow> None
      | Some (j, suffix) \<Rightarrow>
        if suffix = ''pos_kp'' then Some (pid_kp (s_pos_pid l ! j))
        else if suffix = ''pos_ki'' then Some (pid_ki (s_pos_pid l ! j))
        else if suffix = ''vel_kp'' then Some (pid_kp (s_vel_pid l ! j))
        else if suffix = ''vel_ki'' then Some (pid_ki (s_vel_pid l ! j))
        else if suffix = ''torque_limit_cnm'' then Some (Fin (of_int (s_torque_limit_cnm l ! j)))
        else None)"

section \<open>The safety callback\<close>

definition limb_safety_on_transition :: "u8 \<Rightarrow> u8 \<Rightarrow> u8 \<Rightarrow> 'w limb \<Rightarrow> 'w limb" where
  "limb_safety_on_transition old_state new_state cause l =
     (if new_state \<in> {PS_STATE_PASSIVE, PS_STATE_ESTOP, PS_STATE_FAULT} then limb_setpoint_zero_all l
      else if new_state = PS_STATE_OPERATIONAL then limb_control_reset_pids l
      else l)"

definition limb_safety_glue_init :: "'w limb \<Rightarrow> 'w limb" where
  "limb_safety_glue_init l = limb_setpoint_zero_all l"

text \<open>An operation of the safety service, with the callbacks it makes.\<close>

definition limb_safety_op :: "('w safety_esp \<Rightarrow> 'w safety_esp) \<Rightarrow> 'w limb \<Rightarrow> 'w limb" where
  "limb_safety_op h l =
     on_core_transition limb_safety_on_transition (l_safety l) (h (l_safety l)) (l\<lparr>l_safety := h (l_safety l)\<rparr>)"

section \<open>One joint in one tick\<close>

definition sat_i16 :: "i16 \<Rightarrow> xfloat \<Rightarrow> i16" where
  "sat_i16 cu v =
     (if xle v (Fin (- 32768)) then - 32768 else if xle (Fin 32767) v then 32767 else to_i16 cu v)"

definition adc_read_amps :: "(nat \<Rightarrow> int option) \<Rightarrow> nat \<Rightarrow> xfloat \<Rightarrow> xfloat \<Rightarrow> xfloat" where
  "adc_read_amps adc chan offset_mv mv_per_a =
     (case adc chan of None \<Rightarrow> Fin 0
      | Some raw \<Rightarrow> xdiv (xsub (xmul (xint raw) (xdiv (Fin 3300) (Fin 4095))) offset_mv) mv_per_a)"

definition joint_write :: "nat \<Rightarrow> bool \<Rightarrow> xfloat list \<Rightarrow> xfloat \<Rightarrow> 'w limb \<Rightarrow> 'w limb" where
  "joint_write j energize duty motor_vel l =
     (if energize \<and> ps_safety_can_actuate (l_safety l) then l\<lparr>drive := (drive l)[j := Duty duty]\<rparr>
      else if xlt (Fin 5) (xabs motor_vel) then l\<lparr>drive := (drive l)[j := Brake]\<rparr>
      else l\<lparr>drive := (drive l)[j := Disabled]\<rparr>)"

text \<open>The ceiling on the current for a torque limit.\<close>

definition current_limit :: "ps_limb_joint_cfg \<Rightarrow> int \<Rightarrow> xfloat" where
  "current_limit cfg tlim = xdiv (xdiv (xint tlim) (Fin 100)) (xmul (gear_ratio cfg) (kt_nm_per_a cfg))"

text \<open>The \<open>switch\<close> over the mode: the current asked for, and the two outer controllers.\<close>

definition joint_cascade ::
    "ps_limb_joint_cfg \<Rightarrow> limb_setpoint \<Rightarrow> xfloat \<Rightarrow> xfloat \<Rightarrow> ps_pid \<Rightarrow> ps_pid \<Rightarrow> xfloat \<times> ps_pid \<times> ps_pid" where
  "joint_cascade cfg sp out_pos out_vel pp vp =
     (let dir = xint (dir_sign cfg) in
      if sp_mode sp = PS_JMODE_POSITION then
        let pos_target = xdiv (xint (sp_pos_crad sp)) (Fin 100);
            (vel_target, pp) = ps_pid_step (xsub pos_target out_pos) CTRL_TICK_S pp;
            (i_cmd, vp) = ps_pid_step (xsub vel_target out_vel) CTRL_TICK_S vp
        in (xmul dir i_cmd, pp, vp)
      else if sp_mode sp = PS_JMODE_VELOCITY then
        let vel_target = xdiv (xint (sp_vel_crad_s sp)) (Fin 100);
            (i_cmd, vp) = ps_pid_step (xsub vel_target out_vel) CTRL_TICK_S vp
        in (xmul dir i_cmd, pp, vp)
      else if sp_mode sp = PS_JMODE_TORQUE then
        let torque_out = xdiv (xint (sp_eff_cNm sp)) (Fin 100)
        in (xdiv (xmul dir (xdiv torque_out (gear_ratio cfg))) (kt_nm_per_a cfg), pp, vp)
      else if sp_mode sp = PS_JMODE_IMPEDANCE then
        let pos_target = xdiv (xint (sp_pos_crad sp)) (Fin 100);
            vel_target = xdiv (xint (sp_vel_crad_s sp)) (Fin 100);
            torque_out = xadd (xmul (k_imp_nm_per_rad cfg) (xsub pos_target out_pos))
                              (xmul (d_imp_nms_per_rad cfg) (xsub vel_target out_vel))
        in (xdiv (xmul dir (xdiv torque_out (gear_ratio cfg))) (kt_nm_per_a cfg), pp, vp)
      else (Fin 0, ps_pid_reset pp, ps_pid_reset vp))"

definition clamp_iq :: "xfloat \<Rightarrow> xfloat \<Rightarrow> xfloat \<times> bool" where
  "clamp_iq i_limit iq =
     (if xlt i_limit iq then (i_limit, True) else if xlt iq (xneg i_limit) then (xneg i_limit, True) else (iq, False))"

text \<open>What the C library, the transport and the drivers answer. \<open>lib\<close> does not change from turn to turn.\<close>

record 'w limb_lib =
  lib_trig :: trig
  lib_sqrtf :: "xfloat \<Rightarrow> xfloat"
  lib_send :: "'w \<Rightarrow> ps_can_frame \<Rightarrow> esp_err \<times> 'w"
  lib_cu :: i16

record ctl_in =
  in_pending :: u32
  in_enc :: "nat \<Rightarrow> (u8 \<times> u8) option"
  in_adc :: "nat \<Rightarrow> int option"
  in_now :: "nat \<Rightarrow> u32 \<times> u32" \<comment> \<open>by joint: the clock before and after a broadcast\<close>
  in_imu :: "((xfloat \<times> xfloat \<times> xfloat) \<times> (xfloat \<times> xfloat \<times> xfloat)) option" \<comment> \<open>acceleration in g, rates\<close>
  in_exec_us :: u32
  in_stack :: u32

text \<open>Overcurrent: the count of consecutive ticks above the limit, and the stop.\<close>

definition overcurrent_check :: "'w limb_lib \<Rightarrow> u32 \<times> u32 \<Rightarrow> nat \<Rightarrow> xfloat \<Rightarrow> xfloat \<Rightarrow> 'w limb \<Rightarrow> 'w limb" where
  "overcurrent_check lib now j i_mag i_limit l =
     (if xlt i_limit i_mag then
        let l = l\<lparr>s_oc_ticks := (s_oc_ticks l)[j := s_oc_ticks l ! j + 1]\<rparr> in
        if s_oc_ticks l ! j > OVERCURRENT_TRIP_TICKS then
          let l = limb_safety_op (\<lambda>s. snd (ps_safety_raise_estop (lib_send lib) (fst now) (snd now) PS_ESTOP_SOFTWARE s)) l;
              l = l\<lparr>l_ctr := (l_ctr l)\<lparr>overcurrent_trips := overcurrent_trips (l_ctr l) + 1\<rparr>\<rparr>
          in l\<lparr>s_oc_ticks := (s_oc_ticks l)[j := 0]\<rparr>
        else l
      else l\<lparr>s_oc_ticks := (s_oc_ticks l)[j := 0]\<rparr>)"

text \<open>The phase currents of a joint, its output-shaft position and velocity.\<close>

definition joint_amps :: "limb_node \<Rightarrow> ctl_in \<Rightarrow> nat \<Rightarrow> xfloat \<times> xfloat" where
  "joint_amps nd i j =
     (let cfg = PS_LIMB_JOINTS nd ! j
      in (adc_read_amps (in_adc i) (adc_ia cfg) (cur_offset_mv cfg) (cur_mv_per_a cfg),
          adc_read_amps (in_adc i) (adc_ib cfg) (cur_offset_mv cfg) (cur_mv_per_a cfg)))"

definition output_shaft :: "ps_limb_joint_cfg \<Rightarrow> xfloat \<Rightarrow> xfloat" where
  "output_shaft cfg x = xdiv (xmul (xint (dir_sign cfg)) x) (gear_ratio cfg)"

text \<open>The current limit of a joint, and its measured current in the rotor frame once its encoder was read.\<close>

definition joint_limit :: "limb_node \<Rightarrow> nat \<Rightarrow> 'w limb \<Rightarrow> xfloat" where
  "joint_limit nd j l = current_limit (PS_LIMB_JOINTS nd ! j) (s_torque_limit_cnm l ! j)"

definition joint_dq :: "'w limb_lib \<Rightarrow> limb_node \<Rightarrow> ctl_in \<Rightarrow> nat \<Rightarrow> 'w limb \<Rightarrow> ps_dq" where
  "joint_dq lib nd i j l =
     ps_foc_park (lib_trig lib) (ps_foc_clarke (fst (joint_amps nd i j)) (snd (joint_amps nd i j)))
       (encoder_electrical_theta (last_raw (s_enc l ! j)) (pole_pairs (PS_LIMB_JOINTS nd ! j)))"

definition joint_i_mag :: "'w limb_lib \<Rightarrow> limb_node \<Rightarrow> ctl_in \<Rightarrow> nat \<Rightarrow> 'w limb \<Rightarrow> xfloat" where
  "joint_i_mag lib nd i j l =
     (let dq = joint_dq lib nd i j l in lib_sqrtf lib (xadd (xmul (dq_d dq) (dq_d dq)) (xmul (dq_q dq) (dq_q dq))))"

text \<open>From the encoder to the duties: the first part of the loop body, up to \<open>ps_foc_ctl_step\<close>.\<close>

definition joint_control ::
    "'w limb_lib \<Rightarrow> limb_node \<Rightarrow> ctl_in \<Rightarrow> limb_setpoint \<Rightarrow> nat \<Rightarrow> 'w limb \<Rightarrow> (xfloat list \<times> bool) \<times> 'w limb" where
  "joint_control lib nd i sp j l =
     (let cfg = PS_LIMB_JOINTS nd ! j;
          e = encoder_update (in_enc i j) CTRL_TICK_S (s_enc l ! j);
          l = l\<lparr>s_enc := (s_enc l)[j := e]\<rparr>;
          (ia, ib) = joint_amps nd i j;
          theta_e = encoder_electrical_theta (last_raw e) (pole_pairs cfg);
          i_limit = joint_limit nd j l;
          (iq, pp, vp) = joint_cascade cfg sp (output_shaft cfg (angle_rad e)) (output_shaft cfg (vel_rad_s e))
             (s_pos_pid l ! j) (s_vel_pid l ! j);
          l = l\<lparr>s_pos_pid := (s_pos_pid l)[j := pp], s_vel_pid := (s_vel_pid l)[j := vp]\<rparr>;
          (iq, saturated) = clamp_iq i_limit iq;
          (duty, fc) = ps_foc_ctl_step (lib_trig lib)
             \<lparr> in_ia = ia, in_ib = ib, in_theta = theta_e, in_id = Fin 0, in_iq = iq, in_v_bus = PS_LIMB_V_BUS_VOLTS,
               in_dt = CTRL_TICK_S \<rparr> (s_foc l ! j)
      in ((duty, saturated), l\<lparr>s_foc := (s_foc l)[j := fc]\<rparr>))"

definition joint_output ::
    "'w limb_lib \<Rightarrow> limb_node \<Rightarrow> ctl_in \<Rightarrow> limb_setpoint \<Rightarrow> nat \<Rightarrow> 'w limb \<Rightarrow> bool \<times> 'w limb" where
  "joint_output lib nd i sp j l =
     (let ((duty, saturated), l) = joint_control lib nd i sp j l
      in (saturated, joint_write j (sp_mode sp \<noteq> PS_JMODE_PASSIVE) duty (vel_rad_s (s_enc l ! j)) l))"

definition joint_turn ::
    "'w limb_lib \<Rightarrow> limb_node \<Rightarrow> ctl_in \<Rightarrow> limb_setpoint list \<Rightarrow> bool \<Rightarrow> nat \<Rightarrow> 'w limb \<Rightarrow> 'w limb" where
  "joint_turn lib nd i sps can_act j l =
     (let cfg = PS_LIMB_JOINTS nd ! j;
          (saturated, l) = joint_output lib nd i (sps ! j) j l;
          e = s_enc l ! j;
          dq = joint_dq lib nd i j l;
          l = overcurrent_check lib (in_now i j) j (joint_i_mag lib nd i j l) (joint_limit nd j l) l
      in joint_state_publish j
           \<lparr> st_pos_crad = sat_i16 (lib_cu lib) (xmul (output_shaft cfg (angle_rad e)) (Fin 100)),
             st_vel_crad_s = sat_i16 (lib_cu lib) (xmul (output_shaft cfg (vel_rad_s e)) (Fin 100)),
             st_eff_cNm = sat_i16 (lib_cu lib) (xmul (xmul (xmul (dq_q dq) (kt_nm_per_a cfg)) (gear_ratio cfg)) (Fin 100)),
             st_saturated = saturated, st_passive = (sp_mode (sps ! j) = PS_JMODE_PASSIVE \<or> \<not> can_act) \<rparr> l)"

section \<open>The task\<close>

definition zero_snapshot :: limb_sensor_snapshot where
  "zero_snapshot =
     \<lparr> sn_quat = \<lparr> iq_qw = 0, iq_qx = 0, iq_qy = 0, iq_qz = 0 \<rparr>, sn_acc = \<lparr> ia_ax = 0, ia_ay = 0, ia_az = 0, ia_rsvd = 0 \<rparr>,
       sn_gyr = \<lparr> ig_gx = 0, ig_gy = 0, ig_gz = 0, ig_rsvd = 0 \<rparr>, sn_force = \<lparr> fo_ch0 = 0, fo_ch1 = 0, fo_ch2 = 0, fo_ch3 = 0 \<rparr>,
       imu_valid = False \<rparr>"

definition sample_imu ::
    "'w limb_lib \<Rightarrow> ctl_in \<Rightarrow> limb_sensor_snapshot \<Rightarrow> 'w limb \<Rightarrow> limb_sensor_snapshot \<times> 'w limb" where
  "sample_imu lib i snap l =
     (if \<not> s_imu_ok l then (snap, l)
      else case in_imu i of None \<Rightarrow> (snap, l)
      | Some ((ax, ay, az), (gx, gy, gz)) \<Rightarrow>
        let snap = snap\<lparr>imu_valid := True\<rparr>;
            m = ps_mahony_update (lib_sqrtf lib) (gx, gy, gz) (ax, ay, az) (xmul (Fin 4) CTRL_TICK_S) (s_mahony l);
            l = l\<lparr>s_mahony := m\<rparr>;
            q15 = ps_mahony_get_quat_q15 (lib_cu lib) m;
            sat = sat_i16 (lib_cu lib);
            snap = snap\<lparr>sn_quat := \<lparr> iq_qw = q15 ! 0, iq_qx = q15 ! 1, iq_qy = q15 ! 2, iq_qz = q15 ! 3 \<rparr>,
              sn_acc := \<lparr> ia_ax = sat (xmul ax (Fin 1000)), ia_ay = sat (xmul ay (Fin 1000)), ia_az = sat (xmul az (Fin 1000)), ia_rsvd = 0 \<rparr>,
              sn_gyr := \<lparr> ig_gx = sat (xmul gx RAD_S_TO_DDPS), ig_gy = sat (xmul gy RAD_S_TO_DDPS), ig_gz = sat (xmul gz RAD_S_TO_DDPS),
                          ig_rsvd = 0 \<rparr>\<rparr>
        in (snap, l))"

definition strain_reading :: "'w limb_lib \<Rightarrow> ctl_in \<Rightarrow> 'w limb \<Rightarrow> nat \<Rightarrow> i16" where
  "strain_reading lib i l c =
     (case in_adc i (4 + c) of None \<Rightarrow> 0
      | Some raw \<Rightarrow> sat_i16 (lib_cu lib) (xmul (xsub (xint raw) (s_strain_offset l ! c)) PS_STRAIN_CN_PER_COUNT))"

definition sample_sensors :: "'w limb_lib \<Rightarrow> ctl_in \<Rightarrow> 'w limb \<Rightarrow> 'w limb" where
  "sample_sensors lib i l =
     (let (snap, l) = sample_imu lib i zero_snapshot l;
          ch = strain_reading lib i l;
          snap = snap\<lparr>sn_force := \<lparr> fo_ch0 = ch 0, fo_ch1 = ch 1, fo_ch2 = ch 2, fo_ch3 = ch 3 \<rparr>\<rparr>
      in sensor_publish snap l)"

text \<open>The counters at the start of an iteration, the two joints, the sensors and the timing at its end.\<close>

definition turn_start :: "ctl_in \<Rightarrow> 'w limb \<Rightarrow> 'w limb" where
  "turn_start i l =
     (let l = (if in_pending i > 1 then l\<lparr>s_missed_ticks := s_missed_ticks l + (in_pending i - 1)\<rparr> else l);
          l = l\<lparr>ctl_tick := ctl_tick l + 1\<rparr>
      in l\<lparr>l_ctr := (l_ctr l)\<lparr>control_ticks := control_ticks (l_ctr l) + 1\<rparr>\<rparr>)"

definition turn_joints :: "'w limb_lib \<Rightarrow> limb_node \<Rightarrow> ctl_in \<Rightarrow> 'w limb \<Rightarrow> 'w limb" where
  "turn_joints lib nd i l =
     (let sps = s_setpoints l; can_act = ps_safety_can_actuate (l_safety l);
          l = joint_turn lib nd i sps can_act 0 l
      in joint_turn lib nd i sps can_act 1 l)"

definition turn_end :: "'w limb_lib \<Rightarrow> ctl_in \<Rightarrow> 'w limb \<Rightarrow> 'w limb" where
  "turn_end lib i l =
     (let l = (if ctl_tick l mod SENSOR_TICK_DIV = 0 then sample_sensors lib i l else l);
          l = (if in_exec_us i > s_max_exec_us l then l\<lparr>s_max_exec_us := in_exec_us i\<rparr> else l)
      in if ctl_tick l = 1 \<or> ctl_tick l mod 10000 = 0 then l\<lparr>s_stack_free_bytes := in_stack i\<rparr> else l)"

definition control_turn :: "'w limb_lib \<Rightarrow> limb_node \<Rightarrow> ctl_in \<Rightarrow> 'w limb \<Rightarrow> 'w limb" where
  "control_turn lib nd i l = turn_end lib i (turn_joints lib nd i (turn_start i l))"

text \<open>The state \<open>control_init_hw\<close> leaves, the drivers having come up. \<open>tare\<close>: the readings of the zero-load average.\<close>

definition strain_tare :: "(nat \<Rightarrow> int option list) \<Rightarrow> nat \<Rightarrow> xfloat" where
  "strain_tare tare c =
     xdiv (xint (foldl (\<lambda>sum r. case r of None \<Rightarrow> sum | Some raw \<Rightarrow> sum + raw) 0 (take 32 (tare c)))) (Fin 32)"

definition init_joint :: "limb_node \<Rightarrow> nat \<Rightarrow> 'w limb \<Rightarrow> 'w limb" where
  "init_joint nd j l =
     (let cfg = PS_LIMB_JOINTS nd ! j;
          il = current_limit cfg (torque_limit_cnm cfg)
      in l\<lparr>s_enc := (s_enc l)[j := \<lparr> last_raw = 0, have_last = False, angle_rad = Fin 0, vel_rad_s = Fin 0 \<rparr>],
           drive := (drive l)[j := Disabled],
           s_pos_pid := (s_pos_pid l)[j := ps_pid_init (cf_pos_kp cfg) (cf_pos_ki cfg) (cf_pos_kd cfg)
              (xneg (pos_vel_limit_rad_s cfg)) (pos_vel_limit_rad_s cfg) (s_pos_pid l ! j)],
           s_vel_pid := (s_vel_pid l)[j := ps_pid_init (cf_vel_kp cfg) (cf_vel_ki cfg) (cf_vel_kd cfg) (xneg il) il (s_vel_pid l ! j)],
           s_foc := (s_foc l)[j := ps_foc_ctl_init (cf_cur_kp cfg) (cf_cur_ki cfg) (xmul PS_LIMB_V_BUS_VOLTS (Fin (1 / 2))) (s_foc l ! j)],
           s_torque_limit_cnm := (s_torque_limit_cnm l)[j := torque_limit_cnm cfg]\<rparr>)"

definition control_init_hw :: "limb_node \<Rightarrow> bool \<Rightarrow> (nat \<Rightarrow> int option list) \<Rightarrow> 'w limb \<Rightarrow> 'w limb" where
  "control_init_hw nd imu_ok tare l =
     (let l = l\<lparr>s_imu_ok := imu_ok, s_mahony := ps_mahony_init (Fin (1 / 2)) (xround (1 / 100))\<rparr>;
          l = l\<lparr>s_strain_offset := map (strain_tare tare) [0, 1, 2, 3]\<rparr>
      in init_joint nd 1 (init_joint nd 0 l))"

section \<open>Encoders unwrap\<close>

text \<open>A shaft that turns by less than half a revolution between two samples: the difference of the 14-bit readings is its motion.\<close>

lemma enc_delta_exact:
  assumes "\<bar>y - x\<bar> < 8192"
  shows "enc_delta (of_int (y mod 16384)) (of_int (x mod 16384)) = y - x"
proof -
  have r: "uint (of_int (z mod 16384) :: u16) = z mod 16384" for z
    by (simp add: unsigned_of_int take_bit_int_eq_self)
  have "\<exists>k. y mod 16384 - x mod 16384 = y - x + 16384 * k"
    by (rule exI [of _ "x div 16384 - y div 16384"]) (simp add: minus_div_mult_eq_mod [symmetric] algebra_simps)
  then obtain k where k: "y mod 16384 - x mod 16384 = y - x + 16384 * k" ..
  have b: "0 \<le> x mod 16384" "x mod 16384 < 16384" "0 \<le> y mod 16384" "y mod 16384 < 16384" by simp_all
  have "k = - 1 \<or> k = 0 \<or> k = 1" using k b assms by linarith
  then show ?thesis using k b assms unfolding enc_delta_def r Let_def by auto
qed

section \<open>What a turn leaves alone\<close>

text \<open>The gate only closes during a turn: the safety service is as before, or was stopped by an overcurrent.\<close>

definition stop_only :: "'w safety_esp \<Rightarrow> 'w safety_esp \<Rightarrow> bool" where
  "stop_only s s' \<longleftrightarrow> s' = s \<or> started s \<and> started s' \<and> state (core s') = PS_STATE_ESTOP \<and> latched (core s')"

lemma stop_only_refl [simp]: "stop_only s s"
  by (simp add: stop_only_def)

lemma stop_only_trans: "stop_only s s' \<Longrightarrow> stop_only s' s'' \<Longrightarrow> stop_only s s''"
  by (auto simp: stop_only_def)

lemma stop_only_gate: "stop_only s s' \<Longrightarrow> ps_safety_can_actuate s' \<Longrightarrow> ps_safety_can_actuate s"
  by (auto simp: stop_only_def ps_safety_can_actuate_def)

lemma raise_estop_stops: "stop_only s (snd (ps_safety_raise_estop send t t' cause s))"
  using on_estop_latched [of "core s" t' cause]
  by (auto simp: stop_only_def ps_safety_raise_estop_def Let_def case_prod_unfold latched_def)

text \<open>The callback changes targets and controllers only.\<close>

lemma transition_fields [simp]:
  "l_safety (limb_safety_on_transition o' n c l) = l_safety l" "drive (limb_safety_on_transition o' n c l) = drive l"
  "s_oc_ticks (limb_safety_on_transition o' n c l) = s_oc_ticks l" "s_torque_limit_cnm (limb_safety_on_transition o' n c l) = s_torque_limit_cnm l"
  "s_enc (limb_safety_on_transition o' n c l) = s_enc l" "l_ctr (limb_safety_on_transition o' n c l) = l_ctr l"
  by (simp_all add: limb_safety_on_transition_def limb_setpoint_zero_all_def limb_control_reset_pids_def)

lemma calls_fields [simp]:
  "l_safety (on_core_transition limb_safety_on_transition s s' l) = l_safety l" "drive (on_core_transition limb_safety_on_transition s s' l) = drive l"
  "s_oc_ticks (on_core_transition limb_safety_on_transition s s' l) = s_oc_ticks l"
  "s_torque_limit_cnm (on_core_transition limb_safety_on_transition s s' l) = s_torque_limit_cnm l"
  "s_enc (on_core_transition limb_safety_on_transition s s' l) = s_enc l" "l_ctr (on_core_transition limb_safety_on_transition s s' l) = l_ctr l"
proof -
  have "l_safety (foldl (\<lambda>a (old, new, cause). limb_safety_on_transition old new cause a) l cs) = l_safety l \<and>
    drive (foldl (\<lambda>a (old, new, cause). limb_safety_on_transition old new cause a) l cs) = drive l \<and>
    s_oc_ticks (foldl (\<lambda>a (old, new, cause). limb_safety_on_transition old new cause a) l cs) = s_oc_ticks l \<and>
    s_torque_limit_cnm (foldl (\<lambda>a (old, new, cause). limb_safety_on_transition old new cause a) l cs) = s_torque_limit_cnm l \<and>
    s_enc (foldl (\<lambda>a (old, new, cause). limb_safety_on_transition old new cause a) l cs) = s_enc l \<and>
    l_ctr (foldl (\<lambda>a (old, new, cause). limb_safety_on_transition old new cause a) l cs) = l_ctr l" for cs
    by (induction cs arbitrary: l) auto
  then show
    "l_safety (on_core_transition limb_safety_on_transition s s' l) = l_safety l" "drive (on_core_transition limb_safety_on_transition s s' l) = drive l"
    "s_oc_ticks (on_core_transition limb_safety_on_transition s s' l) = s_oc_ticks l"
    "s_torque_limit_cnm (on_core_transition limb_safety_on_transition s s' l) = s_torque_limit_cnm l"
    "s_enc (on_core_transition limb_safety_on_transition s s' l) = s_enc l" "l_ctr (on_core_transition limb_safety_on_transition s s' l) = l_ctr l"
    unfolding on_core_transition_def by blast+
qed

lemma safety_op_fields [simp]:
  "l_safety (limb_safety_op h l) = h (l_safety l)" "drive (limb_safety_op h l) = drive l" "s_oc_ticks (limb_safety_op h l) = s_oc_ticks l"
  "s_torque_limit_cnm (limb_safety_op h l) = s_torque_limit_cnm l" "s_enc (limb_safety_op h l) = s_enc l" "l_ctr (limb_safety_op h l) = l_ctr l"
  by (simp_all add: limb_safety_op_def)

lemma overcurrent_fields [simp]:
  "drive (overcurrent_check lib now j m il l) = drive l" "s_torque_limit_cnm (overcurrent_check lib now j m il l) = s_torque_limit_cnm l"
  "stop_only (l_safety l) (l_safety (overcurrent_check lib now j m il l))"
  by (simp_all add: overcurrent_check_def Let_def raise_estop_stops)

interpretation limb_stop: safe_on_stop limb_safety_on_transition "\<lambda>l. s_setpoints l = replicate 2 zero_setpoint"
  by unfold_locales (auto simp: limb_safety_on_transition_def limb_setpoint_zero_all_def limb_control_reset_pids_def)

section \<open>The parts of a joint's turn\<close>

lemma joint_control_fields [simp]:
  "l_safety (snd (joint_control lib nd i sp j l)) = l_safety l" "drive (snd (joint_control lib nd i sp j l)) = drive l"
  "s_oc_ticks (snd (joint_control lib nd i sp j l)) = s_oc_ticks l" "s_setpoints (snd (joint_control lib nd i sp j l)) = s_setpoints l"
  "s_torque_limit_cnm (snd (joint_control lib nd i sp j l)) = s_torque_limit_cnm l" "l_ctr (snd (joint_control lib nd i sp j l)) = l_ctr l"
  by (simp_all add: joint_control_def Let_def case_prod_unfold)

lemma joint_write_fields [simp]:
  "l_safety (joint_write j en d v l) = l_safety l" "s_oc_ticks (joint_write j en d v l) = s_oc_ticks l"
  "s_setpoints (joint_write j en d v l) = s_setpoints l" "s_torque_limit_cnm (joint_write j en d v l) = s_torque_limit_cnm l"
  "s_enc (joint_write j en d v l) = s_enc l" "l_ctr (joint_write j en d v l) = l_ctr l"
  by (simp_all add: joint_write_def)

lemma joint_publish_fields [simp]:
  "l_safety (joint_state_publish j st l) = l_safety l" "drive (joint_state_publish j st l) = drive l"
  "s_oc_ticks (joint_state_publish j st l) = s_oc_ticks l" "s_setpoints (joint_state_publish j st l) = s_setpoints l"
  "s_torque_limit_cnm (joint_state_publish j st l) = s_torque_limit_cnm l" "l_ctr (joint_state_publish j st l) = l_ctr l"
  by (simp_all add: joint_state_publish_def)

lemma joint_output_fields [simp]:
  "l_safety (snd (joint_output lib nd i sp j l)) = l_safety l" "s_oc_ticks (snd (joint_output lib nd i sp j l)) = s_oc_ticks l"
  "s_setpoints (snd (joint_output lib nd i sp j l)) = s_setpoints l" "s_torque_limit_cnm (snd (joint_output lib nd i sp j l)) = s_torque_limit_cnm l"
  "l_ctr (snd (joint_output lib nd i sp j l)) = l_ctr l"
  by (simp_all add: joint_output_def Let_def case_prod_unfold)

text \<open>The check a turn of joint \<open>j\<close> from \<open>l\<close> makes.\<close>

definition turn_check :: "'w limb_lib \<Rightarrow> limb_node \<Rightarrow> ctl_in \<Rightarrow> limb_setpoint list \<Rightarrow> nat \<Rightarrow> 'w limb \<Rightarrow> 'w limb" where
  "turn_check lib nd i sps j l =
     (let l = snd (joint_output lib nd i (sps ! j) j l)
      in overcurrent_check lib (in_now i j) j (joint_i_mag lib nd i j l) (joint_limit nd j l) l)"

lemma joint_turn_check: "\<exists>st. joint_turn lib nd i sps can_act j l = joint_state_publish j st (turn_check lib nd i sps j l)"
  unfolding joint_turn_def turn_check_def Let_def case_prod_unfold by blast

lemma joint_turn_fields [simp]:
  "drive (joint_turn lib nd i sps can_act j l) = drive (snd (joint_output lib nd i (sps ! j) j l))"
  "l_safety (joint_turn lib nd i sps can_act j l) = l_safety (turn_check lib nd i sps j l)"
  "s_setpoints (joint_turn lib nd i sps can_act j l) = s_setpoints (turn_check lib nd i sps j l)"
  "s_oc_ticks (joint_turn lib nd i sps can_act j l) = s_oc_ticks (turn_check lib nd i sps j l)"
  "s_torque_limit_cnm (joint_turn lib nd i sps can_act j l) = s_torque_limit_cnm l"
  using joint_turn_check [of lib nd i sps can_act j l] by (auto simp: turn_check_def Let_def)

lemma turn_check_stop_only: "stop_only (l_safety l) (l_safety (turn_check lib nd i sps j l))"
  using overcurrent_fields(3) [of "snd (joint_output lib nd i (sps ! j) j l)"] by (simp add: turn_check_def Let_def)

text \<open>What a write leaves on the output stage.\<close>

lemma joint_write_drive:
  assumes "j < length (drive l)"
  shows "k \<noteq> j \<Longrightarrow> drive (joint_write j en d v l) ! k = drive l ! k"
    "drive (joint_write j en d v l) ! j = Duty x \<longleftrightarrow> en \<and> ps_safety_can_actuate (l_safety l) \<and> x = d"
    "length (drive (joint_write j en d v l)) = length (drive l)"
  using assms by (auto simp: joint_write_def)

lemma sample_imu_state: "\<exists>m. snd (sample_imu lib i snap l) = l\<lparr>s_mahony := m\<rparr>"
proof (cases "s_imu_ok l \<and> in_imu i \<noteq> None")
  case True
  then obtain ax ay az gx gy gz where "in_imu i = Some ((ax, ay, az), (gx, gy, gz))" by auto
  then show ?thesis using True by (auto simp: sample_imu_def Let_def)
next
  case False
  then have "snd (sample_imu lib i snap l) = l" by (cases "s_imu_ok l"; cases "in_imu i") (simp_all add: sample_imu_def)
  then show ?thesis by (intro exI [of _ "s_mahony l"]) simp
qed

lemma sample_sensors_state: "\<exists>m snap. sample_sensors lib i l = l\<lparr>s_mahony := m, s_sensors := snap\<rparr>"
proof -
  obtain m where "snd (sample_imu lib i zero_snapshot l) = l\<lparr>s_mahony := m\<rparr>" using sample_imu_state by blast
  then show ?thesis by (auto simp: sample_sensors_def sensor_publish_def Let_def case_prod_unfold)
qed

lemma sensors_fields [simp]:
  "l_safety (sample_sensors lib i l) = l_safety l" "drive (sample_sensors lib i l) = drive l"
  "s_oc_ticks (sample_sensors lib i l) = s_oc_ticks l" "s_setpoints (sample_sensors lib i l) = s_setpoints l"
  "s_torque_limit_cnm (sample_sensors lib i l) = s_torque_limit_cnm l" "s_enc (sample_sensors lib i l) = s_enc l"
  using sample_sensors_state [of lib i l] by auto

lemma turn_start_fields [simp]:
  "l_safety (turn_start i l) = l_safety l" "drive (turn_start i l) = drive l" "s_oc_ticks (turn_start i l) = s_oc_ticks l"
  "s_setpoints (turn_start i l) = s_setpoints l" "s_torque_limit_cnm (turn_start i l) = s_torque_limit_cnm l" "s_enc (turn_start i l) = s_enc l"
  "s_pos_pid (turn_start i l) = s_pos_pid l" "s_vel_pid (turn_start i l) = s_vel_pid l" "s_foc (turn_start i l) = s_foc l"
  by (simp_all add: turn_start_def Let_def)

lemma turn_end_fields [simp]:
  "l_safety (turn_end lib i l) = l_safety l" "drive (turn_end lib i l) = drive l" "s_oc_ticks (turn_end lib i l) = s_oc_ticks l"
  "s_setpoints (turn_end lib i l) = s_setpoints l" "s_torque_limit_cnm (turn_end lib i l) = s_torque_limit_cnm l" "s_enc (turn_end lib i l) = s_enc l"
  by (simp_all add: turn_end_def Let_def)

section \<open>The gate over a turn\<close>

lemma joint_output_drive:
  assumes "j < length (drive l)"
  shows "k \<noteq> j \<Longrightarrow> drive (snd (joint_output lib nd i sp j l)) ! k = drive l ! k"
    "drive (snd (joint_output lib nd i sp j l)) ! j = Duty d \<longleftrightarrow>
       sp_mode sp \<noteq> PS_JMODE_PASSIVE \<and> ps_safety_can_actuate (l_safety l) \<and> d = fst (fst (joint_control lib nd i sp j l))"
    "length (drive (snd (joint_output lib nd i sp j l))) = length (drive l)"
  using joint_write_drive [of j "snd (joint_control lib nd i sp j l)"] assms
  by (simp_all add: joint_output_def Let_def case_prod_unfold)

text \<open>Joint 0 first; joint 1 runs on the state it leaves.\<close>

definition after0 :: "'w limb_lib \<Rightarrow> limb_node \<Rightarrow> ctl_in \<Rightarrow> 'w limb \<Rightarrow> 'w limb" where
  "after0 lib nd i l = joint_turn lib nd i (s_setpoints l) (ps_safety_can_actuate (l_safety l)) 0 (turn_start i l)"

lemma turn_eq: "control_turn lib nd i l =
    turn_end lib i (joint_turn lib nd i (s_setpoints l) (ps_safety_can_actuate (l_safety l)) 1 (after0 lib nd i l))"
  by (simp add: control_turn_def turn_joints_def after0_def Let_def)

lemma after0_fields:
  "drive (after0 lib nd i l) = drive (snd (joint_output lib nd i (s_setpoints l ! 0) 0 (turn_start i l)))"
  "stop_only (l_safety l) (l_safety (after0 lib nd i l))" "s_torque_limit_cnm (after0 lib nd i l) = s_torque_limit_cnm l"
  using turn_check_stop_only [of "turn_start i l"] by (simp_all add: after0_def)

lemma turn_drive:
  assumes "length (drive l) = 2"
  shows "drive (control_turn lib nd i l) ! 0 = Duty d \<Longrightarrow> sp_mode (s_setpoints l ! 0) \<noteq> PS_JMODE_PASSIVE \<and> ps_safety_can_actuate (l_safety l)"
    and "drive (control_turn lib nd i l) ! 1 = Duty d \<Longrightarrow>
      sp_mode (s_setpoints l ! 1) \<noteq> PS_JMODE_PASSIVE \<and> ps_safety_can_actuate (l_safety (after0 lib nd i l))"
    and "drive (control_turn lib nd i l) ! 0 = drive (snd (joint_output lib nd i (s_setpoints l ! 0) 0 (turn_start i l))) ! 0"
    and "length (drive (control_turn lib nd i l)) = 2"
proof -
  have n: "length (drive (after0 lib nd i l)) = 2" using assms by (simp add: after0_fields(1) joint_output_drive(3))
  show g: "drive (control_turn lib nd i l) ! 0 = drive (snd (joint_output lib nd i (s_setpoints l ! 0) 0 (turn_start i l))) ! 0"
    using joint_output_drive(1) [of 1 "after0 lib nd i l" 0] n by (simp add: turn_eq after0_fields(1))
  show "length (drive (control_turn lib nd i l)) = 2" using n by (simp add: turn_eq joint_output_drive(3))
  show "drive (control_turn lib nd i l) ! 0 = Duty d \<Longrightarrow> sp_mode (s_setpoints l ! 0) \<noteq> PS_JMODE_PASSIVE \<and> ps_safety_can_actuate (l_safety l)"
    using joint_output_drive(2) [of 0 "turn_start i l"] assms unfolding g by simp
  show "drive (control_turn lib nd i l) ! 1 = Duty d \<Longrightarrow>
      sp_mode (s_setpoints l ! 1) \<noteq> PS_JMODE_PASSIVE \<and> ps_safety_can_actuate (l_safety (after0 lib nd i l))"
    using joint_output_drive(2) [of 1 "after0 lib nd i l"] n by (simp add: turn_eq)
qed

lemma turn_gated:
  assumes "length (drive l) = 2" "j < 2" "\<not> ps_safety_can_actuate (l_safety l) \<or> sp_mode (s_setpoints l ! j) = PS_JMODE_PASSIVE"
  shows "drive (control_turn lib nd i l) ! j \<in> {Brake, Disabled}"
proof -
  have "drive (control_turn lib nd i l) ! j \<noteq> Duty d" for d
    using turn_drive(1,2) [OF assms(1), of lib nd i d] stop_only_gate [OF after0_fields(2) [of l lib nd i]] assms(2,3)
    by (auto simp: less_2_cases_iff)
  then show ?thesis by (cases "drive (control_turn lib nd i l) ! j") auto
qed

section \<open>Overcurrent\<close>

text \<open>The measured current of joint \<open>j\<close> is above its limit in a turn of that joint from \<open>l\<close>.\<close>

definition over :: "'w limb_lib \<Rightarrow> limb_node \<Rightarrow> ctl_in \<Rightarrow> limb_setpoint list \<Rightarrow> nat \<Rightarrow> 'w limb \<Rightarrow> bool" where
  "over lib nd i sps j l =
     (let l = snd (joint_output lib nd i (sps ! j) j l) in xlt (joint_limit nd j l) (joint_i_mag lib nd i j l))"

lemma check_counts:
  assumes "over lib nd i sps j l" "j < length (s_oc_ticks l)" "s_oc_ticks l ! j < 5"
  shows "s_oc_ticks (turn_check lib nd i sps j l) = (s_oc_ticks l)[j := s_oc_ticks l ! j + 1]"
proof -
  have "unat (s_oc_ticks l ! j) < 5" using assms(3) by (simp add: word_less_nat_alt)
  then have "\<not> 5 < s_oc_ticks l ! j + 1" by (simp add: word_less_nat_alt unat_word_ariths)
  then show ?thesis using assms by (simp add: turn_check_def over_def overcurrent_check_def Let_def)
qed

lemma check_trips:
  assumes "over lib nd i sps j l" "j < length (s_oc_ticks l)" "s_oc_ticks l ! j = 5" "started (l_safety l)"
  shows "latched (core (l_safety (turn_check lib nd i sps j l)))" "started (l_safety (turn_check lib nd i sps j l))"
    "s_oc_ticks (turn_check lib nd i sps j l) = (s_oc_ticks l)[j := 0]"
proof -
  let ?l = "snd (joint_output lib nd i (sps ! j) j l)"
  have "latched (core (snd (ps_safety_raise_estop send t t' cause s)))" "started (snd (ps_safety_raise_estop send t t' cause s))"
    if "started s" for send t t' cause and s :: "'a safety_esp"
    using that on_estop_latched by (simp_all add: ps_safety_raise_estop_def Let_def case_prod_unfold)
  then show "latched (core (l_safety (turn_check lib nd i sps j l)))" "started (l_safety (turn_check lib nd i sps j l))"
    "s_oc_ticks (turn_check lib nd i sps j l) = (s_oc_ticks l)[j := 0]"
    using assms by (simp_all add: turn_check_def over_def overcurrent_check_def Let_def)
qed

lemma check_other: "k \<noteq> j \<Longrightarrow> s_oc_ticks (turn_check lib nd i sps j l) ! k = s_oc_ticks l ! k"
  "length (s_oc_ticks (turn_check lib nd i sps j l)) = length (s_oc_ticks l)"
  by (simp_all add: turn_check_def overcurrent_check_def Let_def)

text \<open>In a turn of the task, the state joint \<open>j\<close> starts from.\<close>

definition joint_entry :: "'w limb_lib \<Rightarrow> limb_node \<Rightarrow> ctl_in \<Rightarrow> nat \<Rightarrow> 'w limb \<Rightarrow> 'w limb" where
  "joint_entry lib nd i j l = (if j = 0 then turn_start i l else after0 lib nd i l)"

definition overcurrent :: "'w limb_lib \<Rightarrow> limb_node \<Rightarrow> ctl_in \<Rightarrow> nat \<Rightarrow> 'w limb \<Rightarrow> bool" where
  "overcurrent lib nd i j l = over lib nd i (s_setpoints l) j (joint_entry lib nd i j l)"

lemma turn_oc:
  assumes "j < 2"
  shows "s_oc_ticks (joint_entry lib nd i j l) ! j = s_oc_ticks l ! j"
    "length (s_oc_ticks (joint_entry lib nd i j l)) = length (s_oc_ticks l)"
    "s_oc_ticks (control_turn lib nd i l) ! j = s_oc_ticks (turn_check lib nd i (s_setpoints l) j (joint_entry lib nd i j l)) ! j"
    "length (s_oc_ticks (control_turn lib nd i l)) = length (s_oc_ticks l)"
    "stop_only (l_safety l) (l_safety (joint_entry lib nd i j l))"
    "stop_only (l_safety (turn_check lib nd i (s_setpoints l) j (joint_entry lib nd i j l))) (l_safety (control_turn lib nd i l))"
  using assms turn_check_stop_only [of "turn_start i l"] turn_check_stop_only [of "after0 lib nd i l"]
  by (auto simp: joint_entry_def turn_eq after0_def check_other less_2_cases_iff)

definition turns :: "'w limb_lib \<Rightarrow> limb_node \<Rightarrow> ctl_in list \<Rightarrow> 'w limb \<Rightarrow> 'w limb" where
  "turns lib nd is l = foldl (\<lambda>l i. control_turn lib nd i l) l is"

lemma turns_simps [simp]: "turns lib nd [] l = l" "turns lib nd (is @ [i]) l = control_turn lib nd i (turns lib nd is l)"
  by (simp_all add: turns_def)

lemma turns_count:
  assumes "j < 2" "length (s_oc_ticks l) = 2" "s_oc_ticks l ! j = 0" "length is \<le> 5"
    and "\<And>k. k < length is \<Longrightarrow> overcurrent lib nd (is ! k) j (turns lib nd (take k is) l)"
  shows "s_oc_ticks (turns lib nd is l) ! j = of_nat (length is) \<and> length (s_oc_ticks (turns lib nd is l)) = 2"
  using assms(4,5)
proof (induction "is" rule: rev_induct)
  case (snoc i "is")
  let ?l = "turns lib nd is l"
  have "overcurrent lib nd (is ! k) j (turns lib nd (take k is) l)" if "k < length is" for k
    using snoc.prems(2) [of k] that by (simp add: nth_append)
  then have ih: "s_oc_ticks ?l ! j = of_nat (length is)" "length (s_oc_ticks ?l) = 2" using snoc.IH snoc.prems(1) by simp_all
  have o: "overcurrent lib nd i j ?l" using snoc.prems(2) [of "length is"] by simp
  have lt: "s_oc_ticks ?l ! j < 5" using snoc.prems(1) unfolding ih(1) by (simp add: word_less_nat_alt unat_of_nat)
  note c = check_counts [OF o [unfolded overcurrent_def]]
  show ?case using c turn_oc [OF assms(1), where lib = lib and nd = nd and i = i and l = ?l] ih lt assms(1) by simp
qed (use assms in simp)

lemma turns_trip:
  assumes "j < 2" "length (s_oc_ticks l) = 2" "s_oc_ticks l ! j = 0" "length is = 6" "started (l_safety l)"
    and "\<And>k. k < 6 \<Longrightarrow> overcurrent lib nd (is ! k) j (turns lib nd (take k is) l)"
  shows "latched (core (l_safety (turns lib nd is l)))" "started (l_safety (turns lib nd is l))"
proof -
  obtain is' i where i: "is = is' @ [i]" "length is' = 5" using assms(4) by (cases "is" rule: rev_exhaust) auto
  let ?l = "turns lib nd is' l"
  have "overcurrent lib nd (is' ! k) j (turns lib nd (take k is') l)" if "k < length is'" for k
    using assms(6) [of k] that i by (simp add: nth_append)
  then have c: "s_oc_ticks ?l ! j = 5" "length (s_oc_ticks ?l) = 2"
    using turns_count [OF assms(1-3), of is' lib nd] i(2) by simp_all
  have "started (l_safety (turns lib nd xs l))" for xs
  proof (induction xs rule: rev_induct)
    case (snoc x xs)
    have "stop_only (l_safety (turns lib nd xs l)) (l_safety (control_turn lib nd x (turns lib nd xs l)))"
      using turn_oc(5,6) [OF assms(1), where l = "turns lib nd xs l" and lib = lib and nd = nd and i = x] turn_check_stop_only stop_only_trans by metis
    then show ?case using snoc by (auto simp: stop_only_def)
  qed (use assms(5) in simp)
  then have st: "started (l_safety ?l)" "started (l_safety (turns lib nd is l))" by blast+
  note oc = turn_oc [OF assms(1), where l = ?l and lib = lib and nd = nd and i = i]
  have "started (l_safety (joint_entry lib nd i j ?l))" using oc(5) st(1) by (auto simp: stop_only_def)
  moreover have "over lib nd i (s_setpoints ?l) j (joint_entry lib nd i j ?l)"
    using assms(6) [of 5] i by (simp add: overcurrent_def nth_append)
  ultimately have "latched (core (l_safety (turn_check lib nd i (s_setpoints ?l) j (joint_entry lib nd i j ?l))))"
    using check_trips(1) oc(1,2) c assms(1) by metis
  then show "latched (core (l_safety (turns lib nd is l)))" using oc(6) i(1) by (auto simp: stop_only_def)
  show "started (l_safety (turns lib nd is l))" by (rule st(2))
qed

section \<open>The torque ceiling\<close>

lemma xdiv_mono: "xle x y \<Longrightarrow> 0 < g \<Longrightarrow> xle (xdiv x (Fin g)) (xdiv y (Fin g))"
proof (cases x; cases y)
  fix a b assume "xle x y" "0 < g" "x = Fin a" "y = Fin b"
  then show ?thesis by (simp add: xround_mono divide_right_mono)
qed (auto simp: xle_def xround_def Let_def)

lemma gear_positive:
  assumes "1 \<le> G" "G \<le> 16" "1 / 16 \<le> k" "k \<le> 1"
  shows "\<exists>g>0. xmul (Fin G) (xround k) = Fin g"
proof -
  have half: "f32 (1 / 16) = 1 / 16" using f32_exact [of 1 "- 4"] by (simp add: power_int_minus)
  have one: "f32 1 = 1" using f32_pow2 [of 0] by simp
  have "1 / 16 \<le> f32 k" "f32 k \<le> 1" using f32_mono [OF assms(3)] f32_mono [OF assms(4)] half one by simp_all
  then have k: "xround k = Fin (f32 k)" "1 / 16 \<le> f32 k" "f32 k \<le> 1" by (simp_all add: xround_def)
  have "1 * (1 / 16) \<le> G * f32 k" "G * f32 k \<le> 16 * 1" using assms(1,2) k by (intro mult_mono; simp)+
  then have "1 / 16 \<le> f32 (G * f32 k)" "f32 (G * f32 k) \<le> 16"
    using f32_mono [of "1 / 16" "G * f32 k"] f32_mono [of "G * f32 k" 16] half f32_pow2 [of 4] by simp_all
  then have "xround (G * f32 k) = Fin (f32 (G * f32 k))" "0 < f32 (G * f32 k)" by (simp_all add: xround_def)
  then show ?thesis unfolding k(1) by auto
qed

lemma joints_length [simp]: "length (PS_LIMB_JOINTS nd) = 2"
  by (cases nd) (simp_all add: PS_LIMB_JOINTS_def)

lemma joint_gear: "j < 2 \<Longrightarrow> \<exists>g>0. xmul (gear_ratio (PS_LIMB_JOINTS nd ! j)) (kt_nm_per_a (PS_LIMB_JOINTS nd ! j)) = Fin g"
  by (cases nd; auto simp: less_2_cases_iff PS_LIMB_JOINTS_def joint_row0_def joint_row1_def intro!: gear_positive)

lemma current_limit_mono:
  assumes "j < 2" "s \<le> t"
  shows "xle (current_limit (PS_LIMB_JOINTS nd ! j) s) (current_limit (PS_LIMB_JOINTS nd ! j) t)"
proof -
  obtain g where "0 < g" "xmul (gear_ratio (PS_LIMB_JOINTS nd ! j)) (kt_nm_per_a (PS_LIMB_JOINTS nd ! j)) = Fin g"
    using joint_gear [OF assms(1)] by blast
  then show ?thesis using assms(2) by (auto simp: current_limit_def xint_def intro!: xdiv_mono xround_mono)
qed

text \<open>What the current loop is asked for, unless it is NaN, is within the limit of the board's torque ceiling.\<close>

lemma xle_xneg: "xle x y \<Longrightarrow> xle (xneg y) (xneg x)"
  by (cases x; cases y) (auto simp: xle_def)

lemma clamp_iq_ceiling:
  assumes "j < 2" "0 \<le> t" "t \<le> board" "iq \<noteq> NaN"
  shows "xle (xneg (current_limit (PS_LIMB_JOINTS nd ! j) t)) (fst (clamp_iq (current_limit (PS_LIMB_JOINTS nd ! j) t) iq))"
    "xle (fst (clamp_iq (current_limit (PS_LIMB_JOINTS nd ! j) t) iq)) (current_limit (PS_LIMB_JOINTS nd ! j) t)"
    "xle (xneg (current_limit (PS_LIMB_JOINTS nd ! j) board)) (fst (clamp_iq (current_limit (PS_LIMB_JOINTS nd ! j) t) iq))"
    "xle (fst (clamp_iq (current_limit (PS_LIMB_JOINTS nd ! j) t) iq)) (current_limit (PS_LIMB_JOINTS nd ! j) board)"
proof -
  let ?L = "current_limit (PS_LIMB_JOINTS nd ! j)"
  have tb: "xle (?L t) (?L board)" "xle (xneg (?L board)) (xneg (?L t))"
    using current_limit_mono [OF assms(1,3)] xle_xneg by auto
  have "xle (?L 0) (?L t)" using current_limit_mono [OF assms(1,2)] .
  moreover have "?L 0 = Fin 0" using joint_gear [OF assms(1), of nd] by (auto simp: current_limit_def xint_def xround_Fin)
  ultimately have p: "xle (xneg (?L t)) (?L t)" by (cases "?L t") (auto simp: xle_def)
  have "fst (clamp_iq (?L t) iq) = xclamp (xneg (?L t)) (?L t) iq" by (simp add: clamp_iq_def xclamp_def)
  then show "xle (xneg (?L t)) (fst (clamp_iq (?L t) iq))" "xle (fst (clamp_iq (?L t) iq)) (?L t)"
    "xle (xneg (?L board)) (fst (clamp_iq (?L t) iq))" "xle (fst (clamp_iq (?L t) iq)) (?L board)"
    using xclamp_range [OF p assms(4)] tb xle_trans by (metis (no_types))+
qed

text \<open>The duties of the current loop of joint \<open>j\<close> when it is asked for the current \<open>iq\<close>: its measured currents, its rotor angle and its
  controllers as they are at the start of the turn.\<close>

definition current_loop :: "'w limb_lib \<Rightarrow> limb_node \<Rightarrow> ctl_in \<Rightarrow> nat \<Rightarrow> 'w limb \<Rightarrow> xfloat \<Rightarrow> xfloat list" where
  "current_loop lib nd i j l iq =
     fst (ps_foc_ctl_step (lib_trig lib)
       \<lparr> in_ia = fst (joint_amps nd i j), in_ib = snd (joint_amps nd i j),
         in_theta = encoder_electrical_theta (last_raw (encoder_update (in_enc i j) CTRL_TICK_S (s_enc l ! j))) (pole_pairs (PS_LIMB_JOINTS nd ! j)),
         in_id = Fin 0, in_iq = iq, in_v_bus = PS_LIMB_V_BUS_VOLTS, in_dt = CTRL_TICK_S \<rparr> (s_foc l ! j))"

lemma control_duty:
  assumes "j < length (s_enc l)"
  shows "\<exists>iq0. fst (fst (joint_control lib nd i sp j l)) = current_loop lib nd i j l (fst (clamp_iq (joint_limit nd j l) iq0))"
  using assms by (auto simp: joint_control_def current_loop_def joint_limit_def Let_def case_prod_unfold)

text \<open>The turn of the first joint leaves the loop of the second alone, unless it stops the node.\<close>

lemma check_keeps_loops:
  assumes "ps_safety_can_actuate (l_safety (overcurrent_check lib now j m il x))"
  shows "s_foc (overcurrent_check lib now j m il x) = s_foc x" "s_enc (overcurrent_check lib now j m il x) = s_enc x"
proof -
  have "\<not> ps_safety_can_actuate (snd (ps_safety_raise_estop send t t' cause s))" for send t t' cause and s :: "'a safety_esp"
    using stop_only_gate raise_estop_stops [of s send t t' cause]
    by (auto simp: ps_safety_can_actuate_def ps_safety_raise_estop_def Let_def case_prod_unfold core_defs split: if_splits)
  then have "\<not> (xlt il m \<and> (s_oc_ticks x)[j := s_oc_ticks x ! j + 1] ! j > OVERCURRENT_TRIP_TICKS)"
    using assms by (auto simp: overcurrent_check_def Let_def)
  then show "s_foc (overcurrent_check lib now j m il x) = s_foc x" "s_enc (overcurrent_check lib now j m il x) = s_enc x"
    by (auto simp: overcurrent_check_def Let_def)
qed

lemma turn0_other_joint:
  assumes "ps_safety_can_actuate (l_safety (after0 lib nd i l))"
  shows "s_foc (after0 lib nd i l) ! 1 = s_foc l ! 1" "s_enc (after0 lib nd i l) ! 1 = s_enc l ! 1"
    "length (s_enc (after0 lib nd i l)) = length (s_enc l)"
proof -
  let ?x = "snd (joint_output lib nd i (s_setpoints l ! 0) 0 (turn_start i l))"
  let ?c = "turn_check lib nd i (s_setpoints l) 0 (turn_start i l)"
  obtain st where a: "after0 lib nd i l = joint_state_publish 0 st ?c" unfolding after0_def using joint_turn_check by blast
  have "ps_safety_can_actuate (l_safety ?c)" using assms by (simp add: a)
  note k = check_keeps_loops [OF this [unfolded turn_check_def Let_def]]
  have "s_foc (after0 lib nd i l) = s_foc ?x" "s_enc (after0 lib nd i l) = s_enc ?x"
    by (simp_all add: a joint_state_publish_def turn_check_def Let_def k)
  then show "s_foc (after0 lib nd i l) ! 1 = s_foc l ! 1" "s_enc (after0 lib nd i l) ! 1 = s_enc l ! 1"
    "length (s_enc (after0 lib nd i l)) = length (s_enc l)"
    by (simp_all add: joint_output_def joint_control_def joint_write_def Let_def case_prod_unfold)
qed

text \<open>A joint that is driven is driven by the current loop at a clamped current.\<close>

lemma driven_duty:
  assumes "length (drive l) = 2" "length (s_enc l) = 2" "j < 2" "drive (control_turn lib nd i l) ! j = Duty d"
  shows "\<exists>iq0. d = current_loop lib nd i j l (fst (clamp_iq (joint_limit nd j l) iq0))"
proof (cases "j = 0")
  case True
  have "d = fst (fst (joint_control lib nd i (s_setpoints l ! 0) 0 (turn_start i l)))"
    using assms(1,4) True joint_output_drive(2) [of 0 "turn_start i l" lib nd i "s_setpoints l ! 0" d] turn_drive(3) [OF assms(1), of lib nd i] by simp
  then show ?thesis using True control_duty [of 0 "turn_start i l" lib nd i "s_setpoints l ! 0"] assms(2)
    by (simp add: current_loop_def joint_limit_def)
next
  case False
  then have j: "j = 1" using assms(3) by simp
  let ?l = "after0 lib nd i l"
  have n: "length (drive ?l) = 2" using assms(1) by (simp add: after0_fields(1) joint_output_drive(3))
  have "drive (snd (joint_output lib nd i (s_setpoints l ! 1) 1 ?l)) ! 1 = Duty d" using assms(4) by (simp add: turn_eq j)
  then have "d = fst (fst (joint_control lib nd i (s_setpoints l ! 1) 1 ?l))" using joint_output_drive(2) [of 1 ?l lib nd i "s_setpoints l ! 1" d] n by simp
  moreover have "ps_safety_can_actuate (l_safety ?l)" using turn_drive(2) [OF assms(1)] assms(4) j by blast
  ultimately show ?thesis using j control_duty [of 1 ?l lib nd i "s_setpoints l ! 1"] assms(2) turn0_other_joint [of lib nd i l]
    by (simp add: current_loop_def joint_limit_def after0_fields(3))
qed

section \<open>NaN gains\<close>

lemma control_nan:
  assumes "sp_mode sp = PS_JMODE_POSITION" "pid_kp (s_pos_pid l ! j) = NaN"
  shows "fst (fst (joint_control lib nd i sp j l)) = [NaN, NaN, NaN]"
proof -
  have "fst (joint_cascade cfg sp op ov (s_pos_pid l ! j) vp) = NaN" for cfg op ov vp
    using assms by (simp add: joint_cascade_def Let_def case_prod_unfold pid_nan_in)
  moreover have "fst (clamp_iq il NaN) = NaN" for il by (simp add: clamp_iq_def)
  ultimately show ?thesis by (simp add: joint_control_def Let_def case_prod_unfold foc_nan)
qed

section \<open>Properties\<close>

text \<open>Claim C18. The actuation gate of a limb: in a turn of the 1 kHz task, a joint whose setpoint is PASSIVE, and every joint when the safety
  service does not permit actuation, ends with its output stage disabled or braking, whatever was commanded and measured. The
  gate is read at each write: when the first joint's overcurrent stops the node, the second joint is not driven in that turn either.\<close>

theorem limb_gate:
  assumes "length (drive l) = 2"
  shows "(\<forall>j<2. \<not> ps_safety_can_actuate (l_safety l) \<or> sp_mode (s_setpoints l ! j) = PS_JMODE_PASSIVE \<longrightarrow>
      drive (control_turn lib nd i l) ! j \<in> {Brake, Disabled}) \<and>
    (latched (core (l_safety (after0 lib nd i l))) \<longrightarrow> drive (control_turn lib nd i l) ! 1 \<in> {Brake, Disabled})"
proof -
  have "latched (core (l_safety (after0 lib nd i l))) \<Longrightarrow> drive (control_turn lib nd i l) ! 1 \<in> {Brake, Disabled}"
    using turn_drive(2) [OF assms, of lib nd i]
    by (cases "drive (control_turn lib nd i l) ! 1") (auto simp: latched_def ps_safety_can_actuate_def)
  then show ?thesis using turn_gated [OF assms] by blast
qed

text \<open>Claim C19. Sustained overcurrent stops the node: when the measured current of a joint is above its limit in six turns in a row (the
  counter must exceed five), the node is latched in ESTOP by the end of the sixth turn, and in every further turn while it is latched neither joint is driven.\<close>

theorem limb_overcurrent_trips:
  assumes "j < 2" "length (s_oc_ticks l) = 2" "length (drive l) = 2" "s_oc_ticks l ! j = 0" "length is = 6" "started (l_safety l)"
    and "\<forall>k<6. overcurrent lib nd (is ! k) j (turns lib nd (take k is) l)"
  shows "latched (core (l_safety (turns lib nd is l))) \<and>
    (\<forall>k<2. drive (control_turn lib nd i (turns lib nd is l)) ! k \<in> {Brake, Disabled})"
proof -
  have t: "latched (core (l_safety (turns lib nd is l)))" using turns_trip [OF assms(1,2,4-6)] assms(7) by blast
  have "length (drive (turns lib nd xs l)) = 2" for xs
    by (induction xs rule: rev_induct) (simp_all add: assms(3) turn_drive(4))
  moreover have "\<not> ps_safety_can_actuate (l_safety (turns lib nd is l))" using t by (auto simp: latched_def ps_safety_can_actuate_def)
  ultimately have "drive (control_turn lib nd i (turns lib nd is l)) ! k \<in> {Brake, Disabled}" if "k < 2" for k
    using that by (intro turn_gated) auto
  with t show ?thesis by blast
qed

text \<open>A gain that is not a number passes every limit: the parameter service accepts NaN for the position gain of a joint, and in
  the next turn of an operational node with that joint in position mode the output stage is handed three NaN duties; neither the
  current clamp nor the duty clamp stops them.\<close>

lemma limb_nan_gain_reaches_driver:
  assumes "length (drive l) = 2" "length (s_pos_pid l) = 2" "ps_safety_can_actuate (l_safety l)" "sp_mode (s_setpoints l ! 0) = PS_JMODE_POSITION"
    and l': "limb_param_set cu Arm_right (Some ''elbow_pos_kp'') NaN l = (accepted, l')"
  shows "accepted \<and> drive (control_turn lib Arm_right i l') ! 0 = Duty [NaN, NaN, NaN]"
proof -
  have m: "param_match_joint Arm_right ''elbow_pos_kp'' = Some (0, ''pos_kp'')"
    by (simp add: param_match_joint_def PS_LIMB_JOINTS_def joint_row0_def)
  have p: "accepted" "l' = l\<lparr>s_pos_pid := (s_pos_pid l)[0 := (s_pos_pid l ! 0)\<lparr>pid_kp := NaN\<rparr>]\<rparr>"
    using l' by (auto simp: limb_param_set_def m)
  have "fst (fst (joint_control lib Arm_right i (s_setpoints l' ! 0) 0 (turn_start i l'))) = [NaN, NaN, NaN]"
    using assms(2,4) by (intro control_nan) (simp_all add: p(2))
  then have "drive (control_turn lib Arm_right i l') ! 0 = Duty [NaN, NaN, NaN]"
    using joint_output_drive(2) [of 0 "turn_start i l'" lib Arm_right i "s_setpoints l' ! 0" "[NaN, NaN, NaN]"] turn_drive(3) [of l' lib Arm_right i]
      assms by (simp add: p(2))
  with p(1) show ?thesis ..
qed

section \<open>Witnesses\<close>

abbreviation demo_lib :: "unit limb_lib" where
  "demo_lib \<equiv> \<lparr> lib_trig = axis_trig, lib_sqrtf = (\<lambda>_. Fin 30), lib_send = (\<lambda>w f. (ESP_OK, w)), lib_cu = 0 \<rparr>"
  \<comment> \<open>a rotor at angle 0 that carries 30 A\<close>

abbreviation demo_safety :: "u8 \<Rightarrow> unit safety_esp" where
  "demo_safety st \<equiv> \<lparr> core = (ps_safety_core_init 0 True)\<lparr>state := st\<rparr>, can = (), s_node_id = 1, safety_low = 0, estop_seq = 0, started = True \<rparr>"

abbreviation demo_stats :: ps_can_stats where
  "demo_stats \<equiv> \<lparr> rx_frames = 0, tx_frames = 0, rx_dropped = 0, tx_timeouts = 0, bus_errors = 0, recoveries = 0 \<rparr>"

definition demo_limb :: "u8 \<Rightarrow> u8 \<Rightarrow> int list \<Rightarrow> unit limb" where
  "demo_limb st md tlims =
     (let foc = \<lparr> pid_d = zero_pid, pid_q = zero_pid, v_limit = Fin 0 \<rparr>;
          enc = \<lparr> last_raw = 0, have_last = False, angle_rad = Fin 0, vel_rad_s = Fin 0 \<rparr>;
          jst = \<lparr> st_pos_crad = 0, st_vel_crad_s = 0, st_eff_cNm = 0, st_saturated = False, st_passive = True \<rparr>
      in \<lparr> l_safety = demo_safety st, s_setpoints = replicate 2 (zero_setpoint\<lparr>sp_mode := md\<rparr>), s_states = replicate 2 jst, s_sensors = zero_snapshot,
           s_pos_pid = replicate 2 zero_pid, s_vel_pid = replicate 2 zero_pid, s_foc = replicate 2 foc, s_torque_limit_cnm = tlims,
           s_oc_ticks = [0, 0], s_enc = replicate 2 enc, s_imu_ok = False, s_mahony = ps_mahony_init (Fin 0) (Fin 0),
           s_strain_offset = replicate 4 (Fin 0), s_max_exec_us = 0, s_missed_ticks = 0, s_stack_free_bytes = 0,
           l_ctr = \<lparr> control_ticks = 0, overcurrent_trips = 0, joint_cmd_rx = 0, mode_set_rx = 0, cmd_rejected = 0 \<rparr>,
           ctl_tick = 0, drive = [Disabled, Disabled], l_node_id = 1, s_seq = replicate 256 0, comms_tick = 0, prev_can = demo_stats \<rparr>)"

abbreviation demo_in :: ctl_in where
  "demo_in \<equiv> \<lparr> in_pending = 1, in_enc = (\<lambda>_. None), in_adc = (\<lambda>_. Some 4095), in_now = (\<lambda>_. (7, 8)), in_imu = None, in_exec_us = 100, in_stack = 1000 \<rparr>"

lemma demo_limb_fields [simp]:
  "length (drive (demo_limb st m ts)) = 2" "length (s_pos_pid (demo_limb st m ts)) = 2" "s_oc_ticks (demo_limb st m ts) = [0, 0]"
  "l_safety (demo_limb st m ts) = demo_safety st" "s_setpoints (demo_limb st m ts) = replicate 2 (zero_setpoint\<lparr>sp_mode := m\<rparr>)"
  "s_torque_limit_cnm (demo_limb st m ts) = ts"
  by (simp_all add: demo_limb_def Let_def)

theorem limb_gate_witness:
  "drive (control_turn demo_lib Arm_right demo_in (demo_limb PS_STATE_PASSIVE PS_JMODE_POSITION [4000, 1500])) ! 1 \<in> {Brake, Disabled}"
  using limb_gate [of "demo_limb PS_STATE_PASSIVE PS_JMODE_POSITION [4000, 1500]" demo_lib Arm_right demo_in]
  by (simp add: ps_safety_can_actuate_def)

lemma turns_torque: "s_torque_limit_cnm (turns lib nd is l) = s_torque_limit_cnm l"
  by (induction "is" rule: rev_induct) (simp_all add: turn_eq after0_fields)

theorem limb_overcurrent_trips_witness:
  "latched (core (l_safety (turns demo_lib Arm_right (replicate 6 demo_in) (demo_limb PS_STATE_OPERATIONAL PS_JMODE_TORQUE [0, 0]))))"
proof (rule limb_overcurrent_trips [of 0, THEN conjunct1])
  have z: "current_limit (PS_LIMB_JOINTS Arm_right ! 0) 0 = Fin 0"
    using joint_gear [of 0 Arm_right] by (auto simp: current_limit_def xint_def xround_Fin)
  have "overcurrent demo_lib Arm_right i 0 l" if "s_torque_limit_cnm l = [0, 0]" for i l
    using that z by (simp add: overcurrent_def over_def joint_entry_def joint_limit_def joint_i_mag_def Let_def)
  then show "\<forall>k<6. overcurrent demo_lib Arm_right (replicate 6 demo_in ! k) 0
     (turns demo_lib Arm_right (take k (replicate 6 demo_in)) (demo_limb PS_STATE_OPERATIONAL PS_JMODE_TORQUE [0, 0]))"
    by (simp add: turns_torque)
qed simp_all

end
