(* ===== verification/Limb_Comms.thy ===== *)
theory Limb_Comms
  imports Limb_Control
begin

text \<open>
  The limb nodes' communication task, \<open>firmware/apps/node_limb/main/comms_task.c\<close>: CONTROL frames in, telemetry out, the parameter
  callback, and the node as a whole: the interleaving of frames, safety ticks, parameter changes and turns of the two tasks. The
  transport is the \<open>can\<close> of the safety service (\<open>app_main.c\<close> gives both the same handle), used through \<open>lib_send\<close>.
\<close>

section \<open>Telemetry\<close>

text \<open>Every payload is an 8-byte wire structure.\<close>

definition limb_telem_frame :: "u8 \<Rightarrow> u8 \<Rightarrow> bytes \<Rightarrow> 'w limb \<Rightarrow> ps_can_frame" where
  "limb_telem_frame cls ty payload l =
     \<lparr> f_id = ps_can_id_pack cls (l_node_id l) PS_NODE_ORCH ty (s_seq l ! unat ty), f_dlc = of_nat (length payload),
       f_data = blit 0 payload (replicate 8 0) \<rparr>"

definition limb_telem_send :: "'w limb_lib \<Rightarrow> u8 \<Rightarrow> u8 \<Rightarrow> bytes \<Rightarrow> 'w limb \<Rightarrow> 'w limb" where
  "limb_telem_send lib cls ty payload l =
     (let f = limb_telem_frame cls ty payload l;
          l = l\<lparr>s_seq := (s_seq l)[unat ty := s_seq l ! unat ty + 1]\<rparr>
      in l\<lparr>l_safety := (l_safety l)\<lparr>can := snd (lib_send lib (can (l_safety l)) f)\<rparr>\<rparr>)"

section \<open>CONTROL frames\<close>

definition bump_cmd_rejected :: "'w limb \<Rightarrow> 'w limb" where
  "bump_cmd_rejected l = l\<lparr>l_ctr := (l_ctr l)\<lparr>cmd_rejected := cmd_rejected (l_ctr l) + 1\<rparr>\<rparr>"

definition bump_joint_cmd_rx :: "'w limb \<Rightarrow> 'w limb" where
  "bump_joint_cmd_rx l = l\<lparr>l_ctr := (l_ctr l)\<lparr>joint_cmd_rx := joint_cmd_rx (l_ctr l) + 1\<rparr>\<rparr>"

definition bump_mode_set_rx :: "'w limb \<Rightarrow> 'w limb" where
  "bump_mode_set_rx l = l\<lparr>l_ctr := (l_ctr l)\<lparr>mode_set_rx := mode_set_rx (l_ctr l) + 1\<rparr>\<rparr>"

definition clamp_pos :: "ps_limb_joint_cfg \<Rightarrow> int \<Rightarrow> int" where
  "clamp_pos board pos =
     (if pos < pos_min_crad board then pos_min_crad board else if pos > pos_max_crad board then pos_max_crad board else pos)"

definition handle_joint_cmd :: "limb_node \<Rightarrow> u32 \<Rightarrow> ps_can_frame \<Rightarrow> 'w limb \<Rightarrow> 'w limb" where
  "handle_joint_cmd nd t f l =
     (if f_dlc f < 8 then bump_cmd_rejected l
      else
        let cmd = PS_WIRE_READ dec_joint_cmd (f_data f) in
        if unat (jc_joint cmd) \<ge> PS_LIMB_JOINT_COUNT \<or> jc_mode cmd > PS_JMODE_IMPEDANCE then bump_cmd_rejected l
        else
          let pos = clamp_pos (PS_LIMB_JOINTS nd ! unat (jc_joint cmd)) (sint (jc_pos_crad cmd));
              sp = \<lparr> sp_mode = jc_mode cmd, sp_pos_crad = pos, sp_vel_crad_s = sint (jc_vel_crad_s cmd), sp_eff_cNm = sint (jc_eff_cNm cmd) \<rparr>;
              l = limb_setpoint_set (jc_joint cmd) (Some sp) l;
              l = limb_safety_op (ps_safety_note_cmd t) l
          in bump_joint_cmd_rx l)"

definition handle_mode_set :: "u32 \<Rightarrow> ps_can_frame \<Rightarrow> 'w limb \<Rightarrow> 'w limb" where
  "handle_mode_set t f l =
     (let ms = dec_mode_set (short_copy f);
          l = limb_safety_op (ps_safety_note_cmd t) l;
          l = limb_safety_op (ps_safety_note_mode_set t (ms_target_state ms)) l
      in bump_mode_set_rx l)"

definition control_rx_cb :: "limb_node \<Rightarrow> u32 \<Rightarrow> ps_can_frame \<Rightarrow> 'w limb \<Rightarrow> 'w limb" where
  "control_rx_cb nd t f l =
     (let ty = ps_can_id_type (f_id f) in
      if ty = PS_T_JOINT_CMD then handle_joint_cmd nd t f l
      else if ty = PS_T_MODE_SET then handle_mode_set t f l
      else l)"

section \<open>The parameter callback\<close>

text \<open>The change the server proposes: the name and, when its type is double, the value; None for a deletion.\<close>

definition uros_on_param_changed :: "int \<Rightarrow> limb_node \<Rightarrow> (string \<times> xfloat option) option \<Rightarrow> 'w limb \<Rightarrow> bool \<times> 'w limb" where
  "uros_on_param_changed cu nd prm l =
     (case prm of Some (nm, Some v) \<Rightarrow> limb_param_set cu nd (Some nm) v l | _ \<Rightarrow> (False, l))"

text \<open>The parameters declared when the client connects, with their initial values: the names fit the 40-byte buffers.\<close>

definition uros_suffixes :: "string list" where
  "uros_suffixes = [''pos_kp'', ''pos_ki'', ''vel_kp'', ''vel_ki'', ''torque_limit_cnm'']"

definition limb_uros_create_entities :: "limb_node \<Rightarrow> 'w limb \<Rightarrow> (string \<times> xfloat) list" where
  "limb_uros_create_entities nd l =
     concat (map (\<lambda>c. map (\<lambda>suf. let nm = jn_name c @ ''_'' @ suf
        in (nm, case limb_param_get nd (Some nm) l of Some v \<Rightarrow> v | None \<Rightarrow> Fin 0)) uros_suffixes) (PS_LIMB_JOINTS nd))"

section \<open>The task\<close>

definition joint_state_wire :: "nat \<Rightarrow> limb_joint_state \<Rightarrow> ps_joint_state" where
  "joint_state_wire j st =
     \<lparr> js_joint = of_nat j, js_flags = (if st_saturated st then 1 else 0) OR (if st_passive st then 2 else 0),
       js_pos_crad = st_pos_crad st, js_vel_crad_s = st_vel_crad_s st, js_eff_cNm = st_eff_cNm st \<rparr>"

definition send_joint_state :: "'w limb_lib \<Rightarrow> nat \<Rightarrow> limb_joint_state \<Rightarrow> 'w limb \<Rightarrow> 'w limb" where
  "send_joint_state lib j st = limb_telem_send lib PS_CLS_TELEM PS_T_JOINT_STATE (enc_joint_state (joint_state_wire j st))"

definition send_sensors :: "'w limb_lib \<Rightarrow> limb_sensor_snapshot \<Rightarrow> 'w limb \<Rightarrow> 'w limb" where
  "send_sensors lib snap l =
     (let l = (if imu_valid snap then
                 limb_telem_send lib PS_CLS_TELEM PS_T_IMU_GYR (enc_imu_gyr (sn_gyr snap))
                   (limb_telem_send lib PS_CLS_TELEM PS_T_IMU_ACC (enc_imu_acc (sn_acc snap))
                     (limb_telem_send lib PS_CLS_TELEM PS_T_IMU_QUAT (enc_imu_quat (sn_quat snap)) l))
               else l)
      in limb_telem_send lib PS_CLS_TELEM PS_T_FORCE (enc_force (sn_force snap)) l)"

definition send_stats :: "'w limb_lib \<Rightarrow> ('w \<Rightarrow> ps_can_stats) \<Rightarrow> 'w limb \<Rightarrow> 'w limb" where
  "send_stats lib get_stats l =
     (let cur = get_stats (can (l_safety l)); prev = prev_can l;
          rx = rx_frames cur - rx_frames prev; tx = tx_frames cur - tx_frames prev;
          err = (bus_errors cur - bus_errors prev) + (rx_dropped cur - rx_dropped prev) + (tx_timeouts cur - tx_timeouts prev);
          l = l\<lparr>prev_can := cur\<rparr>;
          l = limb_telem_send lib PS_CLS_TELEM PS_T_NODE_STATS
                (enc_node_stats \<lparr> ns_cpu_pct = 0, ns_state = ps_safety_state (l_safety l), ns_rx_fps = sat16 rx, ns_tx_fps = sat16 tx, ns_err_cnt = sat16 err \<rparr>) l
      in limb_telem_send lib PS_CLS_MGMT PS_T_VERSION
           (enc_version \<lparr> vn_major = 0, vn_minor = 1, vn_patch = 0, vn_node_state = ps_safety_state (l_safety l), vn_git_short = 0 \<rparr>) l)"

definition comms_turn :: "'w limb_lib \<Rightarrow> ('w \<Rightarrow> ps_can_stats) \<Rightarrow> 'w limb \<Rightarrow> 'w limb" where
  "comms_turn lib get_stats l =
     (let l = l\<lparr>comms_tick := comms_tick l + 1\<rparr>;
          st = s_states l;
          l = send_joint_state lib 1 (st ! 1) (send_joint_state lib 0 (st ! 0) l);
          l = send_sensors lib (s_sensors l) l
      in if comms_tick l mod 100 = 0 then send_stats lib get_stats l else l)"

record limb_start_env =
  can_given :: bool
  class_registered :: esp_err
  comms_created :: bool

definition limb_comms_start :: "limb_start_env \<Rightarrow> u8 \<Rightarrow> 'w limb \<Rightarrow> esp_err \<times> 'w limb" where
  "limb_comms_start env nid l =
     (if \<not> can_given env then (ESP_ERR_INVALID_ARG, l)
      else
        let l = l\<lparr>l_node_id := nid\<rparr> in
        if class_registered env \<noteq> ESP_OK then (class_registered env, l)
        else if \<not> comms_created env then (ESP_ERR_NO_MEM, l)
        else (ESP_OK, l))"

section \<open>The node\<close>

text \<open>What can happen to a limb node: a SAFETY or a CONTROL frame is dispatched, the bus changes state, the safety timer
  fires, a parameter is set, a task runs its turn.\<close>

datatype limb_event =
    Safety_frame u32 ps_can_frame
  | Control_frame u32 ps_can_frame
  | Bus_state u32 int
  | Safety_timer u32
  | Param int "(string \<times> xfloat option) option"
  | Control_turn ctl_in
  | Comms_turn

fun limb_step :: "'w limb_lib \<Rightarrow> ('w \<Rightarrow> ps_can_stats) \<Rightarrow> limb_node \<Rightarrow> limb_event \<Rightarrow> 'w limb \<Rightarrow> 'w limb" where
  "limb_step lib gs nd (Safety_frame t f) l = limb_safety_op (safety_rx t f) l"
| "limb_step lib gs nd (Control_frame t f) l = control_rx_cb nd t f l"
| "limb_step lib gs nd (Bus_state t st) l = limb_safety_op (can_state_cb t st) l"
| "limb_step lib gs nd (Safety_timer t) l = limb_safety_op (tick_cb t) l"
| "limb_step lib gs nd (Param cu prm) l = snd (uros_on_param_changed cu nd prm l)"
| "limb_step lib gs nd (Control_turn i) l = control_turn lib nd i l"
| "limb_step lib gs nd Comms_turn l = comms_turn lib gs l"

definition limb_run :: "'w limb_lib \<Rightarrow> ('w \<Rightarrow> ps_can_stats) \<Rightarrow> limb_node \<Rightarrow> limb_event list \<Rightarrow> 'w limb \<Rightarrow> 'w limb" where
  "limb_run lib gs nd evs l = foldl (\<lambda>l e. limb_step lib gs nd e l) l evs"

section \<open>Limits\<close>

definition setpoint_ok :: "ps_limb_joint_cfg \<Rightarrow> limb_setpoint \<Rightarrow> bool" where
  "setpoint_ok cfg sp \<longleftrightarrow> sp_mode sp \<le> PS_JMODE_IMPEDANCE \<and> pos_min_crad cfg \<le> sp_pos_crad sp \<and> sp_pos_crad sp \<le> pos_max_crad cfg"

definition limb_ok :: "limb_node \<Rightarrow> 'w limb \<Rightarrow> bool" where
  "limb_ok nd l \<longleftrightarrow> list_all2 setpoint_ok (PS_LIMB_JOINTS nd) (s_setpoints l) \<and>
     list_all2 (\<lambda>cfg t. 0 \<le> t \<and> t \<le> torque_limit_cnm cfg) (PS_LIMB_JOINTS nd) (s_torque_limit_cnm l)"

lemma limb_ok_cong:
  "s_setpoints l' = s_setpoints l \<Longrightarrow> s_torque_limit_cnm l' = s_torque_limit_cnm l \<Longrightarrow> limb_ok nd l \<Longrightarrow> limb_ok nd l'"
  by (simp add: limb_ok_def)

lemma zero_setpoints_ok: "list_all2 setpoint_ok (PS_LIMB_JOINTS nd) (replicate 2 zero_setpoint)"
  by (cases nd) (simp_all add: PS_LIMB_JOINTS_def setpoint_ok_def zero_setpoint_def joint_row0_def joint_row1_def numeral_2_eq_2)

text \<open>The callback, the write of a setpoint and of a parameter keep the limits.\<close>

lemma transition_ok: "limb_ok nd l \<Longrightarrow> limb_ok nd (limb_safety_on_transition old new cause l)"
  by (simp add: limb_ok_def limb_safety_on_transition_def limb_setpoint_zero_all_def limb_control_reset_pids_def zero_setpoints_ok)

lemma safety_op_ok: "limb_ok nd l \<Longrightarrow> limb_ok nd (limb_safety_op h l)"
proof -
  have k: "limb_ok nd l \<Longrightarrow> limb_ok nd (foldl (\<lambda>a (old, new, cause). limb_safety_on_transition old new cause a) l cs)" for cs l
    by (induction cs arbitrary: l) (auto simp: transition_ok)
  assume "limb_ok nd l"
  then have "limb_ok nd (l\<lparr>l_safety := h (l_safety l)\<rparr>)" by (rule limb_ok_cong [rotated 2]) simp_all
  then show ?thesis unfolding limb_safety_op_def on_core_transition_def by (rule k)
qed

lemma clamp_pos_range: "pos_min_crad cfg \<le> pos_max_crad cfg \<Longrightarrow> pos_min_crad cfg \<le> clamp_pos cfg p \<and> clamp_pos cfg p \<le> pos_max_crad cfg"
  by (simp add: clamp_pos_def)

lemma range_nonempty: "j < 2 \<Longrightarrow> pos_min_crad (PS_LIMB_JOINTS nd ! j) \<le> pos_max_crad (PS_LIMB_JOINTS nd ! j)"
  by (cases nd) (auto simp: less_2_cases_iff PS_LIMB_JOINTS_def joint_row0_def joint_row1_def)

lemma setpoint_set_ok:
  assumes "limb_ok nd l" "unat j < 2 \<Longrightarrow> setpoint_ok (PS_LIMB_JOINTS nd ! unat j) sp"
  shows "limb_ok nd (limb_setpoint_set j (Some sp) l)"
  using assms by (auto simp: limb_ok_def limb_setpoint_set_def list_all2_conv_all_nth nth_list_update)

lemma bump_ok [simp]: "limb_ok nd (bump_cmd_rejected l) = limb_ok nd l" "limb_ok nd (bump_joint_cmd_rx l) = limb_ok nd l"
  "limb_ok nd (bump_mode_set_rx l) = limb_ok nd l"
  by (simp_all add: limb_ok_def bump_cmd_rejected_def bump_joint_cmd_rx_def bump_mode_set_rx_def)

lemma control_rx_ok: "limb_ok nd l \<Longrightarrow> limb_ok nd (control_rx_cb nd t f l)"
proof -
  assume l: "limb_ok nd l"
  have "limb_ok nd (handle_joint_cmd nd t f l)"
    using l clamp_pos_range [OF range_nonempty] unfolding handle_joint_cmd_def Let_def
    by (auto intro!: safety_op_ok setpoint_set_ok simp: setpoint_ok_def not_less not_le)
  then show ?thesis using l by (auto simp: control_rx_cb_def handle_mode_set_def Let_def intro!: safety_op_ok)
qed

lemma match_joint_range: "match_joint nm k cs = Some (j, suf) \<Longrightarrow> k \<le> j \<and> j < k + length cs"
  by (induction nm k cs rule: match_joint.induct) (auto simp: Let_def split: if_splits)

lemma param_joint_range: "param_match_joint nd nm = Some (j, suf) \<Longrightarrow> j < 2"
  using match_joint_range unfolding param_match_joint_def by fastforce

lemma board_torque_nonneg: "j < 2 \<Longrightarrow> 0 \<le> torque_limit_cnm (PS_LIMB_JOINTS nd ! j)"
  by (cases nd) (auto simp: less_2_cases_iff PS_LIMB_JOINTS_def joint_row0_def joint_row1_def)

lemma param_set_ok: "limb_ok nd l \<Longrightarrow> limb_ok nd (snd (limb_param_set cu nd nmo v l))"
proof (cases "\<exists>nm j suf. nmo = Some nm \<and> param_match_joint nd nm = Some (j, suf)")
  case True
  then obtain nm j suf where m: "nmo = Some nm" "param_match_joint nd nm = Some (j, suf)" by blast
  show "limb_ok nd l \<Longrightarrow> ?thesis" using param_joint_range [OF m(2)] board_torque_nonneg [of j nd]
    by (auto simp: limb_param_set_def m Let_def limb_ok_def list_all2_conv_all_nth nth_list_update)
next
  case False
  then have "snd (limb_param_set cu nd nmo v l) = l" by (auto simp: limb_param_set_def split: option.splits)
  then show "limb_ok nd l \<Longrightarrow> ?thesis" by simp
qed

section \<open>Turns keep the limits\<close>

lemma overcurrent_ok: "limb_ok nd l \<Longrightarrow> limb_ok nd (overcurrent_check lib now j m il l)"
proof -
  assume l: "limb_ok nd l"
  then have "limb_ok nd (limb_safety_op h (l\<lparr>s_oc_ticks := x\<rparr>))" for h x by (intro safety_op_ok) (simp add: limb_ok_def)
  then show ?thesis using l by (simp add: overcurrent_check_def Let_def limb_ok_def)
qed

lemma joint_turn_ok: "limb_ok nd l \<Longrightarrow> limb_ok nd (joint_turn lib nd i sps ca j l)"
proof -
  assume "limb_ok nd l"
  then have "limb_ok nd (snd (joint_output lib nd i (sps ! j) j l))" by (rule limb_ok_cong [rotated 2]) simp_all
  then have "limb_ok nd (turn_check lib nd i sps j l)" by (simp add: turn_check_def Let_def overcurrent_ok)
  then show ?thesis by (rule limb_ok_cong [rotated 2]) (simp_all add: turn_check_def Let_def)
qed

lemma control_turn_ok: "limb_ok nd l \<Longrightarrow> limb_ok nd (control_turn lib nd i l)"
proof -
  assume "limb_ok nd l"
  then have "limb_ok nd (turn_start i l)" by (rule limb_ok_cong [rotated 2]) simp_all
  then have "limb_ok nd (turn_joints lib nd i (turn_start i l))" by (simp add: turn_joints_def Let_def joint_turn_ok)
  then show ?thesis unfolding control_turn_def by (rule limb_ok_cong [rotated 2]) simp_all
qed

text \<open>Telemetry changes the transport and its own counters only.\<close>

lemma telem_fields [simp]:
  "s_setpoints (limb_telem_send lib c ty p l) = s_setpoints l" "s_torque_limit_cnm (limb_telem_send lib c ty p l) = s_torque_limit_cnm l"
  "drive (limb_telem_send lib c ty p l) = drive l" "core (l_safety (limb_telem_send lib c ty p l)) = core (l_safety l)"
  "started (l_safety (limb_telem_send lib c ty p l)) = started (l_safety l)"
  by (simp_all add: limb_telem_send_def Let_def)

lemma comms_fields [simp]:
  "s_setpoints (comms_turn lib gs l) = s_setpoints l" "s_torque_limit_cnm (comms_turn lib gs l) = s_torque_limit_cnm l"
  "drive (comms_turn lib gs l) = drive l" "core (l_safety (comms_turn lib gs l)) = core (l_safety l)"
  "started (l_safety (comms_turn lib gs l)) = started (l_safety l)"
  by (simp_all add: comms_turn_def send_joint_state_def send_sensors_def send_stats_def Let_def)

lemma limb_step_ok: "limb_ok nd l \<Longrightarrow> limb_ok nd (limb_step lib gs nd e l)"
proof (cases e)
  case (Param cu prm)
  then show "limb_ok nd l \<Longrightarrow> ?thesis"
    by (cases prm) (auto simp: uros_on_param_changed_def param_set_ok split: option.splits)
next
  case Comms_turn
  then show "limb_ok nd l \<Longrightarrow> ?thesis" by (auto intro: limb_ok_cong)
qed (simp_all add: safety_op_ok control_rx_ok control_turn_ok)

lemma limb_run_simps [simp]: "limb_run lib gs nd [] l = l" "limb_run lib gs nd (e # es) l = limb_run lib gs nd es (limb_step lib gs nd e l)"
  by (simp_all add: limb_run_def)

lemma limb_run_ok: "limb_ok nd l \<Longrightarrow> limb_ok nd (limb_run lib gs nd evs l)"
  by (induction evs arbitrary: l) (simp_all add: limb_step_ok)


lemma init_ok:
  assumes "length (s_torque_limit_cnm l) = 2"
  shows "limb_ok nd (limb_safety_glue_init (control_init_hw nd imu tare l))"
proof -
  have "s_torque_limit_cnm (limb_safety_glue_init (control_init_hw nd imu tare l)) = map torque_limit_cnm (PS_LIMB_JOINTS nd)"
    using assms by (cases nd; cases "s_torque_limit_cnm l" rule: list.exhaust)
      (auto simp: limb_safety_glue_init_def limb_setpoint_zero_all_def control_init_hw_def init_joint_def Let_def PS_LIMB_JOINTS_def
        length_Suc_conv numeral_2_eq_2)
  moreover have "list_all2 (\<lambda>cfg t. 0 \<le> t \<and> t \<le> torque_limit_cnm cfg) (PS_LIMB_JOINTS nd) (map torque_limit_cnm (PS_LIMB_JOINTS nd))"
    using board_torque_nonneg by (simp add: list_all2_conv_all_nth)
  ultimately show ?thesis by (simp add: limb_ok_def limb_safety_glue_init_def limb_setpoint_zero_all_def zero_setpoints_ok)
qed

section \<open>The latch over a run\<close>

fun clears :: "limb_event \<Rightarrow> bool" where
  "clears (Safety_frame t f) \<longleftrightarrow> ps_can_id_type (f_id f) = PS_T_CLEAR_ESTOP"
| "clears _ \<longleftrightarrow> False"

definition held :: "'w limb \<Rightarrow> bool" where
  "held l \<longleftrightarrow> started (l_safety l) \<and> latched (core (l_safety l)) \<and> length (drive l) = 2"

lemma safety_op_held:
  assumes "held l" "\<And>s. started s \<Longrightarrow> latched (core s) \<Longrightarrow> started (h s) \<and> latched (core (h s))"
  shows "held (limb_safety_op h l)"
  using assms by (simp add: held_def)

lemma held_cong: "l_safety l' = l_safety l \<Longrightarrow> drive l' = drive l \<Longrightarrow> held l \<Longrightarrow> held l'"
  by (simp add: held_def)

lemma bump_fields [simp]:
  "l_safety (bump_cmd_rejected l) = l_safety l" "drive (bump_cmd_rejected l) = drive l" "l_safety (bump_joint_cmd_rx l) = l_safety l"
  "drive (bump_joint_cmd_rx l) = drive l" "l_safety (bump_mode_set_rx l) = l_safety l" "drive (bump_mode_set_rx l) = drive l"
  by (simp_all add: bump_cmd_rejected_def bump_joint_cmd_rx_def bump_mode_set_rx_def)

lemma setpoint_set_fields [simp]:
  "l_safety (limb_setpoint_set j sp l) = l_safety l" "drive (limb_setpoint_set j sp l) = drive l"
  by (simp_all add: limb_setpoint_set_def split: option.splits)

lemma control_rx_held: "held l \<Longrightarrow> held (control_rx_cb nd t f l)"
  by (simp add: control_rx_cb_def handle_joint_cmd_def handle_mode_set_def Let_def held_def service_latched)

lemma param_set_fields [simp]:
  "l_safety (snd (limb_param_set cu nd nmo v l)) = l_safety l" "drive (snd (limb_param_set cu nd nmo v l)) = drive l"
  by (simp_all add: limb_param_set_def Let_def split: option.splits)

lemma turn_stop_only: "stop_only (l_safety l) (l_safety (control_turn lib nd i l))"
  using turn_oc(5,6) [of 0, where l = l and lib = lib and nd = nd and i = i] turn_check_stop_only stop_only_trans by (metis pos2)

lemma step_held: "held l \<Longrightarrow> \<not> clears e \<Longrightarrow> held (limb_step lib gs nd e l)"
proof (cases e)
  case (Control_turn i)
  then show "held l \<Longrightarrow> ?thesis" using turn_stop_only [of l lib nd i] turn_drive(4) [of l lib nd i]
    by (auto simp: held_def stop_only_def latched_def)
next
  case (Param cu prm)
  then show "held l \<Longrightarrow> ?thesis" by (auto simp: uros_on_param_changed_def split: option.splits intro: held_cong [rotated 2])
qed (simp_all add: held_def service_latched control_rx_held [unfolded held_def])

lemma run_held: "held l \<Longrightarrow> \<forall>e\<in>set evs. \<not> clears e \<Longrightarrow> held (limb_run lib gs nd evs l)"
  by (induction evs arbitrary: l) (simp_all add: step_held)

lemma estop_frame_held:
  assumes "length (drive l) = 2" "started (l_safety l)" "ps_can_id_type (f_id f) = PS_T_ESTOP"
  shows "held (limb_safety_op (safety_rx t f) l)"
  using assms on_estop_latched by (simp add: held_def safety_rx_def)

section \<open>Arrays keep their lengths\<close>

definition limb_lengths :: "'w limb \<Rightarrow> bool" where
  "limb_lengths l \<longleftrightarrow> length (drive l) = 2 \<and> length (s_enc l) = 2"

lemma lengths_cong: "drive l' = drive l \<Longrightarrow> s_enc l' = s_enc l \<Longrightarrow> limb_lengths l' = limb_lengths l"
  by (simp add: limb_lengths_def)

lemma turn_lengths: "limb_lengths l \<Longrightarrow> limb_lengths (control_turn lib nd i l)"
proof -
  have o: "s_enc (overcurrent_check lib now j m il x) = s_enc x" for now j m il and x :: "'a limb"
    by (simp add: overcurrent_check_def Let_def)
  have "length (s_enc (joint_turn lib nd i sps can_act j x)) = length (s_enc x)" for sps can_act j and x :: "'a limb"
    by (simp add: joint_turn_def joint_output_def joint_control_def joint_write_def joint_state_publish_def o Let_def case_prod_unfold)
  then show "limb_lengths l \<Longrightarrow> limb_lengths (control_turn lib nd i l)"
    using turn_drive(4) [of l lib nd i] by (simp add: limb_lengths_def turn_eq after0_def)
qed

lemma step_lengths: "limb_lengths l \<Longrightarrow> limb_lengths (limb_step lib gs nd e l)"
proof (cases e)
  case (Control_frame t f)
  have "s_enc (bump_cmd_rejected x) = s_enc x" "s_enc (bump_joint_cmd_rx x) = s_enc x" "s_enc (bump_mode_set_rx x) = s_enc x"
    "s_enc (limb_setpoint_set j sp x) = s_enc x" for j sp and x :: "'a limb"
    by (simp_all add: bump_cmd_rejected_def bump_joint_cmd_rx_def bump_mode_set_rx_def limb_setpoint_set_def split: option.splits)
  then show "limb_lengths l \<Longrightarrow> ?thesis"
    by (simp add: Control_frame limb_lengths_def control_rx_cb_def handle_joint_cmd_def handle_mode_set_def Let_def)
next
  case (Param cu prm)
  have "s_enc (snd (limb_param_set cu nd nmo v l)) = s_enc l" for nmo v by (simp add: limb_param_set_def Let_def split: option.splits)
  then show "limb_lengths l \<Longrightarrow> ?thesis" by (simp add: Param limb_lengths_def uros_on_param_changed_def split: option.splits)
next
  case Comms_turn
  have "s_enc (comms_turn lib gs l) = s_enc l" "drive (comms_turn lib gs l) = drive l"
    by (simp_all add: comms_turn_def send_joint_state_def send_sensors_def send_stats_def limb_telem_send_def Let_def)
  then show "limb_lengths l \<Longrightarrow> ?thesis" by (simp add: Comms_turn limb_lengths_def)
qed (simp_all add: turn_lengths, simp_all add: limb_lengths_def)

lemma run_lengths: "limb_lengths l \<Longrightarrow> limb_lengths (limb_run lib gs nd evs l)"
  by (induction evs arbitrary: l) (simp_all add: step_lengths)

lemma init_lengths: "limb_lengths l \<Longrightarrow> limb_lengths (limb_safety_glue_init (control_init_hw nd imu tare l))"
  by (simp add: limb_lengths_def limb_safety_glue_init_def limb_setpoint_zero_all_def control_init_hw_def init_joint_def Let_def)

section \<open>Parameters by name\<close>

text \<open>The joint and the suffix a name was matched to give the name back.\<close>

lemma match_joint_name: "match_joint nm k cs = Some (j, suf) \<Longrightarrow> nm = jn_name (cs ! (j - k)) @ CHR ''_'' # suf"
proof (induction nm k cs rule: match_joint.induct)
  case (2 nm k c cs)
  let ?n = "length (jn_name c)"
  show ?case
  proof (cases "take ?n nm = jn_name c \<and> ?n < length nm \<and> nm ! ?n = CHR ''_''")
    case True
    then show ?thesis using "2.prems" id_take_nth_drop [of ?n nm] by (auto simp: Let_def)
  next
    case False
    then have m: "match_joint nm (k + 1) cs = Some (j, suf)" using "2.prems" by (auto simp: Let_def)
    then have "k + 1 \<le> j" using match_joint_range by blast
    then show ?thesis using "2.IH" [OF refl False m] by (simp add: nth_Cons')
  qed
qed simp

lemma declared_match:
  assumes "(nm, v0) \<in> set (limb_uros_create_entities nd l)"
  shows "\<exists>j suf. param_match_joint nd nm = Some (j, suf) \<and> suf \<in> set uros_suffixes \<and> j < 2"
proof -
  obtain c suf where c: "c \<in> set (PS_LIMB_JOINTS nd)" "suf \<in> set uros_suffixes" "nm = jn_name c @ ''_'' @ suf"
    using assms by (auto simp: limb_uros_create_entities_def Let_def)
  have "\<exists>j. param_match_joint nd (jn_name c @ ''_'' @ suf) = Some (j, suf)"
    using c(1) by (cases nd) (auto simp: PS_LIMB_JOINTS_def param_match_joint_def joint_row0_def joint_row1_def)
  then show ?thesis using c param_joint_range by blast
qed

text \<open>What a set parameter reads back as.\<close>

definition stored_param :: "int \<Rightarrow> limb_node \<Rightarrow> nat \<Rightarrow> string \<Rightarrow> xfloat \<Rightarrow> xfloat" where
  "stored_param cu nd j suf v =
     (if suf = ''torque_limit_cnm'' then Fin (of_int (max 0 (min (to_i32 cu v) (torque_limit_cnm (PS_LIMB_JOINTS nd ! j))))) else to_float v)"

definition limb_lists :: "'w limb \<Rightarrow> bool" where
  "limb_lists l \<longleftrightarrow> length (s_pos_pid l) = 2 \<and> length (s_vel_pid l) = 2 \<and> length (s_torque_limit_cnm l) = 2"

lemma set_get_same:
  assumes "param_match_joint nd nm = Some (j, suf)" "suf \<in> set uros_suffixes" "limb_lists l"
  shows "fst (limb_param_set cu nd (Some nm) v l)"
    "limb_param_get nd (Some nm) (snd (limb_param_set cu nd (Some nm) v l)) = Some (stored_param cu nd j suf v)"
  using assms(2,3) param_joint_range [OF assms(1)] board_torque_nonneg [of j nd]
  by (auto simp: limb_param_set_def limb_param_get_def assms(1) uros_suffixes_def limb_lists_def stored_param_def Let_def)

lemma set_get_other:
  assumes "param_match_joint nd nm = Some (j, suf)" "param_match_joint nd nm' = Some (j', suf')" "nm \<noteq> nm'" "suf \<in> set uros_suffixes" "limb_lists l"
  shows "limb_param_get nd (Some nm') (snd (limb_param_set cu nd (Some nm) v l)) = limb_param_get nd (Some nm') l"
proof -
  have "(j, suf) \<noteq> (j', suf')" using match_joint_name assms(1-3) unfolding param_match_joint_def by blast
  then show ?thesis using assms(4,5) param_joint_range [OF assms(1)] param_joint_range [OF assms(2)]
    by (auto simp: limb_param_set_def limb_param_get_def assms(1,2) uros_suffixes_def limb_lists_def Let_def nth_list_update)
qed

section \<open>Properties\<close>

text \<open>Claim C21. The limits hold whatever arrives: after start-up and any interleaving of frames, bus reports, timer ticks, parameter
  changes and turns of the tasks, every setpoint has a mode the cascade knows and a position inside the joint's mechanical range,
  every torque ceiling is between zero and the board's, and the duties a turn hands to the output stage of a joint are those of its current loop at a
  current that, unless it is NaN, is within the limit of the joint's live torque ceiling, and so of the board's.\<close>

theorem limb_limits_hold:
  assumes "length (s_torque_limit_cnm l) = 2" "length (drive l) = 2" "length (s_enc l) = 2"
    and l': "l' = limb_run lib gs nd evs (limb_safety_glue_init (control_init_hw nd imu tare l))"
  shows "limb_ok nd l' \<and> (\<forall>j<2. \<forall>d. drive (control_turn lib nd i l') ! j = Duty d \<longrightarrow>
    (\<exists>iq. d = current_loop lib nd i j l' iq \<and> (iq \<noteq> NaN \<longrightarrow>
       xle (xneg (joint_limit nd j l')) iq \<and> xle iq (joint_limit nd j l') \<and>
       xle (xneg (current_limit (PS_LIMB_JOINTS nd ! j) (torque_limit_cnm (PS_LIMB_JOINTS nd ! j)))) iq \<and>
       xle iq (current_limit (PS_LIMB_JOINTS nd ! j) (torque_limit_cnm (PS_LIMB_JOINTS nd ! j))))))"
proof -
  have ok: "limb_ok nd l'" unfolding l' by (intro limb_run_ok init_ok assms)
  have len: "limb_lengths l'" unfolding l' by (intro run_lengths init_lengths) (simp add: limb_lengths_def assms)
  have "\<exists>iq. d = current_loop lib nd i j l' iq \<and> (iq \<noteq> NaN \<longrightarrow>
       xle (xneg (joint_limit nd j l')) iq \<and> xle iq (joint_limit nd j l') \<and>
       xle (xneg (current_limit (PS_LIMB_JOINTS nd ! j) (torque_limit_cnm (PS_LIMB_JOINTS nd ! j)))) iq \<and>
       xle iq (current_limit (PS_LIMB_JOINTS nd ! j) (torque_limit_cnm (PS_LIMB_JOINTS nd ! j))))"
    if j: "j < 2" and d: "drive (control_turn lib nd i l') ! j = Duty d" for j d
  proof -
    obtain iq0 where iq0: "d = current_loop lib nd i j l' (fst (clamp_iq (joint_limit nd j l') iq0))"
      using driven_duty [OF _ _ j d] len by (auto simp: limb_lengths_def)
    have t: "0 \<le> s_torque_limit_cnm l' ! j" "s_torque_limit_cnm l' ! j \<le> torque_limit_cnm (PS_LIMB_JOINTS nd ! j)"
      using ok j by (simp_all add: limb_ok_def list_all2_conv_all_nth)
    have "fst (clamp_iq (joint_limit nd j l') iq0) \<noteq> NaN \<Longrightarrow> iq0 \<noteq> NaN" by (auto simp: clamp_iq_def)
    then show ?thesis using iq0 clamp_iq_ceiling [OF j t, of iq0] unfolding joint_limit_def by blast
  qed
  with ok show ?thesis by blast
qed

text \<open>Claim C20. An emergency stop on the bus makes the limb limp and keeps it so: an ESTOP frame zeroes every setpoint in the same dispatch,
  and from then on, through any frames, ticks, parameter changes and turns without a CLEAR_ESTOP frame, the node stays latched and the
  control task leaves both output stages disabled or braking, even though joint commands are still accepted.\<close>

theorem limb_estop_to_limp:
  assumes "length (drive l) = 2" "started (l_safety l)" "ps_can_id_type (f_id f) = PS_T_ESTOP" "\<forall>e\<in>set evs. \<not> clears e"
    and l': "l' = limb_run lib gs nd (Safety_frame t f # evs) l"
  shows "latched (core (l_safety l')) \<and> (\<forall>j<2. drive (control_turn lib nd i l') ! j \<in> {Brake, Disabled}) \<and>
    (state (core (l_safety l)) \<noteq> PS_STATE_ESTOP \<and> on_transition (core (l_safety l)) \<longrightarrow>
       s_setpoints (limb_step lib gs nd (Safety_frame t f) l) = replicate 2 zero_setpoint)"
proof -
  have h: "held l'" unfolding l' limb_run_simps limb_step.simps using estop_frame_held [OF assms(1-3)] assms(4) by (rule run_held)
  then have "drive (control_turn lib nd i l') ! j \<in> {Brake, Disabled}" if "j < 2" for j
    using that by (intro turn_gated) (auto simp: held_def latched_def ps_safety_can_actuate_def)
  then show ?thesis using h limb_stop.estop_frame_neutral [OF assms(3)] by (auto simp: held_def limb_safety_op_def)
qed

text \<open>Parameters round trip: every parameter the node declares to the server is accepted when set, reads back as the value the node
  stores for it (the float nearest to a gain, the torque limit clamped to the board), and setting it changes no other declared
  parameter.\<close>

lemma limb_params_round_trip:
  assumes "limb_lists l" "(nm, v0) \<in> set (limb_uros_create_entities nd l)" "limb_param_set cu nd (Some nm) v l = (accepted, l')"
  shows "accepted \<and> (\<exists>j suf. param_match_joint nd nm = Some (j, suf) \<and> limb_param_get nd (Some nm) l' = Some (stored_param cu nd j suf v)) \<and>
    (\<forall>(nm', v0') \<in> set (limb_uros_create_entities nd l). nm' \<noteq> nm \<longrightarrow> limb_param_get nd (Some nm') l' = limb_param_get nd (Some nm') l)"
proof -
  obtain j suf where m: "param_match_joint nd nm = Some (j, suf)" "suf \<in> set uros_suffixes" using declared_match [OF assms(2)] by blast
  have "limb_param_get nd (Some nm') l' = limb_param_get nd (Some nm') l"
    if "(nm', v0') \<in> set (limb_uros_create_entities nd l)" "nm' \<noteq> nm" for nm' v0'
    using declared_match [OF that(1)] set_get_other [OF m(1) _ that(2) [symmetric] m(2) assms(1), of _ _ cu v] assms(3) by auto
  then show ?thesis using set_get_same [OF m assms(1), of cu v] assms(3) m(1) by auto
qed

text \<open>The freshness of commands plays no part in the control task: an operational node goes on driving on its last setpoint.\<close>

lemma limb_stale_command_drives:
  assumes "length (drive l) = 2" "ps_safety_can_actuate (l_safety l)" "sp_mode (s_setpoints l ! 0) \<noteq> PS_JMODE_PASSIVE"
    and "\<not> ps_safety_cmd_fresh now (l_safety l)"
  shows "\<exists>d. drive (control_turn lib nd i l) ! 0 = Duty d"
  using joint_output_drive(2) [of 0 "turn_start i l" lib nd i "s_setpoints l ! 0"] turn_drive(3) [OF assms(1), of lib nd i] assms by simp

section \<open>Witnesses\<close>

abbreviation demo_torque :: ps_can_frame where
  "demo_torque \<equiv> \<lparr> f_id = ps_can_id_pack PS_CLS_CONTROL 8 1 PS_T_JOINT_CMD 0, f_dlc = 8, f_data = [0, PS_JMODE_TORQUE, 0, 0, 0, 0, 100, 0] \<rparr>"

lemma demo_joint_cmd:
  assumes "length (s_setpoints l) = 2"
  shows "sp_mode (s_setpoints (control_rx_cb nd t demo_torque l) ! 0) = PS_JMODE_TORQUE"
    "ps_safety_can_actuate (l_safety (control_rx_cb nd t demo_torque l)) = ps_safety_can_actuate (l_safety l)"
  using assms
  by (simp_all add: control_rx_cb_def handle_joint_cmd_def limb_setpoint_set_def bump_joint_cmd_rx_def limb_safety_op_def new_calls_def on_core_transition_def
    ps_safety_note_cmd_def ps_safety_core_on_cmd_def ps_safety_can_actuate_def dec_joint_cmd_def PS_WIRE_READ_def Let_def)

theorem limb_limits_hold_witness:
  "let l' = limb_run demo_lib (\<lambda>_. demo_stats) Leg_left [Control_frame 7 demo_torque]
     (limb_safety_glue_init (control_init_hw Leg_left False (\<lambda>_. []) (demo_limb PS_STATE_OPERATIONAL PS_JMODE_POSITION [0, 0])))
   in limb_ok Leg_left l' \<and> (\<exists>d iq. drive (control_turn demo_lib Leg_left demo_in l') ! 0 = Duty d \<and> d = current_loop demo_lib Leg_left demo_in 0 l' iq \<and>
     (iq = NaN \<or> xle iq (joint_limit Leg_left 0 l')))"
proof -
  let ?start = "limb_safety_glue_init (control_init_hw Leg_left False (\<lambda>_. []) (demo_limb PS_STATE_OPERATIONAL PS_JMODE_POSITION [0, 0]))"
  let ?l = "limb_run demo_lib (\<lambda>_. demo_stats) Leg_left [Control_frame 7 demo_torque] ?start"
  have g: "s_setpoints (limb_safety_glue_init x) = replicate 2 zero_setpoint" "l_safety (limb_safety_glue_init x) = l_safety x" for x :: "'a limb"
    by (simp_all add: limb_safety_glue_init_def limb_setpoint_zero_all_def)
  have h: "l_safety (control_init_hw nd im tr x) = l_safety x" for nd im tr and x :: "'a limb"
    by (simp add: control_init_hw_def init_joint_def Let_def)
  have "l_safety ?start = demo_safety PS_STATE_OPERATIONAL" unfolding g h by simp
  then have "sp_mode (s_setpoints ?l ! 0) = PS_JMODE_TORQUE \<and> ps_safety_can_actuate (l_safety ?l)"
    using g(1) [of "control_init_hw Leg_left False (\<lambda>_. []) (demo_limb PS_STATE_OPERATIONAL PS_JMODE_POSITION [0, 0])"]
    by (simp add: demo_joint_cmd ps_safety_can_actuate_def [of "demo_safety x" for x])
  moreover have len: "limb_lengths ?l" by (intro run_lengths init_lengths) (simp add: limb_lengths_def demo_limb_def Let_def)
  ultimately obtain d where d: "drive (control_turn demo_lib Leg_left demo_in ?l) ! 0 = Duty d"
    using joint_output_drive(2) [of 0 "turn_start demo_in ?l" demo_lib Leg_left demo_in "s_setpoints ?l ! 0"] turn_drive(3) [of ?l demo_lib Leg_left demo_in]
    by (auto simp: limb_lengths_def)
  have "limb_ok Leg_left ?l \<and> (\<forall>j<2. \<forall>d. drive (control_turn demo_lib Leg_left demo_in ?l) ! j = Duty d \<longrightarrow>
    (\<exists>iq. d = current_loop demo_lib Leg_left demo_in j ?l iq \<and> (iq \<noteq> NaN \<longrightarrow>
       xle (xneg (joint_limit Leg_left j ?l)) iq \<and> xle iq (joint_limit Leg_left j ?l) \<and>
       xle (xneg (current_limit (PS_LIMB_JOINTS Leg_left ! j) (torque_limit_cnm (PS_LIMB_JOINTS Leg_left ! j)))) iq \<and>
       xle iq (current_limit (PS_LIMB_JOINTS Leg_left ! j) (torque_limit_cnm (PS_LIMB_JOINTS Leg_left ! j))))))"
    by (rule limb_limits_hold [OF _ _ _ refl]) (simp_all add: demo_limb_def Let_def)
  then show ?thesis unfolding Let_def using d pos2 by blast
qed

theorem limb_estop_to_limp_witness:
  "let f = \<lparr> f_id = ps_can_id_pack 0 8 0 PS_T_ESTOP 0, f_dlc = 8, f_data = replicate 8 0 \<rparr>;
       l = demo_limb PS_STATE_OPERATIONAL PS_JMODE_POSITION [4000, 1500];
       l' = limb_run demo_lib (\<lambda>_. demo_stats) Arm_right [Safety_frame 1 f, Comms_turn, Safety_timer 5] l
   in drive (control_turn demo_lib Arm_right demo_in l') ! 0 \<in> {Brake, Disabled} \<and>
      s_setpoints (limb_step demo_lib (\<lambda>_. demo_stats) Arm_right (Safety_frame 1 f) l) = replicate 2 zero_setpoint"
  using limb_estop_to_limp [of "demo_limb PS_STATE_OPERATIONAL PS_JMODE_POSITION [4000, 1500]"
    "\<lparr> f_id = ps_can_id_pack 0 8 0 PS_T_ESTOP 0, f_dlc = 8, f_data = replicate 8 0 \<rparr>" "[Comms_turn, Safety_timer 5]"
    _ demo_lib "\<lambda>_. demo_stats" Arm_right 1 demo_in]
  by (simp add: Let_def ps_safety_core_init_def)

end
