(* ===== verification/Adpcm.thy ===== *)
theory Adpcm
  imports Prelude
begin

text \<open>
  The IMA ADPCM voice codec, \<open>common/c/src/adpcm_ima.c\<close>. Predictor and step index are 32-bit in the code
  and stay in the 16-bit range and in 0 to 88, which \<open>adpcm_ok\<close> states and every operation keeps; they
  and the samples are integers here. A 4-bit code is a byte.
\<close>

section \<open>Codec\<close>

definition STEP_TABLE :: "int list" where
  "STEP_TABLE = [
     7, 8, 9, 10, 11, 12, 13, 14, 16, 17,
     19, 21, 23, 25, 28, 31, 34, 37, 41, 45,
     50, 55, 60, 66, 73, 80, 88, 97, 107, 118,
     130, 143, 157, 173, 190, 209, 230, 253, 279, 307,
     337, 371, 408, 449, 494, 544, 598, 658, 724, 796,
     876, 963, 1060, 1166, 1282, 1411, 1552, 1707, 1878, 2066,
     2272, 2499, 2749, 3024, 3327, 3660, 4026, 4428, 4871, 5358,
     5894, 6484, 7132, 7845, 8630, 9493, 10442, 11487, 12635, 13899,
     15289, 16818, 18500, 20350, 22385, 24623, 27086, 29794, 32767]"

definition INDEX_TABLE :: "int list" where
  "INDEX_TABLE = [-1, -1, -1, -1, 2, 4, 6, 8, -1, -1, -1, -1, 2, 4, 6, 8]"

record ps_adpcm_state =
  predictor :: int
  step_index :: int

definition ps_adpcm_init :: ps_adpcm_state where
  "ps_adpcm_init = \<lparr> predictor = 0, step_index = 0 \<rparr>"

definition clamp16 :: "int \<Rightarrow> int" where
  "clamp16 v = (if v > 32767 then 32767 else if v < -32768 then -32768 else v)"

text \<open>The index update both directions share.\<close>

definition next_index :: "int \<Rightarrow> u8 \<Rightarrow> int" where
  "next_index i code =
     (let i = i + INDEX_TABLE ! unat code in if i < 0 then 0 else if i > 88 then 88 else i)"

text \<open>The successive approximation in the middle of \<open>encode_sample\<close>: code bits and the difference they stand for.\<close>

definition quantise :: "int \<Rightarrow> u8 \<Rightarrow> int \<Rightarrow> u8 \<times> int" where
  "quantise step code diff =
     (let vpdiff = step div 8;
          (code, diff, vpdiff) = (if diff \<ge> step then (code OR 4, diff - step, vpdiff + step) else (code, diff, vpdiff));
          step = step div 2;
          (code, diff, vpdiff) = (if diff \<ge> step then (code OR 2, diff - step, vpdiff + step) else (code, diff, vpdiff));
          step = step div 2
      in if diff \<ge> step then (code OR 1, vpdiff + step) else (code, vpdiff))"

definition encode_sample :: "ps_adpcm_state \<Rightarrow> int \<Rightarrow> u8 \<times> ps_adpcm_state" where
  "encode_sample st sample =
     (let step = STEP_TABLE ! nat (step_index st);
          diff = sample - predictor st;
          (code, diff) = (if diff < 0 then (8, - diff) else (0, diff));
          (code, vpdiff) = quantise step code diff;
          p = (if code AND 8 \<noteq> 0 then clamp16 (predictor st - vpdiff) else clamp16 (predictor st + vpdiff))
      in (code, \<lparr> predictor = p, step_index = next_index (step_index st) code \<rparr>))"

definition decode_sample :: "ps_adpcm_state \<Rightarrow> u8 \<Rightarrow> int \<times> ps_adpcm_state" where
  "decode_sample st code =
     (let step = STEP_TABLE ! nat (step_index st);
          vpdiff = step div 8;
          vpdiff = (if code AND 4 \<noteq> 0 then vpdiff + step else vpdiff);
          vpdiff = (if code AND 2 \<noteq> 0 then vpdiff + step div 2 else vpdiff);
          vpdiff = (if code AND 1 \<noteq> 0 then vpdiff + step div 4 else vpdiff);
          p = (if code AND 8 \<noteq> 0 then clamp16 (predictor st - vpdiff) else clamp16 (predictor st + vpdiff))
      in (p, \<lparr> predictor = p, step_index = next_index (step_index st) code \<rparr>))"

text \<open>Two samples a byte, the first in the low nibble; an odd last sample is not encoded.\<close>

fun ps_adpcm_encode :: "ps_adpcm_state \<Rightarrow> int list \<Rightarrow> bytes \<times> ps_adpcm_state" where
  "ps_adpcm_encode st (a # b # pcm) =
     (let (lo, st) = encode_sample st a;
          (hi, st) = encode_sample st b;
          (bs, st) = ps_adpcm_encode st pcm
      in ((lo OR push_bit 4 hi) # bs, st))"
| "ps_adpcm_encode st _ = ([], st)"

fun ps_adpcm_decode :: "ps_adpcm_state \<Rightarrow> bytes \<Rightarrow> int list \<times> ps_adpcm_state" where
  "ps_adpcm_decode st [] = ([], st)"
| "ps_adpcm_decode st (x # bs) =
     (let (a, st) = decode_sample st (x AND 0xF);
          (b, st) = decode_sample st (drop_bit 4 x);
          (pcm, st) = ps_adpcm_decode st bs
      in (a # b # pcm, st))"

section \<open>Invariant\<close>

definition adpcm_ok :: "ps_adpcm_state \<Rightarrow> bool" where
  "adpcm_ok st \<longleftrightarrow> -32768 \<le> predictor st \<and> predictor st \<le> 32767 \<and> 0 \<le> step_index st \<and> step_index st \<le> 88"

lemma clamp16_range: "-32768 \<le> clamp16 v" "clamp16 v \<le> 32767"
  by (simp_all add: clamp16_def)

lemma next_index_range: "0 \<le> next_index i c" "next_index i c \<le> 88"
  by (simp_all add: next_index_def Let_def)

lemma adpcm_ok_init: "adpcm_ok ps_adpcm_init"
  by (simp add: adpcm_ok_def ps_adpcm_init_def)

lemma adpcm_ok_encode_sample: "adpcm_ok (snd (encode_sample st s))"
  by (simp add: encode_sample_def Let_def case_prod_unfold adpcm_ok_def clamp16_range next_index_range)

lemma adpcm_ok_decode_sample: "adpcm_ok (snd (decode_sample st c))"
  by (simp add: decode_sample_def Let_def adpcm_ok_def clamp16_range next_index_range)

lemma step_table_range:
  assumes "0 \<le> i" "i \<le> 88"
  shows "7 \<le> STEP_TABLE ! nat i" "STEP_TABLE ! nat i \<le> 32767"
proof -
  have "nat i < length STEP_TABLE" using assms by (simp add: STEP_TABLE_def)
  then have "STEP_TABLE ! nat i \<in> set STEP_TABLE" by simp
  then show "7 \<le> STEP_TABLE ! nat i" "STEP_TABLE ! nat i \<le> 32767" by (auto simp: STEP_TABLE_def)
qed

section \<open>The decoder tracks the encoder\<close>

text \<open>The code the quantiser makes of its three decisions, and the difference a code stands for.\<close>

definition code_of :: "u8 \<Rightarrow> bool \<Rightarrow> bool \<Rightarrow> bool \<Rightarrow> u8" where
  "code_of k a b c = k OR (if a then 4 else 0) OR (if b then 2 else 0) OR (if c then 1 else 0)"

definition vp_of :: "int \<Rightarrow> bool \<Rightarrow> bool \<Rightarrow> bool \<Rightarrow> int" where
  "vp_of step a b c = step div 8 + (if a then step else 0) + (if b then step div 2 else 0) + (if c then step div 4 else 0)"

lemma quantise_bits: "\<exists>a b c. quantise step k d = (code_of k a b c, vp_of step a b c)"
proof -
  have q: "x div 2 div 2 = x div 4" for x :: int by (simp add: div_mult2_eq [symmetric])
  define d1 where "d1 = (if d \<ge> step then d - step else d)"
  define d2 where "d2 = (if d1 \<ge> step div 2 then d1 - step div 2 else d1)"
  have "quantise step k d = (code_of k (d \<ge> step) (d1 \<ge> step div 2) (d2 \<ge> step div 4),
      vp_of step (d \<ge> step) (d1 \<ge> step div 2) (d2 \<ge> step div 4))"
    unfolding quantise_def code_of_def vp_of_def Let_def q d2_def d1_def
    by (cases "d \<ge> step"; simp; cases "d1 \<ge> step div 2"; simp add: d1_def or.assoc)
  then show ?thesis by blast
qed

lemma decode_code_of:
  assumes "k = 0 \<or> k = 8"
  shows "decode_sample st (code_of k a b c) =
    (let v = vp_of (STEP_TABLE ! nat (step_index st)) a b c;
         p = clamp16 (if k = 8 then predictor st - v else predictor st + v)
     in (p, \<lparr> predictor = p, step_index = next_index (step_index st) (code_of k a b c) \<rparr>))"
  using assms by (cases a; cases b; cases c) (auto simp: decode_sample_def code_of_def vp_of_def Let_def)

lemma code_of_small:
  assumes "k = 0 \<or> k = 8"
  shows "code_of k a b c < 16" "(code_of k a b c AND 8 \<noteq> 0) = (k = 8)"
  using assms by (cases a; cases b; cases c; auto simp: code_of_def)+

lemma decode_encode_sample:
  assumes "encode_sample st s = (code, st')"
  shows "decode_sample st code = (predictor st', st')" "code < 16"
proof -
  define k :: u8 where "k = (if s - predictor st < 0 then 8 else 0)"
  have k: "k = 0 \<or> k = 8" by (simp add: k_def)
  obtain a b c where q: "quantise (STEP_TABLE ! nat (step_index st)) k \<bar>s - predictor st\<bar> =
      (code_of k a b c, vp_of (STEP_TABLE ! nat (step_index st)) a b c)" using quantise_bits by blast
  have "encode_sample st s = (code_of k a b c,
     \<lparr> predictor = clamp16 (if k = 8 then predictor st - vp_of (STEP_TABLE ! nat (step_index st)) a b c
         else predictor st + vp_of (STEP_TABLE ! nat (step_index st)) a b c),
       step_index = next_index (step_index st) (code_of k a b c) \<rparr>)"
    using q code_of_small(2) [OF k, of a b c] by (auto simp: encode_sample_def Let_def k_def abs_if)
  then show "decode_sample st code = (predictor st', st')" "code < 16"
    using assms decode_code_of [OF k, of st a b c] code_of_small(1) [OF k] by (auto simp: Let_def)
qed

lemma nibbles:
  assumes "lo < 16" "hi < (16 :: u8)"
  shows "(lo OR push_bit 4 hi) AND 0xF = lo" "drop_bit 4 (lo OR push_bit 4 hi) = hi"
proof -
  have small: "take_bit 4 x = x" if "x < 16" for x :: u8
    using that by (intro take_bit_unat_small) (simp add: word_less_nat_alt)
  have b: "n < 4" if "x < 16" "bit x n" for x :: u8 and n
    using small [OF that(1)] that(2) by (metis bit_take_bit_iff)
  show "(lo OR push_bit 4 hi) AND 0xF = lo"
    unfolding mask_simps by (rule bit_word_eqI) (use b [OF assms(1)] in \<open>auto simp: bit_simps\<close>)
  show "drop_bit 4 (lo OR push_bit 4 hi) = hi"
    by (rule bit_word_eqI) (use b [OF assms(1)] b [OF assms(2)] in \<open>fastforce simp: bit_simps\<close>)
qed

text \<open>What a listener hears of a signal: the encoder's own reconstruction, sample by sample.\<close>

fun reconstruct :: "ps_adpcm_state \<Rightarrow> int list \<Rightarrow> int list \<times> ps_adpcm_state" where
  "reconstruct st [] = ([], st)"
| "reconstruct st (s # pcm) =
     (let st = snd (encode_sample st s); (out, st') = reconstruct st pcm in (predictor st # out, st'))"

lemma encode_step:
  assumes "encode_sample st a = (lo, st1)" "encode_sample st1 b = (hi, st2)"
  shows "ps_adpcm_encode st (a # b # pcm) =
    ((lo OR push_bit 4 hi) # fst (ps_adpcm_encode st2 pcm), snd (ps_adpcm_encode st2 pcm))"
  using assms by (simp add: Let_def case_prod_unfold)

lemma reconstruct_step:
  assumes "encode_sample st a = (lo, st1)" "encode_sample st1 b = (hi, st2)"
  shows "reconstruct st (a # b # pcm) =
    (predictor st1 # predictor st2 # fst (reconstruct st2 pcm), snd (reconstruct st2 pcm))"
  using assms by (simp add: Let_def case_prod_unfold)

lemma length_encode: "length (fst (ps_adpcm_encode st pcm)) = length pcm div 2"
  by (induction pcm arbitrary: st rule: induct_list012) (simp_all add: Let_def case_prod_unfold)

lemma reconstruct_append:
  "reconstruct st (xs @ ys) = (fst (reconstruct st xs) @ fst (reconstruct (snd (reconstruct st xs)) ys),
     snd (reconstruct (snd (reconstruct st xs)) ys))"
  by (induction xs arbitrary: st) (simp_all add: Let_def case_prod_unfold)

lemma length_reconstruct [simp]: "length (fst (reconstruct st pcm)) = length pcm"
  by (induction pcm arbitrary: st) (simp_all add: Let_def case_prod_unfold)

lemma encode_state: "even (length pcm) \<Longrightarrow> snd (ps_adpcm_encode st pcm) = snd (reconstruct st pcm)"
  by (induction pcm arbitrary: st rule: induct_list012) (simp_all add: Let_def case_prod_unfold)

lemma adpcm_ok_reconstruct: "adpcm_ok st \<Longrightarrow> adpcm_ok (snd (reconstruct st pcm))"
  by (induction pcm arbitrary: st) (simp_all add: Let_def case_prod_unfold adpcm_ok_encode_sample)

lemma decode_encode:
  "even (length pcm) \<Longrightarrow> ps_adpcm_decode st (fst (ps_adpcm_encode st pcm)) = reconstruct st pcm"
proof (induction pcm arbitrary: st rule: induct_list012)
  case (3 a b pcm)
  obtain lo st1 where lo: "encode_sample st a = (lo, st1)" by fastforce
  obtain hi st2 where hi: "encode_sample st1 b = (hi, st2)" by fastforce
  have "ps_adpcm_decode st2 (fst (ps_adpcm_encode st2 pcm)) = reconstruct st2 pcm" using 3 by simp
  then show ?case
    using decode_encode_sample [OF lo] decode_encode_sample [OF hi]
      nibbles [OF decode_encode_sample(2) [OF lo] decode_encode_sample(2) [OF hi]]
    unfolding encode_step [OF lo hi] reconstruct_step [OF lo hi]
    by (simp add: case_prod_unfold Let_def)
qed simp_all

lemma residue_bound:
  fixes r s2 s4 s8 :: int
  assumes "0 \<le> r" "r \<le> s2" "2 * s4 \<le> s2" "s2 \<le> 2 * s4 + 1" "2 * s8 \<le> s4" "s4 \<le> 2 * s8 + 1"
  shows "\<bar>r - s8 - (if r \<ge> s4 then s4 else 0)\<bar> \<le> s8 + 2"
  using assms by (simp add: abs_if)

lemma quantise_error:
  assumes "0 \<le> d" "d < 2 * step" "7 \<le> step" "quantise step k d = (code, v)"
  shows "\<bar>d - v\<bar> \<le> step div 8 + 2"
proof -
  have q: "x div 2 div 2 = x div 4" for x :: int by (simp add: div_mult2_eq [symmetric])
  have b: "2 * (step div 2) \<le> step" "step \<le> 2 * (step div 2) + 1" "2 * (step div 4) \<le> step div 2"
    "step div 2 \<le> 2 * (step div 4) + 1" "2 * (step div 8) \<le> step div 4" "step div 4 \<le> 2 * (step div 8) + 1" by presburger+
  define d1 where "d1 = (if d \<ge> step then d - step else d)"
  define d2 where "d2 = (if d1 \<ge> step div 2 then d1 - step div 2 else d1)"
  have v: "v = step div 8 + (d - d2) + (if d2 \<ge> step div 4 then step div 4 else 0)"
    using assms(4) by (auto simp: quantise_def Let_def q d1_def d2_def split: if_splits)
  have "0 \<le> d1" "d1 < step" using assms(1,2) by (auto simp: d1_def)
  then have "0 \<le> d2" "d2 \<le> step div 2" using b by (auto simp: d2_def)
  then have "\<bar>d2 - step div 8 - (if d2 \<ge> step div 4 then step div 4 else 0)\<bar> \<le> step div 8 + 2"
    using b by (intro residue_bound)
  then show ?thesis unfolding v by (simp add: algebra_simps)
qed

lemma clamp16_closer: "-32768 \<le> s \<Longrightarrow> s \<le> 32767 \<Longrightarrow> \<bar>s - clamp16 v\<bar> \<le> \<bar>s - v\<bar>"
  by (simp add: clamp16_def)

lemma vp_of_quantise: "quantise step 8 d = (code, v) \<Longrightarrow> quantise step 0 d = (code', v') \<Longrightarrow> v = v'"
  by (auto simp: quantise_def Let_def split: if_splits)

section \<open>Properties\<close>

text \<open>Codec round trip: for any state and any even number of samples the decoder, started in the
  encoder's state, outputs exactly the encoder's reconstruction, two samples a byte, and ends in
  the encoder's final state, with predictor and step index back in range.\<close>

lemma adpcm_roundtrip:
  assumes "even (length pcm)" "adpcm_ok st"
  shows "ps_adpcm_decode st (fst (ps_adpcm_encode st pcm)) = reconstruct st pcm \<and>
    snd (ps_adpcm_decode st (fst (ps_adpcm_encode st pcm))) = snd (ps_adpcm_encode st pcm) \<and>
    length (fst (ps_adpcm_encode st pcm)) = length pcm div 2 \<and> adpcm_ok (snd (ps_adpcm_encode st pcm))"
  using assms by (simp add: decode_encode encode_state length_encode adpcm_ok_reconstruct)

text \<open>Tracking error: as long as the signal moves less than two steps from the prediction, the
  reconstructed sample is within an eighth of the step, plus two, of the real one.\<close>

lemma adpcm_tracking_error:
  assumes "adpcm_ok st" "-32768 \<le> s" "s \<le> 32767" "\<bar>s - predictor st\<bar> < 2 * STEP_TABLE ! nat (step_index st)"
  shows "\<bar>s - predictor (snd (encode_sample st s))\<bar> \<le> STEP_TABLE ! nat (step_index st) div 8 + 2"
proof -
  let ?step = "STEP_TABLE ! nat (step_index st)" and ?d = "\<bar>s - predictor st\<bar>"
  define k :: u8 where "k = (if s - predictor st < 0 then 8 else 0)"
  have k: "k = 0 \<or> k = 8" by (simp add: k_def)
  obtain a b c where q: "quantise ?step k ?d = (code_of k a b c, vp_of ?step a b c)" using quantise_bits by blast
  have "7 \<le> ?step" using assms(1) by (intro step_table_range) (simp_all add: adpcm_ok_def)
  then have e: "\<bar>?d - vp_of ?step a b c\<bar> \<le> ?step div 8 + 2" using quantise_error [OF _ assms(4) _ q] by simp
  let ?v = "if k = 8 then predictor st - vp_of ?step a b c else predictor st + vp_of ?step a b c"
  have "predictor (snd (encode_sample st s)) = clamp16 ?v"
    using q code_of_small(2) [OF k, of a b c] by (auto simp: encode_sample_def Let_def k_def abs_if)
  moreover have "\<bar>s - ?v\<bar> = \<bar>?d - vp_of ?step a b c\<bar>" by (auto simp: k_def)
  ultimately show ?thesis using clamp16_closer [OF assms(2,3), of ?v] e by simp
qed

end
