(* ===== verification/Audio.thy ===== *)
theory Audio
  imports Adpcm Can_Id Wire
begin

text \<open>
  The AUDIO plane, \<open>firmware/components/ps_audio\<close>: the packetizer, the depacketizer with its sample ring
  (\<open>audio_pkt.c\<close>) and the voice gate (\<open>energy_gate.c\<close>). Frames handed to the emit callback are returned
  as a list, in order.
\<close>

section \<open>Packetizer\<close>

abbreviation PS_AUDIO_FRAME_BYTES :: nat where "PS_AUDIO_FRAME_BYTES \<equiv> 8"
abbreviation PS_AUDIO_FRAME_SAMPLES :: nat where "PS_AUDIO_FRAME_SAMPLES \<equiv> 16"
abbreviation PS_AUDIO_SYNC_INTERVAL :: u32 where "PS_AUDIO_SYNC_INTERVAL \<equiv> 50"
abbreviation PS_AUDIO_DIR_DOWN :: u8 where "PS_AUDIO_DIR_DOWN \<equiv> 0"
abbreviation PS_AUDIO_DIR_UP :: u8 where "PS_AUDIO_DIR_UP \<equiv> 1"
abbreviation PS_AUDIO_RX_RING_SAMPLES :: nat where "PS_AUDIO_RX_RING_SAMPLES \<equiv> 4096"

text \<open>An emitted frame: identifier, payload, length.\<close>

type_synonym audio_frame = "u32 \<times> bytes \<times> u8"

record ps_audio_tx =
  enc :: ps_adpcm_state
  frame_seq :: u16
  dir :: u8
  src_node :: u8
  dst_node :: u8
  frames_since_sync :: u32
  tx_started :: bool
  pending :: "int list" \<comment> \<open>\<open>int16_t pending[16]\<close>\<close>
  pending_n :: nat

definition ps_audio_tx_init :: "u8 \<Rightarrow> u8 \<Rightarrow> u8 \<Rightarrow> ps_audio_tx \<Rightarrow> ps_audio_tx" where
  "ps_audio_tx_init d src dst tx =
     tx\<lparr>enc := ps_adpcm_init, frame_seq := 0, dir := d, src_node := src, dst_node := dst,
        frames_since_sync := 0, tx_started := False, pending_n := 0\<rparr>"

definition tx_emit_sync :: "ps_audio_tx \<Rightarrow> audio_frame \<times> ps_audio_tx" where
  "tx_emit_sync tx =
     (let s = \<lparr> ay_dir = dir tx, ay_step_index = of_int (step_index (enc tx)),
                ay_predictor = of_int (predictor (enc tx)), ay_frame_seq = frame_seq tx, ay_rsvd = 0 \<rparr>
      in ((ps_can_id_pack PS_CLS_AUDIO (src_node tx) (dst_node tx) PS_T_AUDIO_SYNC (ucast (frame_seq tx AND 0xFF)),
           enc_audio_sync s, 8),
          tx\<lparr>frames_since_sync := 0, tx_started := True\<rparr>))"

definition ps_audio_tx_sync :: "ps_audio_tx \<Rightarrow> audio_frame \<times> ps_audio_tx" where
  "ps_audio_tx_sync tx = tx_emit_sync tx"

text \<open>What happens when 16 samples are pending: a SYNC when one is due, then the frame.\<close>

definition tx_emit_frame :: "ps_audio_tx \<Rightarrow> audio_frame list \<times> ps_audio_tx" where
  "tx_emit_frame tx =
     (let (sync, tx) = (if \<not> tx_started tx \<or> frames_since_sync tx \<ge> PS_AUDIO_SYNC_INTERVAL
                        then (case tx_emit_sync tx of (f, tx) \<Rightarrow> ([f], tx)) else ([], tx));
          (adpcm, st) = ps_adpcm_encode (enc tx) (take PS_AUDIO_FRAME_SAMPLES (pending tx));
          tx = tx\<lparr>enc := st\<rparr>;
          ty = (if dir tx = PS_AUDIO_DIR_UP then PS_T_AUDIO_UP else PS_T_AUDIO_DOWN);
          f = (ps_can_id_pack PS_CLS_AUDIO (src_node tx) (dst_node tx) ty (ucast (frame_seq tx AND 0xFF)),
               adpcm, of_nat PS_AUDIO_FRAME_BYTES)
      in (sync @ [f], tx\<lparr>frame_seq := frame_seq tx + 1, frames_since_sync := frames_since_sync tx + 1, pending_n := 0\<rparr>))"

text \<open>The push loop with fuel, one unit a round; \<open>None\<close> when it is spent. Every round takes a
  sample, so the number of samples is enough (\<open>tx_push_returns\<close> below).\<close>

fun tx_push_loop :: "nat \<Rightarrow> ps_audio_tx \<Rightarrow> int list \<Rightarrow> (audio_frame list \<times> nat \<times> ps_audio_tx) option" where
  "tx_push_loop _ tx [] = Some ([], 0, tx)"
| "tx_push_loop 0 tx (_ # _) = None"
| "tx_push_loop (Suc fuel) tx (s # pcm) =
     (let n = length (s # pcm);
          k = min (PS_AUDIO_FRAME_SAMPLES - pending_n tx) n;
          tx = tx\<lparr>pending := blit (pending_n tx) (take k (s # pcm)) (pending tx), pending_n := pending_n tx + k\<rparr>;
          rest = drop k (s # pcm)
      in if pending_n tx = PS_AUDIO_FRAME_SAMPLES then
           (case tx_emit_frame tx of (fs, tx) \<Rightarrow>
              map_option (\<lambda>(fs', m, tx). (fs @ fs', Suc m, tx)) (tx_push_loop fuel tx rest))
         else tx_push_loop fuel tx rest)"

definition ps_audio_tx_push :: "ps_audio_tx \<Rightarrow> int list \<Rightarrow> (audio_frame list \<times> nat \<times> ps_audio_tx) option" where
  "ps_audio_tx_push tx pcm = tx_push_loop (length pcm) tx pcm"

section \<open>Depacketizer\<close>

record ps_audio_rx =
  dec :: ps_adpcm_state
  expect_seq :: u16
  locked :: bool
  gaps :: u32
  rx_ring :: "int list" \<comment> \<open>\<open>int16_t ring[4096]\<close>\<close>
  rx_head :: nat
  rx_tail :: nat

definition ps_audio_rx_init :: "ps_audio_rx \<Rightarrow> ps_audio_rx" where
  "ps_audio_rx_init rx =
     rx\<lparr>dec := ps_adpcm_init, expect_seq := 0, locked := False, gaps := 0, rx_head := 0, rx_tail := 0\<rparr>"

fun rx_ring_push :: "ps_audio_rx \<Rightarrow> int list \<Rightarrow> ps_audio_rx" where
  "rx_ring_push rx [] = rx"
| "rx_ring_push rx (s # ss) =
     (let rx = rx\<lparr>rx_ring := (rx_ring rx)[rx_head rx := s]\<rparr>;
          rx = rx\<lparr>rx_head := (rx_head rx + 1) mod PS_AUDIO_RX_RING_SAMPLES\<rparr>;
          rx = (if rx_head rx = rx_tail rx then rx\<lparr>rx_tail := (rx_tail rx + 1) mod PS_AUDIO_RX_RING_SAMPLES\<rparr> else rx)
      in rx_ring_push rx ss)"

definition ps_audio_rx_on_frame :: "ps_audio_rx \<Rightarrow> audio_frame \<Rightarrow> ps_audio_rx" where
  "ps_audio_rx_on_frame rx fr =
     (case fr of (i, data, dlc) \<Rightarrow>
      if ps_can_id_cls i \<noteq> PS_CLS_AUDIO then rx
      else
        let ty = ps_can_id_type i in
        if ty = PS_T_AUDIO_SYNC then
          (if dlc < 8 then rx
           else
             let s = PS_WIRE_READ dec_audio_sync data;
                 si = int (unat (ay_step_index s));
                 rx = rx\<lparr>dec := \<lparr> predictor = sint (ay_predictor s), step_index = (if si > 88 then 88 else si) \<rparr>\<rparr>;
                 rx = rx\<lparr>expect_seq := ay_frame_seq s AND 0xFF\<rparr>
             in rx\<lparr>locked := True\<rparr>)
        else if ty = PS_T_AUDIO_UP \<or> ty = PS_T_AUDIO_DOWN then
          (if dlc \<noteq> of_nat PS_AUDIO_FRAME_BYTES then rx
           else if \<not> locked rx then rx
           else if ps_can_id_low i = ucast (expect_seq rx) then
             (let (pcm, st) = ps_adpcm_decode (dec rx) (take PS_AUDIO_FRAME_BYTES data);
                  rx = rx_ring_push (rx\<lparr>dec := st\<rparr>) pcm
              in rx\<lparr>expect_seq := (expect_seq rx + 1) AND 0xFF\<rparr>)
           else
             (let rx = rx_ring_push rx (replicate PS_AUDIO_FRAME_SAMPLES 0)
              in rx\<lparr>gaps := gaps rx + 1, locked := False\<rparr>))
        else rx)"

definition ps_audio_rx_available :: "ps_audio_rx \<Rightarrow> nat" where
  "ps_audio_rx_available rx =
     (rx_head rx + PS_AUDIO_RX_RING_SAMPLES - rx_tail rx) mod PS_AUDIO_RX_RING_SAMPLES"

fun rx_pull_loop :: "nat \<Rightarrow> ps_audio_rx \<Rightarrow> int list \<times> ps_audio_rx" where
  "rx_pull_loop 0 rx = ([], rx)"
| "rx_pull_loop (Suc n) rx =
     (let s = rx_ring rx ! rx_tail rx;
          rx = rx\<lparr>rx_tail := (rx_tail rx + 1) mod PS_AUDIO_RX_RING_SAMPLES\<rparr>;
          (ss, rx) = rx_pull_loop n rx
      in (s # ss, rx))"

definition ps_audio_rx_pull :: "ps_audio_rx \<Rightarrow> nat \<Rightarrow> int list \<times> ps_audio_rx" where
  "ps_audio_rx_pull rx max_samples = rx_pull_loop (min max_samples (ps_audio_rx_available rx)) rx"

section \<open>The sample ring\<close>

definition rx_ok :: "ps_audio_rx \<Rightarrow> bool" where
  "rx_ok rx \<longleftrightarrow> length (rx_ring rx) = 4096 \<and> rx_head rx < 4096 \<and> rx_tail rx < 4096"

definition rx_buffered :: "ps_audio_rx \<Rightarrow> int list" where
  "rx_buffered rx = ring_items 4096 (rx_ring rx) (rx_tail rx) (ps_audio_rx_available rx)"

lemma ring_distance:
  assumes "t < c" "n < c"
  shows "((t + n) mod c + c - t) mod c = (n :: nat)"
proof (cases "t + n < c")
  case False
  then have "(t + n) mod c = t + n - c" using assms by (simp add: le_mod_geq)
  then show ?thesis using False assms by simp
qed (use assms in simp)

lemma rx_available:
  assumes "rx_ok rx"
  shows "ps_audio_rx_available rx < 4096" "rx_head rx = (rx_tail rx + ps_audio_rx_available rx) mod 4096"
  using assms by (simp_all add: ps_audio_rx_available_def rx_ok_def mod_simps)

lemma available_eq: "rx_ok rx \<Longrightarrow> n < 4096 \<Longrightarrow> rx_head rx = (rx_tail rx + n) mod 4096 \<Longrightarrow> ps_audio_rx_available rx = n"
  unfolding ps_audio_rx_available_def rx_ok_def by (simp only: ring_distance)

lemma length_rx_buffered: "rx_ok rx \<Longrightarrow> length (rx_buffered rx) \<le> 4095"
  using rx_available(1) [of rx] by (simp add: rx_buffered_def)

lemma ring_push_one:
  assumes "rx_ok rx"
  shows "rx_ok (rx_ring_push rx [s]) \<and> rx_buffered (rx_ring_push rx [s]) = keep_last 4095 (rx_buffered rx @ [s])"
proof -
  let ?n = "ps_audio_rx_available rx" and ?t = "rx_tail rx" and ?r = "(rx_ring rx)[rx_head rx := s]"
  note av = rx_available [OF assms]
  have h: "(rx_head rx + 1) mod 4096 = (?t + Suc ?n) mod 4096" using av(2) by (simp add: mod_simps)
  have put: "ring_items 4096 ?r ?t (Suc ?n) = rx_buffered rx @ [s]"
    using ring_items_put [OF av(1), of "rx_ring rx" ?t s] assms av(2) by (simp add: rx_buffered_def rx_ok_def)
  have t: "?t < 4096" using assms by (simp add: rx_ok_def)
  show ?thesis
  proof (cases "?n = 4095")
    case True
    then have full: "(rx_head rx + 1) mod 4096 = ?t" using h t by simp
    let ?rx = "rx\<lparr>rx_ring := ?r, rx_head := ?t, rx_tail := (?t + 1) mod 4096\<rparr>"
    have e: "rx_ring_push rx [s] = ?rx" using full by (simp add: Let_def)
    have ok: "rx_ok ?rx" using assms by (simp add: rx_ok_def)
    have "ps_audio_rx_available ?rx = 4095" using t by (intro available_eq [OF ok]) (simp_all add: mod_simps)
    then have "rx_buffered ?rx = tl (rx_buffered rx @ [s])"
      using ring_items_get [OF t, of "Suc ?n" ?r] put True
      by (metis (no_types, lifting) Suc_eq_plus1 diff_Suc_1 list.sel(3) ps_audio_rx.select_convs(5,7)
          ps_audio_rx.surjective ps_audio_rx.update_convs(5-7) rx_buffered_def zero_less_Suc)
    then show ?thesis using e ok True by (simp add: keep_last_snoc rx_buffered_def) (simp add: ring_items_def)
  next
    case False
    then have n: "Suc ?n < 4096" using av(1) by simp
    have "(rx_head rx + 1) mod 4096 \<noteq> ?t" using mod_ring_inj [of 0 "Suc ?n" 4096 ?t] n t h by simp
    then have e: "rx_ring_push rx [s] = rx\<lparr>rx_ring := ?r, rx_head := (rx_head rx + 1) mod 4096\<rparr>" (is "_ = ?rx")
      by (simp add: Let_def)
    have ok: "rx_ok ?rx" using assms by (simp add: rx_ok_def)
    have "ps_audio_rx_available ?rx = Suc ?n" using h n by (intro available_eq [OF ok]) simp_all
    then have "rx_buffered ?rx = rx_buffered rx @ [s]" using put by (simp add: rx_buffered_def)
    then show ?thesis using e ok False av(1) by (simp add: keep_last_snoc rx_buffered_def)
  qed
qed

lemma ring_push:
  "rx_ok rx \<Longrightarrow> rx_ok (rx_ring_push rx ss) \<and> rx_buffered (rx_ring_push rx ss) = keep_last 4095 (rx_buffered rx @ ss)"
proof (induction ss arbitrary: rx)
  case Nil
  then show ?case using length_rx_buffered by (simp add: keep_last_all)
next
  case (Cons s ss)
  have "rx_ring_push rx (s # ss) = rx_ring_push (rx_ring_push rx [s]) ss" by (simp add: Let_def)
  then show ?case using ring_push_one [OF Cons.prems, of s] Cons.IH [of "rx_ring_push rx [s]"]
    keep_last_append [of 4095 "rx_buffered rx @ [s]" ss] by simp
qed

lemma ring_push_fields [simp]:
  "dec (rx_ring_push rx ss) = dec rx" "expect_seq (rx_ring_push rx ss) = expect_seq rx"
  "locked (rx_ring_push rx ss) = locked rx" "gaps (rx_ring_push rx ss) = gaps rx"
  by (induction ss arbitrary: rx) (simp_all add: Let_def)

lemma rx_pull_loop:
  assumes "rx_ok rx" "n \<le> ps_audio_rx_available rx"
  shows "rx_ok (snd (rx_pull_loop n rx)) \<and> rx_buffered rx = fst (rx_pull_loop n rx) @ rx_buffered (snd (rx_pull_loop n rx))"
  using assms
proof (induction n arbitrary: rx)
  case (Suc n)
  let ?t = "rx_tail rx" and ?a = "ps_audio_rx_available rx"
  let ?rx = "rx\<lparr>rx_tail := (?t + 1) mod 4096\<rparr>"
  have ok: "rx_ok ?rx" and t: "?t < 4096" using Suc.prems(1) by (simp_all add: rx_ok_def)
  have "?t + 1 + (?a - 1) = ?t + ?a" using Suc.prems(2) by simp
  then have "((?t + 1) mod 4096 + (?a - 1)) mod 4096 = (?t + ?a) mod 4096" by (metis mod_add_left_eq)
  then have "ps_audio_rx_available ?rx = ?a - 1"
    using rx_available [OF Suc.prems(1)] by (intro available_eq [OF ok]) simp_all
  moreover from this have "rx_buffered rx = rx_ring rx ! ?t # rx_buffered ?rx"
    using ring_items_get [OF t, of ?a "rx_ring rx"] Suc.prems(2) by (simp add: rx_buffered_def)
  ultimately show ?case using Suc.IH [OF ok] Suc.prems(2) by (simp add: Let_def case_prod_unfold)
qed simp

section \<open>Sender and receiver in step\<close>

definition tx_ok :: "ps_audio_tx \<Rightarrow> bool" where
  "tx_ok tx \<longleftrightarrow> length (pending tx) = 16 \<and> pending_n tx < 16 \<and> adpcm_ok (enc tx)"

text \<open>The receiver is locked on the sender: its decoder is in the state of the encoder and it
  expects the sender's next frame.\<close>

definition synced :: "ps_audio_tx \<Rightarrow> ps_audio_rx \<Rightarrow> bool" where
  "synced tx rx \<longleftrightarrow> tx_started tx \<and> locked rx \<and> dec rx = enc tx \<and> expect_seq rx = frame_seq tx AND 0xFF"

definition feed :: "ps_audio_rx \<Rightarrow> audio_frame list \<Rightarrow> ps_audio_rx" where
  "feed = foldl ps_audio_rx_on_frame"

lemma feed_simps [simp]: "feed rx [] = rx" "feed rx (f # fs) = feed (ps_audio_rx_on_frame rx f) fs"
  "feed rx (fs @ gs) = feed (feed rx fs) gs"
  by (simp_all add: feed_def)

lemma sint_of_int16: "-32768 \<le> p \<Longrightarrow> p \<le> 32767 \<Longrightarrow> sint (of_int p :: i16) = p"
  by (simp add: signed_of_int signed_take_bit_int_eq_self)

lemma unat_of_int8: "0 \<le> i \<Longrightarrow> i \<le> 88 \<Longrightarrow> int (unat (of_int i :: u8)) = i"
  by (simp add: unsigned_of_int take_bit_int_eq_self)

lemma sync_locks:
  assumes "adpcm_ok (enc tx)" "tx_emit_sync tx = (f, tx')"
  shows "ps_audio_rx_on_frame rx f = rx\<lparr>dec := enc tx, expect_seq := frame_seq tx AND 0xFF, locked := True\<rparr>"
    and "tx' = tx\<lparr>frames_since_sync := 0, tx_started := True\<rparr>"
proof -
  let ?s = "\<lparr> ay_dir = dir tx, ay_step_index = of_int (step_index (enc tx)),
                ay_predictor = of_int (predictor (enc tx)), ay_frame_seq = frame_seq tx, ay_rsvd = 0 \<rparr>"
  have f: "f = (ps_can_id_pack PS_CLS_AUDIO (src_node tx) (dst_node tx) PS_T_AUDIO_SYNC (ucast (frame_seq tx AND 0xFF)),
           enc_audio_sync ?s, 8)" and t: "tx' = tx\<lparr>frames_since_sync := 0, tx_started := True\<rparr>"
    using assms(2) by (simp_all add: tx_emit_sync_def Let_def)
  have "PS_WIRE_READ dec_audio_sync (enc_audio_sync ?s) = ?s" by (simp add: PS_WIRE_READ_def)
  moreover have "sint (ay_predictor ?s) = predictor (enc tx)" "int (unat (ay_step_index ?s)) = step_index (enc tx)"
    "step_index (enc tx) \<le> 88"
    using assms(1) by (simp_all only: adpcm_ok_def ps_audio_sync.select_convs sint_of_int16 unat_of_int8)
  ultimately show "ps_audio_rx_on_frame rx f = rx\<lparr>dec := enc tx, expect_seq := frame_seq tx AND 0xFF, locked := True\<rparr>"
    unfolding f ps_audio_rx_on_frame_def Let_def by (simp del: of_nat_unat)
  show "tx' = tx\<lparr>frames_since_sync := 0, tx_started := True\<rparr>" by (rule t)
qed

lemma seq_next: "((x AND 0xFF) + 1) AND 0xFF = (x + 1) AND (0xFF :: u16)"
proof -
  have "(a mod 256 + 1) mod 65536 mod 256 = (a + 1) mod 65536 mod (256 :: nat)" for a
    by (simp add: mod_mod_cancel mod_simps)
  then have "unat (take_bit 8 (take_bit 8 x + 1)) = unat (take_bit 8 (x + 1))"
    by (simp only: unsigned_take_bit_eq unat_word_ariths take_bit_eq_mod) simp
  then show ?thesis unfolding mask_simps by (simp only: word_unat_eq_iff)
qed

text \<open>The frame proper, to a receiver in step.\<close>

lemma data_frame_decoded:
  assumes "synced tx rx" "rx_ok rx" "length pcm = 16" "ty = PS_T_AUDIO_UP \<or> ty = PS_T_AUDIO_DOWN"
    and "rx' = ps_audio_rx_on_frame rx (ps_can_id_pack PS_CLS_AUDIO src dst ty (ucast (frame_seq tx AND 0xFF)),
           fst (ps_adpcm_encode (enc tx) pcm), of_nat 8)"
  shows "rx_ok rx' \<and> locked rx' \<and> gaps rx' = gaps rx \<and> dec rx' = snd (reconstruct (enc tx) pcm) \<and>
    expect_seq rx' = (frame_seq tx + 1) AND 0xFF \<and>
    rx_buffered rx' = keep_last 4095 (rx_buffered rx @ fst (reconstruct (enc tx) pcm))"
proof -
  let ?data = "fst (ps_adpcm_encode (enc tx) pcm)"
  have "length ?data = 8" using assms(3) by (simp add: length_encode)
  then have d: "ps_adpcm_decode (dec rx) (take 8 ?data) = reconstruct (enc tx) pcm"
    using assms(1,3) by (simp add: synced_def decode_encode)
  obtain out st where r: "reconstruct (enc tx) pcm = (out, st)" by fastforce
  have "rx' = (rx_ring_push (rx\<lparr>dec := st\<rparr>) out)\<lparr>expect_seq := (expect_seq rx + 1) AND 0xFF\<rparr>"
    using assms(1,4) d r unfolding assms(5) ps_audio_rx_on_frame_def Let_def
    by (auto simp: synced_def)
  moreover have "rx_ok (rx\<lparr>dec := st\<rparr>)" "rx_buffered (rx\<lparr>dec := st\<rparr>) = rx_buffered rx"
    using assms(2) by (simp_all add: rx_ok_def rx_buffered_def ps_audio_rx_available_def)
  moreover have "rx_ok (y\<lparr>expect_seq := e\<rparr>) = rx_ok y" "rx_buffered (y\<lparr>expect_seq := e\<rparr>) = rx_buffered y" for y e
    by (simp_all add: rx_ok_def rx_buffered_def ps_audio_rx_available_def)
  ultimately show ?thesis
    using ring_push [of "rx\<lparr>dec := st\<rparr>" out] assms(1) r by (simp add: synced_def seq_next)
qed

lemma emit_frame_decoded:
  assumes "length (pending tx) = 16" "adpcm_ok (enc tx)" "\<not> tx_started tx \<or> synced tx rx" "rx_ok rx"
    and "tx_emit_frame tx = (fs, tx')"
  shows "rx_ok (feed rx fs) \<and> gaps (feed rx fs) = gaps rx \<and> synced tx' (feed rx fs) \<and>
    rx_buffered (feed rx fs) = keep_last 4095 (rx_buffered rx @ fst (reconstruct (enc tx) (pending tx))) \<and>
    enc tx' = snd (reconstruct (enc tx) (pending tx)) \<and> pending tx' = pending tx \<and> pending_n tx' = 0"
proof -
  define due where "due \<longleftrightarrow> \<not> tx_started tx \<or> frames_since_sync tx \<ge> PS_AUDIO_SYNC_INTERVAL"
  define f where "f = fst (tx_emit_sync tx)"
  define tx1 where "tx1 = (if due then snd (tx_emit_sync tx) else tx)"
  define rx1 where "rx1 = (if due then ps_audio_rx_on_frame rx f else rx)"
  note sync = sync_locks [OF assms(2), of f "snd (tx_emit_sync tx)"]
  have tx1: "enc tx1 = enc tx" "frame_seq tx1 = frame_seq tx" "pending tx1 = pending tx" "dir tx1 = dir tx"
    "src_node tx1 = src_node tx" "dst_node tx1 = dst_node tx" "tx_started tx1"
    using sync(2) by (auto simp: tx1_def f_def due_def)
  have rx1: "rx_ok rx1" "synced tx1 rx1" "rx_buffered rx1 = rx_buffered rx" "gaps rx1 = gaps rx"
    using sync assms(3,4) tx1 unfolding rx1_def tx1_def f_def due_def
    by (auto simp: synced_def rx_ok_def rx_buffered_def ps_audio_rx_available_def)
  let ?ty = "if dir tx = PS_AUDIO_DIR_UP then PS_T_AUDIO_UP else PS_T_AUDIO_DOWN"
  let ?g = "(ps_can_id_pack PS_CLS_AUDIO (src_node tx) (dst_node tx) ?ty (ucast (frame_seq tx1 AND 0xFF)),
             fst (ps_adpcm_encode (enc tx1) (pending tx)), of_nat 8)"
  have e: "fs = (if due then [f] else []) @ [?g]" "frame_seq tx' = frame_seq tx + 1" "tx_started tx'"
    "enc tx' = snd (ps_adpcm_encode (enc tx) (pending tx))" "pending tx' = pending tx" "pending_n tx' = 0"
    using assms(1,5) tx1 sync(2)
    unfolding tx_emit_frame_def due_def f_def
    by (auto simp: Let_def case_prod_unfold split: if_splits)
  have feed: "feed rx fs = ps_audio_rx_on_frame rx1 ?g" unfolding e(1) by (simp add: rx1_def)
  have "snd (ps_adpcm_encode (enc tx) (pending tx)) = snd (reconstruct (enc tx) (pending tx))"
    using assms(1) by (simp add: encode_state)
  moreover have "?ty = PS_T_AUDIO_UP \<or> ?ty = PS_T_AUDIO_DOWN" by simp
  note data_frame_decoded [OF rx1(2,1) assms(1) this feed]
  ultimately show ?thesis
    unfolding synced_def e(2,4-6) tx1(1,2) rx1(3,4) using e(3) by simp
qed

text \<open>The samples the sender holds and has not framed yet.\<close>

definition held :: "ps_audio_tx \<Rightarrow> int list" where
  "held tx = take (pending_n tx) (pending tx)"

lemma length_held: "tx_ok tx \<Longrightarrow> length (held tx) = pending_n tx"
  by (simp add: held_def tx_ok_def)

lemma tx_fill:
  assumes "tx_ok tx" "k \<le> 16 - pending_n tx" "k \<le> length pcm"
    and "tx1 = tx\<lparr>pending := blit (pending_n tx) (take k pcm) (pending tx), pending_n := pending_n tx + k\<rparr>"
  shows "held tx1 = held tx @ take k pcm" "length (pending tx1) = 16" "pending_n tx1 = pending_n tx + k"
    "enc tx1 = enc tx" "tx_started tx1 = tx_started tx" "synced tx1 rx = synced tx rx"
  using assms by (auto simp: tx_ok_def held_def blit_def synced_def min_def)

text \<open>The contract of the push, with the receiver that hears it.\<close>

definition stream_step ::
    "ps_audio_tx \<Rightarrow> ps_audio_rx \<Rightarrow> int list \<Rightarrow> (audio_frame list \<times> nat \<times> ps_audio_tx) \<Rightarrow> bool" where
  "stream_step tx rx pcm r = (case r of (fs, m, tx') \<Rightarrow>
     let buf = held tx @ pcm in
     m = length buf div 16 \<and> tx_ok tx' \<and> held tx' = drop (16 * m) buf \<and>
     rx_ok (feed rx fs) \<and> gaps (feed rx fs) = gaps rx \<and> 
     (0 < m \<or> tx_started tx \<longrightarrow> synced tx' (feed rx fs)) \<and>
     rx_buffered (feed rx fs) = keep_last 4095 (rx_buffered rx @ fst (reconstruct (enc tx) (take (16 * m) buf))))"

lemma tx_push_returns:
  assumes "tx_ok tx" "rx_ok rx" "\<not> tx_started tx \<or> synced tx rx" "length pcm \<le> fuel"
  shows "\<exists>r. tx_push_loop fuel tx pcm = Some r \<and> stream_step tx rx pcm r"
  using assms
proof (induction fuel tx pcm arbitrary: rx rule: tx_push_loop.induct)
  case (1 u tx)
  then have "length (held tx) < 16" using length_held by (simp add: tx_ok_def)
  then show ?case using 1 length_rx_buffered [of rx] by (simp add: stream_step_def keep_last_all)
next
  case (3 fuel tx s pcm)
  let ?xs = "s # pcm"
  define k where "k = min (16 - pending_n tx) (length ?xs)"
  define tx1 where "tx1 = tx\<lparr>pending := blit (pending_n tx) (take k ?xs) (pending tx), pending_n := pending_n tx + k\<rparr>"
  have k: "k \<le> 16 - pending_n tx" "k \<le> length ?xs" "0 < k" using "3.prems"(1) by (simp_all add: k_def tx_ok_def)
  note fill = tx_fill [OF "3.prems"(1) k(1,2) tx1_def]
  have loop: "tx_push_loop (Suc fuel) tx ?xs =
      (if pending_n tx1 = 16 then (case tx_emit_frame tx1 of (fs, tx) \<Rightarrow>
         map_option (\<lambda>(fs', m, tx). (fs @ fs', Suc m, tx)) (tx_push_loop fuel tx (drop k ?xs)))
       else tx_push_loop fuel tx1 (drop k ?xs))"
    by (simp only: tx_push_loop.simps Let_def k_def tx1_def)
  have len: "length (drop k ?xs) \<le> fuel" using "3.prems"(4) k(3) by simp
  have hn: "length (held tx) = pending_n tx" "pending_n tx < 16" using "3.prems"(1) length_held by (auto simp: tx_ok_def)
  show ?case
  proof (cases "pending_n tx1 = 16")
    case False
    have ok1: "tx_ok tx1" using fill(2-4) "3.prems"(1) False k(1) by (auto simp: tx_ok_def)
    have all: "drop k ?xs = []" using False fill(3) k by (auto simp: k_def min_def split: if_splits)
    obtain r where r: "tx_push_loop fuel tx1 (drop k ?xs) = Some r" "stream_step tx1 rx (drop k ?xs) r"
      using "3.IH"(2) [OF refl k_def tx1_def refl False ok1 "3.prems"(2) _ len] "3.prems"(3) fill by auto
    have "tx_push_loop (Suc fuel) tx ?xs = Some r" using r(1) False loop by simp
    moreover have "held tx1 @ drop k ?xs = held tx @ ?xs" using fill(1) by (simp only: append_assoc append_take_drop_id)
    ultimately show ?thesis using r(2) fill(4,5) unfolding stream_step_def by simp
  next
    case True
    obtain fs tx2 where e: "tx_emit_frame tx1 = (fs, tx2)" by fastforce
    have pend: "pending tx1 = held tx1" using fill(2) True by (simp add: held_def)
    have aok: "adpcm_ok (enc tx1)" using fill(4) "3.prems"(1) by (simp add: tx_ok_def)
    have p1: "\<not> tx_started tx1 \<or> synced tx1 rx" using "3.prems"(3) fill(5,6) by simp
    note em = emit_frame_decoded [OF fill(2) aok p1 "3.prems"(2) e]
    have ok2: "tx_ok tx2" using em fill(2) aok by (simp add: tx_ok_def adpcm_ok_reconstruct)
    obtain fs' m tx' where r: "tx_push_loop fuel tx2 (drop k ?xs) = Some (fs', m, tx')"
        "stream_step tx2 (feed rx fs) (drop k ?xs) (fs', m, tx')"
      using "3.IH"(1) [OF refl k_def tx1_def refl True e [symmetric] ok2, of "feed rx fs"] em len by (metis prod_cases3)
    have res: "tx_push_loop (Suc fuel) tx ?xs = Some (fs @ fs', Suc m, tx')" using r(1) True e loop by simp
    have h2: "held tx2 = []" using em by (simp add: held_def)
    have split: "held tx @ ?xs = pending tx1 @ drop k ?xs" "length (pending tx1) = 16"
      using fill(1,2) pend by (simp_all only: append_assoc append_take_drop_id)
    have rec: "fst (reconstruct (enc tx) (take (16 * Suc m) (held tx @ ?xs))) =
        fst (reconstruct (enc tx1) (pending tx1)) @ fst (reconstruct (enc tx2) (take (16 * m) (drop k ?xs)))"
      using em fill(4) split by (simp add: reconstruct_append)
    have "stream_step tx rx ?xs (fs @ fs', Suc m, tx')"
      using r(2) em h2 split rec keep_last_append [of 4095 "rx_buffered rx @ fst (reconstruct (enc tx1) (pending tx1))"]
      unfolding stream_step_def Let_def by (auto simp: split(1) synced_def)
    then show ?thesis using res by blast
  qed
qed simp

section \<open>Voice gate\<close>

record ps_egate =
  threshold_q :: int
  hang_ms :: u32
  max_utterance_ms :: u32
  gate_open :: bool
  opened_ms :: u32
  last_voiced_ms :: u32

abbreviation EGATE_NEEDS_QUIET :: u32 where "EGATE_NEEDS_QUIET \<equiv> 0xFFFFFFFF"

text \<open>\<open>ms\<close> is the result of the floating-point expression \<open>pow (10, dBFS / 10) * 32768 * 32768\<close>, already cut to an
  integer; the clamps are the code's.\<close>

definition ps_egate_init :: "int \<Rightarrow> u32 \<Rightarrow> u32 \<Rightarrow> ps_egate" where
  "ps_egate_init ms hang max_ms =
     \<lparr> threshold_q = (if ms > 2147483647 then 2147483647 else if ms < 1 then 1 else ms),
       hang_ms = hang, max_utterance_ms = max_ms, gate_open = False, opened_ms = 0, last_voiced_ms = 0 \<rparr>"

definition block_energy :: "int list \<Rightarrow> int" where
  "block_energy pcm = sum_list (map (\<lambda>s. s * s) pcm) div int (length pcm)"

definition ps_egate_process :: "ps_egate \<Rightarrow> int list \<Rightarrow> u32 \<Rightarrow> bool \<times> ps_egate" where
  "ps_egate_process g pcm now =
     (if pcm = [] then (gate_open g, g)
      else
        let voiced = (block_energy pcm \<ge> threshold_q g);
            g = (if gate_open g then
                   let g = (if voiced then g\<lparr>last_voiced_ms := now\<rparr> else g) in
                   if now - opened_ms g \<ge> max_utterance_ms g then
                     g\<lparr>gate_open := False, opened_ms := EGATE_NEEDS_QUIET\<rparr>
                   else if \<not> voiced \<and> now - last_voiced_ms g \<ge> hang_ms g then
                     g\<lparr>gate_open := False, opened_ms := 0\<rparr>
                   else g
                 else if opened_ms g = EGATE_NEEDS_QUIET then
                   (if \<not> voiced then g\<lparr>opened_ms := 0\<rparr> else g)
                 else if voiced then
                   g\<lparr>gate_open := True, opened_ms := now, last_voiced_ms := now\<rparr>
                 else g)
        in (gate_open g, g))"

definition egate_run :: "ps_egate \<Rightarrow> (int list \<times> u32) list \<Rightarrow> ps_egate" where
  "egate_run = foldl (\<lambda>g (pcm, t). snd (ps_egate_process g pcm t))"

lemma egate_run_simps [simp]: "egate_run g [] = g"
  "egate_run g ((pcm, t) # bs) = egate_run (snd (ps_egate_process g pcm t)) bs"
  by (simp_all add: egate_run_def)

lemma egate_params [simp]:
  "threshold_q (snd (ps_egate_process g pcm t)) = threshold_q g"
  "max_utterance_ms (snd (ps_egate_process g pcm t)) = max_utterance_ms g"
  by (simp_all add: ps_egate_process_def Let_def)

section \<open>Properties\<close>

text \<open>Claim C14. A lossless audio stream is bit-exact end to end: whatever is pushed, in whatever pieces, the push
  always returns; it makes one frame of every 16 samples and holds the rest; and a receiver that was in step
  (or hears the stream from its start, where a SYNC precedes the first frame) buffers exactly the
  encoder's reconstruction of those samples (the newest 4095), notes no gap, and is in step again.\<close>

theorem audio_stream_lossless:
  assumes "tx_ok tx" "rx_ok rx" "\<not> tx_started tx \<or> synced tx rx"
  shows "\<exists>fs m tx'. ps_audio_tx_push tx pcm = Some (fs, m, tx') \<and> m = (length (held tx) + length pcm) div 16 \<and>
    tx_ok tx' \<and> held tx' = drop (16 * m) (held tx @ pcm) \<and> gaps (feed rx fs) = gaps rx \<and>
    (0 < m \<longrightarrow> synced tx' (feed rx fs)) \<and>
    rx_buffered (feed rx fs) = keep_last 4095 (rx_buffered rx @ fst (reconstruct (enc tx) (take (16 * m) (held tx @ pcm))))"
  using tx_push_returns [OF assms order_refl, of pcm] unfolding ps_audio_tx_push_def stream_step_def
  by (auto simp: Let_def)

theorem audio_stream_lossless_witness:
  "let tx = \<lparr> enc = ps_adpcm_init, frame_seq = 0, dir = 1, src_node = 6, dst_node = 8, frames_since_sync = 0,
              tx_started = False, pending = replicate 16 0, pending_n = 0 \<rparr>;
       rx = \<lparr> dec = ps_adpcm_init, expect_seq = 0, locked = False, gaps = 0, rx_ring = replicate 4096 0, rx_head = 0, rx_tail = 0 \<rparr>
   in tx_ok tx \<and> rx_ok rx \<and> (\<exists>fs m tx'. ps_audio_tx_push tx (replicate 40 500) = Some (fs, m, tx') \<and> m = 2 \<and> gaps (feed rx fs) = 0)"
proof -
  let ?tx = "\<lparr> enc = ps_adpcm_init, frame_seq = 0, dir = 1, src_node = 6, dst_node = 8, frames_since_sync = 0,
              tx_started = False, pending = replicate 16 0, pending_n = 0 \<rparr>"
  let ?rx = "\<lparr> dec = ps_adpcm_init, expect_seq = 0, locked = False, gaps = 0, rx_ring = replicate 4096 0, rx_head = 0, rx_tail = 0 \<rparr>"
  have ok: "tx_ok ?tx" "rx_ok ?rx" "held ?tx = []" by (simp_all add: tx_ok_def rx_ok_def adpcm_ok_init held_def)
  then show ?thesis
    using audio_stream_lossless [of ?tx ?rx "replicate 40 500"] unfolding Let_def by fastforce
qed

text \<open>Recovery from loss: whatever state a receiver is in, the next SYNC puts it in step with the sender; a frame
  that is out of sequence is never decoded, it costs one frame of silence and one gap, and until the next
  SYNC frames are ignored.\<close>

lemma audio_gap_recovery:
  assumes "adpcm_ok (enc tx)" "rx_ok rx" "ty = PS_T_AUDIO_UP \<or> ty = PS_T_AUDIO_DOWN"
    and "low \<noteq> ucast (expect_seq rx)" "locked rx"
    and "f = (ps_can_id_pack PS_CLS_AUDIO src dst ty low, data, 8)"
  shows "let rx1 = ps_audio_rx_on_frame rx f; (sync, tx') = ps_audio_tx_sync tx in
    gaps rx1 = gaps rx + 1 \<and> dec rx1 = dec rx \<and>
    rx_buffered rx1 = keep_last 4095 (rx_buffered rx @ replicate 16 0) \<and>
    ps_audio_rx_on_frame rx1 f = rx1 \<and> synced tx' (ps_audio_rx_on_frame rx1 sync)"
proof -
  let ?rx1 = "(rx_ring_push rx (replicate 16 0))\<lparr>gaps := gaps rx + 1, locked := False\<rparr>"
  have one: "ps_audio_rx_on_frame rx f = ?rx1"
    using assms(3-5) unfolding assms(6) ps_audio_rx_on_frame_def by (auto simp: Let_def)
  have two: "ps_audio_rx_on_frame ?rx1 f = ?rx1"
    using assms(3) unfolding assms(6) ps_audio_rx_on_frame_def by (auto simp: Let_def)
  have buf: "rx_buffered ?rx1 = keep_last 4095 (rx_buffered rx @ replicate 16 0)"
    using ring_push [OF assms(2), of "replicate 16 0"] by (simp add: rx_buffered_def ps_audio_rx_available_def)
  obtain sync tx' where s: "tx_emit_sync tx = (sync, tx')" by fastforce
  have "synced tx' (ps_audio_rx_on_frame ?rx1 sync)"
    unfolding sync_locks [OF assms(1) s] by (simp add: synced_def)
  then show ?thesis using one two buf s by (simp add: Let_def ps_audio_tx_sync_def)
qed

text \<open>The ring never reorders or invents samples: a pull returns the oldest buffered samples, as many as were asked
  for or there are, and leaves the others.\<close>

lemma audio_pull_fifo:
  assumes "rx_ok rx"
  shows "rx_buffered rx = fst (ps_audio_rx_pull rx n) @ rx_buffered (snd (ps_audio_rx_pull rx n)) \<and>
    length (fst (ps_audio_rx_pull rx n)) = min n (length (rx_buffered rx)) \<and> rx_ok (snd (ps_audio_rx_pull rx n))"
proof -
  have len: "length (fst (rx_pull_loop k rx)) = k" for k
    by (induction k arbitrary: rx) (simp_all add: Let_def case_prod_unfold)
  have "length (rx_buffered rx) = ps_audio_rx_available rx" by (simp add: rx_buffered_def)
  then show ?thesis using rx_pull_loop [OF assms min.cobounded2, of n] len
    unfolding ps_audio_rx_pull_def by simp
qed

text \<open>An utterance is bounded and the gate re-arms only on quiet: after a forced close, however long loud blocks
  keep coming, the gate stays closed; and an open gate that has been open for the maximum time closes on the
  next block whatever is said.\<close>

lemma egate_forced_close_holds:
  assumes "0 < length pcm"
  shows "(gate_open g \<and> max_utterance_ms g \<le> t - opened_ms g \<longrightarrow>
      \<not> fst (ps_egate_process g pcm t) \<and> opened_ms (snd (ps_egate_process g pcm t)) = EGATE_NEEDS_QUIET) \<and>
    (\<not> gate_open g \<and> opened_ms g = EGATE_NEEDS_QUIET \<and> (\<forall>(b, u) \<in> set bs. b \<noteq> [] \<longrightarrow> threshold_q g \<le> block_energy b) \<longrightarrow>
      \<not> gate_open (egate_run g bs) \<and> opened_ms (egate_run g bs) = EGATE_NEEDS_QUIET)"
proof -
  have "\<not> gate_open (egate_run g bs) \<and> opened_ms (egate_run g bs) = EGATE_NEEDS_QUIET"
    if "\<not> gate_open g" "opened_ms g = EGATE_NEEDS_QUIET" "\<forall>(b, u) \<in> set bs. b \<noteq> [] \<longrightarrow> threshold_q g \<le> block_energy b"
    using that
  proof (induction bs arbitrary: g)
    case (Cons bu bs)
    obtain b u where bu: "bu = (b, u)" by fastforce
    have "snd (ps_egate_process g b u) = g" using Cons.prems bu by (auto simp: ps_egate_process_def Let_def)
    then show ?case using Cons bu by simp
  qed simp
  then show ?thesis using assms by (auto simp: ps_egate_process_def Let_def)
qed

end
