(* ===== verification/Helmet_Audio.thy ===== *)
theory Helmet_Audio
  imports Audio Can_Port "HOL-Library.Signed_Division"
begin

text \<open>
  The helmet's voice path: \<open>audio_in_task.c\<close> (microphone, decimation, voice gate, packetizer) and \<open>audio_out_task.c\<close>
  (depacketizer, speaker) under \<open>firmware/apps/node_helmet/main/\<close>. The samples a read of the I2S channel returns are an argument;
  the frames a turn hands to the bus, in order, are part of its result.
\<close>

section \<open>Microphone\<close>

abbreviation PS_AUDIO_SAMPLE_RATE :: u16 where "PS_AUDIO_SAMPLE_RATE \<equiv> 8000"
abbreviation HELMET_SPK_BLOCK_SAMPLES :: nat where "HELMET_SPK_BLOCK_SAMPLES \<equiv> 128"

record mic =
  s_tx :: ps_audio_tx
  s_gate :: ps_egate
  streaming :: bool
  s_wake_pending :: bool

definition helmet_take_wake_event :: "mic \<Rightarrow> bool \<times> mic" where
  "helmet_take_wake_event m = (s_wake_pending m, m\<lparr>s_wake_pending := False\<rparr>)"

text \<open>The frame \<open>emit_frame\<close> hands to the transport: what is short is filled with zeros.\<close>

definition emit_frame :: "audio_frame \<Rightarrow> ps_can_frame" where
  "emit_frame fr =
     (case fr of (i, data, dlc) \<Rightarrow>
        \<lparr> f_id = i, f_dlc = dlc, f_data = take (unat dlc) data @ (if dlc < 8 then replicate (8 - unat dlc) 0 else []) \<rparr>)"

definition send_ctl :: "u8 \<Rightarrow> audio_frame" where
  "send_ctl cmd =
     (ps_can_id_pack PS_CLS_AUDIO PS_NODE_HELMET PS_NODE_ORCH PS_T_AUDIO_CTL 0,
      enc_audio_ctl \<lparr> ac_dir = PS_AUDIO_DIR_UP, ac_cmd = cmd, ac_sample_rate = PS_AUDIO_SAMPLE_RATE, ac_rsvd = 0 \<rparr>, 8)"

text \<open>Two 16 kHz samples make one at 8 kHz: their upper halves averaged.\<close>

fun decimate :: "i32 list \<Rightarrow> int list" where
  "decimate (x # y # raw) = ((sint x div 2 ^ 16 + sint y div 2 ^ 16) sdiv 2) # decimate raw"
| "decimate _ = []"

text \<open>One round of the task; None if the packetizer's loop did not end.\<close>

definition audio_in_turn :: "i32 list \<Rightarrow> u32 \<Rightarrow> mic \<Rightarrow> (audio_frame list \<times> mic) option" where
  "audio_in_turn raw now m =
     (let pcm8k = decimate raw;
          (opn, g) = ps_egate_process (s_gate m) pcm8k now;
          m = m\<lparr>s_gate := g\<rparr>;
          (fs1, m) = (if opn \<and> \<not> streaming m then
             let (sync, tx) = ps_audio_tx_sync (s_tx m)
             in ([send_ctl 1, sync], m\<lparr>s_tx := tx, s_wake_pending := True, streaming := True\<rparr>)
           else ([], m));
          pushed = (if streaming m then map_option (\<lambda>(fs, k, tx). (fs, m\<lparr>s_tx := tx\<rparr>)) (ps_audio_tx_push (s_tx m) pcm8k)
                    else Some ([], m))
      in map_option (\<lambda>(fs2, m). if \<not> opn \<and> streaming m then (fs1 @ fs2 @ [send_ctl 0], m\<lparr>streaming := False\<rparr>) else (fs1 @ fs2, m)) pushed)"

definition helmet_audio_in_start :: "int \<Rightarrow> mic \<Rightarrow> mic" where
  "helmet_audio_in_start ms m =
     m\<lparr>s_tx := ps_audio_tx_init PS_AUDIO_DIR_UP PS_NODE_HELMET PS_NODE_ORCH (s_tx m), s_gate := ps_egate_init ms 300 8000,
       s_wake_pending := False, streaming := False\<rparr>"

section \<open>Speaker\<close>

definition audio_rx_cb :: "ps_can_frame \<Rightarrow> ps_audio_rx \<Rightarrow> ps_audio_rx" where
  "audio_rx_cb f rx =
     (if ps_can_id_dst (f_id f) \<noteq> PS_NODE_HELMET then rx else ps_audio_rx_on_frame rx (f_id f, f_data f, f_dlc f))"

definition audio_out_turn :: "ps_audio_rx \<Rightarrow> int list \<times> ps_audio_rx" where
  "audio_out_turn rx =
     (let (got, rx) = ps_audio_rx_pull rx HELMET_SPK_BLOCK_SAMPLES
      in (got @ replicate (HELMET_SPK_BLOCK_SAMPLES - length got) 0, rx))"

section \<open>Decimation\<close>

text \<open>Every sample fits \<open>int16_t\<close>, so the cast of the code changes nothing, and a block has half the samples.\<close>

lemma upper_half_range:
  fixes x :: i32
  shows "- 32768 \<le> sint x div 2 ^ 16 \<and> sint x div 2 ^ 16 \<le> 32767"
proof -
  have "- (2 ^ 31) \<le> sint x" "sint x < 2 ^ 31" using sint_greater_eq [of x] sint_less [of x] by simp_all
  then show ?thesis by auto
qed

lemma decimate_range: "s \<in> set (decimate raw) \<Longrightarrow> - 32768 \<le> s \<and> s \<le> 32767"
proof (induction raw rule: decimate.induct)
  case (1 x y raw)
  have half: "- 32768 \<le> (a + b) sdiv 2 \<and> (a + b) sdiv 2 \<le> 32767" if "- 32768 \<le> a \<and> a \<le> 32767" "- 32768 \<le> b \<and> b \<le> 32767" for a b :: int
    using that by (auto simp: signed_divide_int_def sgn_if)
  show ?case using 1 half [OF upper_half_range upper_half_range] by auto
qed simp_all

lemma length_decimate: "length (decimate raw) = length raw div 2"
  by (induction raw rule: decimate.induct) simp_all

section \<open>A turn and the receiver that hears it\<close>

definition mic_ok :: "mic \<Rightarrow> ps_audio_rx \<Rightarrow> bool" where
  "mic_ok m rx \<longleftrightarrow> tx_ok (s_tx m) \<and> rx_ok rx \<and> gate_open (s_gate m) = streaming m \<and> (streaming m \<longrightarrow> synced (s_tx m) rx)"

text \<open>The samples a turn sends: those of an open gate and of the block that closes it.\<close>

definition sent_samples :: "i32 list \<Rightarrow> u32 \<Rightarrow> mic \<Rightarrow> int list" where
  "sent_samples raw now m =
     (if streaming m \<or> fst (ps_egate_process (s_gate m) (decimate raw) now) then decimate raw else [])"

lemma ctl_ignored [simp]: "ps_audio_rx_on_frame rx (send_ctl c) = rx"
  by (simp add: ps_audio_rx_on_frame_def send_ctl_def Let_def)

lemma egate_result: "fst (ps_egate_process g pcm t) = gate_open (snd (ps_egate_process g pcm t))"
  by (simp add: ps_egate_process_def Let_def)

lemma sync_keeps:
  assumes "tx_ok tx" "rx_ok rx" "ps_audio_tx_sync tx = (sync, tx')"
  shows "tx_ok tx'" "rx_ok (ps_audio_rx_on_frame rx sync)" "synced tx' (ps_audio_rx_on_frame rx sync)" "held tx' = held tx" "enc tx' = enc tx"
    "rx_buffered (ps_audio_rx_on_frame rx sync) = rx_buffered rx" "gaps (ps_audio_rx_on_frame rx sync) = gaps rx"
proof -
  have a: "adpcm_ok (enc tx)" using assms(1) by (simp add: tx_ok_def)
  note s = sync_locks [OF a assms(3) [unfolded ps_audio_tx_sync_def]]
  show "tx_ok tx'" "rx_ok (ps_audio_rx_on_frame rx sync)" "synced tx' (ps_audio_rx_on_frame rx sync)" "held tx' = held tx" "enc tx' = enc tx"
    "rx_buffered (ps_audio_rx_on_frame rx sync) = rx_buffered rx" "gaps (ps_audio_rx_on_frame rx sync) = gaps rx"
    using assms(1,2) unfolding s by (simp_all add: tx_ok_def rx_ok_def synced_def held_def rx_buffered_def ps_audio_rx_available_def)
qed

text \<open>The push of a streaming microphone, by the packetizer's contract.\<close>

lemma push_step:
  assumes "tx_ok tx" "rx_ok rx" "synced tx rx"
  shows "\<exists>fs k tx'. ps_audio_tx_push tx pcm = Some (fs, k, tx') \<and> tx_ok tx' \<and> rx_ok (feed rx fs) \<and> synced tx' (feed rx fs) \<and>
    gaps (feed rx fs) = gaps rx \<and> rx_buffered (feed rx fs) =
      keep_last 4095 (rx_buffered rx @ fst (reconstruct (enc tx) (take (16 * ((length (held tx) + length pcm) div 16)) (held tx @ pcm))))"
proof -
  obtain fs k tx' where r: "tx_push_loop (length pcm) tx pcm = Some (fs, k, tx')" "stream_step tx rx pcm (fs, k, tx')"
    using tx_push_returns [OF assms(1,2) _ order_refl, of pcm] assms(3) by (metis prod_cases3)
  then show ?thesis using assms(3) by (auto simp: ps_audio_tx_push_def stream_step_def synced_def Let_def)
qed

text \<open>What a listener with a lossless link makes of a turn.\<close>

definition heard :: "mic \<Rightarrow> ps_audio_rx \<Rightarrow> int list \<Rightarrow> ps_audio_rx \<Rightarrow> bool" where
  "heard m rx pcm rx' \<longleftrightarrow> gaps rx' = gaps rx \<and> rx_buffered rx' =
     keep_last 4095 (rx_buffered rx @ fst (reconstruct (enc (s_tx m))
       (take (16 * ((length (held (s_tx m)) + length pcm) div 16)) (held (s_tx m) @ pcm))))"

lemma heard_nothing: "mic_ok m rx \<Longrightarrow> heard m rx [] rx"
proof -
  assume "mic_ok m rx"
  then have "length (held (s_tx m)) < 16" "length (rx_buffered rx) \<le> 4095"
    using length_held length_rx_buffered by (auto simp: mic_ok_def tx_ok_def)
  then show ?thesis by (simp add: heard_def keep_last_all)
qed

definition turn_frames :: "mic \<Rightarrow> mic \<Rightarrow> audio_frame list \<Rightarrow> bool" where
  "turn_frames m m' fs \<longleftrightarrow>
     (if streaming m then (if streaming m' then True else fs \<noteq> [] \<and> last fs = send_ctl 0)
      else if streaming m' then s_wake_pending m' \<and> (\<exists>fs'. fs = send_ctl 1 # fst (ps_audio_tx_sync (s_tx m)) # fs')
      else fs = [])"

lemma turn_streaming:
  assumes "mic_ok m rx" "streaming m"
  shows "\<exists>fs m'. audio_in_turn raw now m = Some (fs, m') \<and> mic_ok m' (feed rx fs) \<and> heard m rx (decimate raw) (feed rx fs) \<and> turn_frames m m' fs"
proof -
  have ok: "tx_ok (s_tx m)" "rx_ok rx" "synced (s_tx m) rx" using assms by (simp_all add: mic_ok_def)
  obtain fs k tx' where p: "ps_audio_tx_push (s_tx m) (decimate raw) = Some (fs, k, tx')" "tx_ok tx'" "rx_ok (feed rx fs)" "synced tx' (feed rx fs)"
    and h: "heard m rx (decimate raw) (feed rx fs)"
    using push_step [OF ok, of "decimate raw"] by (auto simp: heard_def)
  obtain opn g where g: "ps_egate_process (s_gate m) (decimate raw) now = (opn, g)" by fastforce
  then have o: "gate_open g = opn" using egate_result by (metis fst_conv snd_conv)
  show ?thesis
  proof (cases opn)
    case True
    then have "audio_in_turn raw now m = Some (fs, m\<lparr>s_gate := g, s_tx := tx'\<rparr>)" using assms(2) p(1) g by (simp add: audio_in_turn_def Let_def)
    then show ?thesis using p h o True assms(2) by (simp add: mic_ok_def turn_frames_def)
  next
    case False
    then have "audio_in_turn raw now m = Some (fs @ [send_ctl 0], m\<lparr>s_gate := g, s_tx := tx', streaming := False\<rparr>)"
      using assms(2) p(1) g by (simp add: audio_in_turn_def Let_def)
    then show ?thesis using p h o False assms(2) by (simp add: mic_ok_def turn_frames_def)
  qed
qed

lemma turn_quiet:
  assumes "mic_ok m rx" "\<not> streaming m"
  shows "\<exists>fs m'. audio_in_turn raw now m = Some (fs, m') \<and> mic_ok m' (feed rx fs) \<and> heard m rx (sent_samples raw now m) (feed rx fs) \<and> turn_frames m m' fs"
proof -
  have ok: "tx_ok (s_tx m)" "rx_ok rx" using assms by (simp_all add: mic_ok_def)
  obtain opn g where g: "ps_egate_process (s_gate m) (decimate raw) now = (opn, g)" by fastforce
  then have o: "gate_open g = opn" using egate_result by (metis fst_conv snd_conv)
  show ?thesis
  proof (cases opn)
    case False
    then have "audio_in_turn raw now m = Some ([], m\<lparr>s_gate := g\<rparr>)" using assms(2) g by (simp add: audio_in_turn_def Let_def)
    then show ?thesis using assms heard_nothing [OF assms(1)] o False g by (simp add: mic_ok_def turn_frames_def sent_samples_def)
  next
    case True
    obtain sync tx where s: "ps_audio_tx_sync (s_tx m) = (sync, tx)" by fastforce
    note k = sync_keeps [OF ok s]
    obtain fs n tx' where p: "ps_audio_tx_push tx (decimate raw) = Some (fs, n, tx')" "tx_ok tx'"
        "rx_ok (feed (ps_audio_rx_on_frame rx sync) fs)" "synced tx' (feed (ps_audio_rx_on_frame rx sync) fs)"
      and h: "heard m rx (decimate raw) (feed (ps_audio_rx_on_frame rx sync) fs)"
      using push_step [OF k(1-3), of "decimate raw"] k(4-7) by (auto simp: heard_def)
    have "audio_in_turn raw now m = Some (send_ctl 1 # sync # fs, m\<lparr>s_gate := g, s_tx := tx', s_wake_pending := True, streaming := True\<rparr>)"
      using assms(2) p(1) g s True by (simp add: audio_in_turn_def Let_def)
    then show ?thesis using p h o True assms(2) s g by (simp add: mic_ok_def turn_frames_def sent_samples_def)
  qed
qed

lemma audio_turn:
  assumes "mic_ok m rx"
  shows "\<exists>fs m'. audio_in_turn raw now m = Some (fs, m') \<and> mic_ok m' (feed rx fs) \<and> heard m rx (sent_samples raw now m) (feed rx fs) \<and> turn_frames m m' fs"
  using turn_streaming [OF assms] turn_quiet [OF assms] by (cases "streaming m") (simp_all add: sent_samples_def)

text \<open>Many rounds.\<close>

fun mic_run :: "(i32 list \<times> u32) list \<Rightarrow> mic \<Rightarrow> (audio_frame list \<times> mic) option" where
  "mic_run [] m = Some ([], m)"
| "mic_run ((raw, now) # rs) m =
     (case audio_in_turn raw now m of None \<Rightarrow> None
      | Some (fs, m) \<Rightarrow> map_option (\<lambda>(fs', m). (fs @ fs', m)) (mic_run rs m))"

lemma mic_run_ok:
  assumes "mic_ok m rx"
  shows "\<exists>fs m'. mic_run rs m = Some (fs, m') \<and> mic_ok m' (feed rx fs) \<and> gaps (feed rx fs) = gaps rx"
  using assms
proof (induction rs m arbitrary: rx rule: mic_run.induct)
  case (2 raw now rs m)
  obtain fs m1 where t: "audio_in_turn raw now m = Some (fs, m1)" "mic_ok m1 (feed rx fs)" "gaps (feed rx fs) = gaps rx"
    using audio_turn [OF "2.prems", of raw now] by (auto simp: heard_def)
  then obtain fs' m' where "mic_run rs m1 = Some (fs', m')" "mic_ok m' (feed (feed rx fs) fs')" "gaps (feed (feed rx fs) fs') = gaps (feed rx fs)"
    using "2.IH" [OF t(1) refl t(2)] by blast
  then show ?case using t by auto
qed auto

lemma mic_start_ok:
  assumes "length (pending (s_tx m)) = 16" "rx_ok rx"
  shows "mic_ok (helmet_audio_in_start ms m) rx"
  using assms by (simp add: mic_ok_def helmet_audio_in_start_def ps_audio_tx_init_def ps_egate_init_def tx_ok_def adpcm_ok_init)

section \<open>Properties\<close>

text \<open>Claim C25. The voice uplink is a clean protocol and loses nothing at the source: every round of the microphone task ends; a silent gate
  sends nothing; opening it sends the start command, then a SYNC, and raises the wake event; closing it ends with the stop command; and a
  receiver on a lossless link, whatever state it was in before the gate opened, stays in step with the encoder over any number of
  utterances without a gap, buffering in each round exactly the encoder's reconstruction of the samples sent.\<close>

theorem mic_uplink:
  assumes "length (pending (s_tx m0)) = 16" "rx_ok rx0"
  shows "\<exists>fs0 m. mic_run rs (helmet_audio_in_start ms m0) = Some (fs0, m) \<and>
    (\<exists>fs m'. audio_in_turn raw now m = Some (fs, m') \<and> turn_frames m m' fs \<and> streaming m' = gate_open (s_gate m') \<and>
       (streaming m' \<longrightarrow> synced (s_tx m') (feed rx0 (fs0 @ fs))) \<and> gaps (feed rx0 (fs0 @ fs)) = gaps rx0 \<and>
       heard m (feed rx0 fs0) (sent_samples raw now m) (feed rx0 (fs0 @ fs)))"
proof -
  obtain fs0 m where r: "mic_run rs (helmet_audio_in_start ms m0) = Some (fs0, m)" "mic_ok m (feed rx0 fs0)" "gaps (feed rx0 fs0) = gaps rx0"
    using mic_run_ok [OF mic_start_ok [OF assms]] by blast
  show ?thesis using r audio_turn [OF r(2), of raw now] by (auto simp: mic_ok_def heard_def)
qed

theorem mic_uplink_witness:
  "let m0 = \<lparr> s_tx = \<lparr> enc = ps_adpcm_init, frame_seq = 0, dir = 1, src_node = 6, dst_node = 8, frames_since_sync = 0,
                tx_started = False, pending = replicate 16 0, pending_n = 0 \<rparr>,
              s_gate = ps_egate_init 170000 300 8000, streaming = False, s_wake_pending = False \<rparr>;
       rx0 = \<lparr> dec = ps_adpcm_init, expect_seq = 9, locked = True, gaps = 3, rx_ring = replicate 4096 0, rx_head = 0, rx_tail = 0 \<rparr>
   in rx_ok rx0 \<and> (\<exists>fs0 m. mic_run [(replicate 256 0x20000000, 16)] (helmet_audio_in_start 170000 m0) = Some (fs0, m) \<and>
        (\<exists>fs m'. audio_in_turn (replicate 256 0) 32 m = Some (fs, m') \<and> gaps (feed rx0 (fs0 @ fs)) = 3))"
proof -
  let ?m0 = "\<lparr> s_tx = \<lparr> enc = ps_adpcm_init, frame_seq = 0, dir = 1, src_node = 6, dst_node = 8, frames_since_sync = 0,
                tx_started = False, pending = replicate 16 0, pending_n = 0 \<rparr>,
              s_gate = ps_egate_init 170000 300 8000, streaming = False, s_wake_pending = False \<rparr>"
  let ?rx0 = "\<lparr> dec = ps_adpcm_init, expect_seq = 9, locked = True, gaps = 3, rx_ring = replicate 4096 0, rx_head = 0, rx_tail = 0 \<rparr>"
  have h: "length (pending (s_tx ?m0)) = 16" "rx_ok ?rx0" "gaps ?rx0 = 3" by (simp_all add: rx_ok_def)
  show ?thesis unfolding Let_def
    using mic_uplink [OF h(1,2), of "[(replicate 256 0x20000000, 16)]" 170000 "replicate 256 0" 32] h(2,3) by fastforce
qed

end
