(* ===== verification/Helmet.thy ===== *)
theory Helmet
  imports Helmet_Audio Node_Glue Ieee32
begin

text \<open>
  The helmet node under \<open>firmware/apps/node_helmet/main/\<close>: the HUD model (\<open>hud_model.c\<close>) and what \<open>hud_task.c\<close> draws from it, the
  transition callback (\<open>safety_glue.c\<close>), environment telemetry and the micro-ROS callbacks (\<open>comms_task.c\<close>), the ESP-NOW beacon
  (\<open>espnow_diag.c\<close>) and the poll of \<open>app_main.c\<close>, with the node as the interleaving of their events. The transport is \<open>can\<close> of the
  safety service, which \<open>app_main.c\<close> gives to all of them.
\<close>

section \<open>The HUD model\<close>

abbreviation HELMET_MAX_WARNINGS :: nat where "HELMET_MAX_WARNINGS \<equiv> 6"
abbreviation HELMET_WARNING_LEN :: nat where "HELMET_WARNING_LEN \<equiv> 40"

text \<open>A warning slot holds the text before its terminating zero.\<close>

record hud_model =
  hm_safety_state :: u8
  battery_pct :: u8
  battery_valid :: bool
  cloud_up :: bool
  ias_ms :: xfloat
  warnings :: "string list"
  warning_count :: nat

definition hud_init :: hud_model where
  "hud_init = \<lparr> hm_safety_state = 0, battery_pct = 0, battery_valid = False, cloud_up = False, ias_ms = Fin 0,
     warnings = replicate HELMET_MAX_WARNINGS [], warning_count = 0 \<rparr>"

definition helmet_hud_set_state :: "u8 \<Rightarrow> hud_model \<Rightarrow> hud_model" where
  "helmet_hud_set_state st m = m\<lparr>hm_safety_state := st\<rparr>"

definition helmet_hud_set_battery :: "u8 \<Rightarrow> hud_model \<Rightarrow> hud_model" where
  "helmet_hud_set_battery pct m = m\<lparr>battery_pct := pct, battery_valid := True\<rparr>"

definition helmet_hud_set_cloud :: "bool \<Rightarrow> hud_model \<Rightarrow> hud_model" where
  "helmet_hud_set_cloud up m = m\<lparr>cloud_up := up\<rparr>"

definition helmet_hud_push_warning :: "string option \<Rightarrow> hud_model \<Rightarrow> hud_model" where
  "helmet_hud_push_warning txt m =
     (case txt of None \<Rightarrow> m | Some t \<Rightarrow>
        let m = (if warning_count m \<ge> HELMET_MAX_WARNINGS then
                   m\<lparr>warnings := blit 0 (take (HELMET_MAX_WARNINGS - 1) (drop 1 (warnings m))) (warnings m),
                     warning_count := HELMET_MAX_WARNINGS - 1\<rparr>
                 else m);
            m = m\<lparr>warnings := (warnings m)[warning_count m := take (HELMET_WARNING_LEN - 1) t]\<rparr>
        in m\<lparr>warning_count := warning_count m + 1\<rparr>)"

definition helmet_hud_clear_warnings :: "hud_model \<Rightarrow> hud_model" where
  "helmet_hud_clear_warnings m = m\<lparr>warning_count := 0\<rparr>"

section \<open>What is drawn\<close>

datatype palette = Green | Amber | Orange | Red | Blue_grey

definition colour_for_state :: "u8 \<Rightarrow> palette" where
  "colour_for_state st =
     (if st = PS_STATE_OPERATIONAL then Green else if st = PS_STATE_STANDBY then Amber else if st = PS_STATE_PASSIVE then Orange
      else if st = PS_STATE_ESTOP then Red else if st = PS_STATE_FAULT then Red else Blue_grey)"

definition name_for_state :: "u8 \<Rightarrow> string" where
  "name_for_state st =
     (if st = PS_STATE_BOOT then ''BOOT'' else if st = PS_STATE_STANDBY then ''STANDBY'' else if st = PS_STATE_OPERATIONAL then ''ACTIVE''
      else if st = PS_STATE_PASSIVE then ''PASSIVE'' else if st = PS_STATE_ESTOP then ''E-STOP'' else if st = PS_STATE_FAULT then ''FAULT''
      else ''?'')"

text \<open>\<open>%.0f\<close>; \<open>strncat\<close> appends at most \<open>n\<close> characters.\<close>

definition fmt_0f :: "xfloat \<Rightarrow> string" where
  "fmt_0f x = (case x of Fin r \<Rightarrow> (if r < 0 then ''-'' else []) @ decimal (nat \<bar>rne r\<bar>) | Infty s \<Rightarrow> (if s then ''-inf'' else ''inf'') | NaN \<Rightarrow> ''nan'')"

definition strncat :: "string \<Rightarrow> string \<Rightarrow> nat \<Rightarrow> string" where
  "strncat buf s n = buf @ take n s"

abbreviation HUD_BUF :: nat where "HUD_BUF \<equiv> 248" \<comment> \<open>6 warnings of 40 bytes and 8\<close>

definition hud_warn_text :: "hud_model \<Rightarrow> string" where
  "hud_warn_text m =
     foldl (\<lambda>buf i. let buf = strncat buf (warnings m ! i) (HUD_BUF - length buf - 2) in strncat buf [CHR 0x0A] (HUD_BUF - length buf - 1))
       [] [0..<warning_count m]"

record hud_frame =
  banner :: string
  banner_colour :: "palette option" \<comment> \<open>None: the theme's\<close>
  battery_bar :: nat
  battery_label :: string
  warn_list :: string
  link_label :: string
  speed_label :: string

text \<open>The screen \<open>build_ui\<close> leaves, and what a round of \<open>hud_task\<close> draws from a snapshot of the model.\<close>

definition build_ui :: hud_frame where
  "build_ui = \<lparr> banner = ''BOOT'', banner_colour = None, battery_bar = 0, battery_label = ''--%'', warn_list = [], link_label = ''CLOUD --'',
     speed_label = ''0 m/s'' \<rparr>"

definition hud_turn :: "hud_model \<Rightarrow> hud_frame" where
  "hud_turn m =
     \<lparr> banner = name_for_state (hm_safety_state m), banner_colour = Some (colour_for_state (hm_safety_state m)),
       battery_bar = (if battery_valid m then unat (battery_pct m) else 0),
       battery_label = (if battery_valid m then decimal (unat (battery_pct m)) @ ''%'' else ''--%''),
       warn_list = hud_warn_text m, link_label = ''CLOUD '' @ (if cloud_up m then ''UP'' else ''--''),
       speed_label = fmt_0f (ias_ms m) @ '' m/s'' \<rparr>"

section \<open>The node\<close>

record 'w helmet =
  h_safety :: "'w safety_esp"
  s_model :: hud_model
  h_screen :: hud_frame
  h_mic :: mic
  h_rx :: ps_audio_rx
  s_env_seq :: u8
  s_stats_seq :: u8
  s_rx_count :: u32

text \<open>A round of \<open>hud_task\<close>: the screen keeps what was drawn until the next one, \<open>HUD_REFRESH_MS\<close> later.\<close>

definition hud_redraw :: "'w helmet \<Rightarrow> 'w helmet" where
  "hud_redraw n = n\<lparr>h_screen := hud_turn (s_model n)\<rparr>"

definition helmet_safety_on_transition :: "u8 \<Rightarrow> u8 \<Rightarrow> u8 \<Rightarrow> 'w helmet \<Rightarrow> 'w helmet" where
  "helmet_safety_on_transition old_state new_state cause n =
     (let m = helmet_hud_set_state new_state (s_model n);
          m = (if new_state = PS_STATE_ESTOP then helmet_hud_push_warning (Some ''E-STOP LATCHED'') m
               else if new_state = PS_STATE_PASSIVE then
                 helmet_hud_push_warning (Some (if cause = PS_ESTOP_COMM_LOSS then ''LINK LOST - LIMP'' else ''PASSIVE MODE'')) m
               else if new_state = PS_STATE_FAULT then helmet_hud_push_warning (Some ''NODE FAULT'') m
               else if new_state = PS_STATE_OPERATIONAL then helmet_hud_clear_warnings m
               else m)
      in n\<lparr>s_model := m\<rparr>)"

definition helmet_safety_op :: "('w safety_esp \<Rightarrow> 'w safety_esp) \<Rightarrow> 'w helmet \<Rightarrow> 'w helmet" where
  "helmet_safety_op h n =
     on_core_transition helmet_safety_on_transition (h_safety n) (h (h_safety n)) (n\<lparr>h_safety := h (h_safety n)\<rparr>)"

definition helmet_can_send :: "('w \<Rightarrow> ps_can_frame \<Rightarrow> esp_err \<times> 'w) \<Rightarrow> ps_can_frame \<Rightarrow> 'w helmet \<Rightarrow> 'w helmet" where
  "helmet_can_send send f n = n\<lparr>h_safety := (h_safety n)\<lparr>can := snd (send (can (h_safety n)) f)\<rparr>\<rparr>"

definition telem_send :: "('w \<Rightarrow> ps_can_frame \<Rightarrow> esp_err \<times> 'w) \<Rightarrow> u8 \<Rightarrow> bytes \<Rightarrow> u8 \<Rightarrow> 'w helmet \<Rightarrow> 'w helmet" where
  "telem_send send ty payload sq =
     helmet_can_send send \<lparr> f_id = ps_can_id_pack PS_CLS_TELEM PS_NODE_HELMET PS_NODE_ORCH ty sq, f_dlc = of_nat (length payload),
       f_data = blit 0 payload (replicate 8 0) \<rparr>"

text \<open>\<open>tsens\<close>: the temperature in degrees, None when it cannot be read.\<close>

definition helmet_env :: "i16 \<Rightarrow> xfloat option \<Rightarrow> ps_env" where
  "helmet_env cu tsens =
     \<lparr> en_temp_cC = (case tsens of None \<Rightarrow> 0 | Some v \<Rightarrow> to_i16 cu (xmul v (Fin 100))), en_rh_pm = 0xFFFF, en_press_dhPa = 0xFFFF, en_rsvd = 0 \<rparr>"

definition helmet_comms_turn ::
    "('w \<Rightarrow> ps_can_frame \<Rightarrow> esp_err \<times> 'w) \<Rightarrow> ('w \<Rightarrow> ps_can_stats) \<Rightarrow> i16 \<Rightarrow> xfloat option \<Rightarrow> 'w helmet \<Rightarrow> 'w helmet" where
  "helmet_comms_turn send get_stats cu tsens n =
     (let n' = telem_send send PS_T_ENV (enc_env (helmet_env cu tsens)) (s_env_seq n) (n\<lparr>s_env_seq := s_env_seq n + 1\<rparr>);
          cs = get_stats (can (h_safety n'));
          st = \<lparr> ns_cpu_pct = 0, ns_state = ps_safety_state (h_safety n'), ns_rx_fps = ucast (rx_frames cs AND 0xFFFF),
                 ns_tx_fps = ucast (tx_frames cs AND 0xFFFF), ns_err_cnt = ucast (bus_errors cs AND 0xFFFF) \<rparr>
      in telem_send send PS_T_NODE_STATS (enc_node_stats st) (s_stats_seq n') (n'\<lparr>s_stats_seq := s_stats_seq n' + 1\<rparr>))"

record hud_marker =
  mk_ns :: "string option"
  mk_scale_x :: xfloat
  mk_text :: "string option"

definition hud_marker_cb :: "hud_marker \<Rightarrow> hud_model \<Rightarrow> hud_model" where
  "hud_marker_cb mk m =
     (case mk_ns mk of None \<Rightarrow> m | Some ns \<Rightarrow>
        if ns = ''battery'' then
          (if xle (Fin 0) (mk_scale_x mk) \<and> xle (mk_scale_x mk) (Fin 100)
           then helmet_hud_set_battery (of_int (to_i32 0 (mk_scale_x mk))) m else m)
        else if ns = ''warning'' \<and> mk_text mk \<noteq> None then helmet_hud_push_warning (mk_text mk) m
        else if ns = ''clear'' then helmet_hud_clear_warnings m
        else m)"

datatype publication = Voice string | Ambient xfloat

definition pub_timer_cb :: "xfloat option \<Rightarrow> 'w helmet \<Rightarrow> publication list \<times> 'w helmet" where
  "pub_timer_cb tsens n =
     (let (wake, mc) = helmet_take_wake_event (h_mic n)
      in ((if wake then [Voice ''wake''] else []) @ (case tsens of None \<Rightarrow> [] | Some v \<Rightarrow> [Ambient v]), n\<lparr>h_mic := mc\<rparr>))"

definition on_recv :: "'w helmet \<Rightarrow> 'w helmet" where
  "on_recv n = n\<lparr>s_rx_count := s_rx_count n + 1\<rparr>"

text \<open>The payload of the beacon.\<close>

definition beacon_cb :: "'w helmet \<Rightarrow> bytes" where
  "beacon_cb n =
     enc_node_stats \<lparr> ns_cpu_pct = 0, ns_state = ps_safety_state (h_safety n), ns_rx_fps = 0, ns_tx_fps = 0,
       ns_err_cnt = ucast (s_rx_count n AND 0xFFFF) \<rparr>"

definition helmet_mic_turn :: "('w \<Rightarrow> ps_can_frame \<Rightarrow> esp_err \<times> 'w) \<Rightarrow> i32 list \<Rightarrow> u32 \<Rightarrow> 'w helmet \<Rightarrow> 'w helmet option" where
  "helmet_mic_turn send raw now n =
     map_option (\<lambda>(fs, mc). foldl (\<lambda>n f. helmet_can_send send (emit_frame f) n) (n\<lparr>h_mic := mc\<rparr>) fs) (audio_in_turn raw now (h_mic n))"

datatype helmet_event =
    Safety_frame u32 ps_can_frame
  | Audio_frame ps_can_frame
  | Bus_state u32 int
  | Safety_timer u32
  | Marker hud_marker
  | Pub_timer "xfloat option"
  | Comms_turn "xfloat option"
  | Mic_turn "i32 list" u32
  | Speaker_turn
  | Espnow_recv
  | Cloud_poll bool
  | Hud_redraw

text \<open>None: a microphone round did not end. No CONTROL callback is registered on this node.\<close>

fun helmet_step ::
    "('w \<Rightarrow> ps_can_frame \<Rightarrow> esp_err \<times> 'w) \<Rightarrow> ('w \<Rightarrow> ps_can_stats) \<Rightarrow> i16 \<Rightarrow> helmet_event \<Rightarrow> 'w helmet \<Rightarrow> 'w helmet option" where
  "helmet_step send gs cu (Safety_frame t f) n = Some (helmet_safety_op (safety_rx t f) n)"
| "helmet_step send gs cu (Audio_frame f) n = Some (n\<lparr>h_rx := audio_rx_cb f (h_rx n)\<rparr>)"
| "helmet_step send gs cu (Bus_state t st) n = Some (helmet_safety_op (can_state_cb t st) n)"
| "helmet_step send gs cu (Safety_timer t) n = Some (helmet_safety_op (tick_cb t) n)"
| "helmet_step send gs cu (Marker mk) n = Some (n\<lparr>s_model := hud_marker_cb mk (s_model n)\<rparr>)"
| "helmet_step send gs cu (Pub_timer ts) n = Some (snd (pub_timer_cb ts n))"
| "helmet_step send gs cu (Comms_turn ts) n = Some (helmet_comms_turn send gs cu ts n)"
| "helmet_step send gs cu (Mic_turn raw now) n = helmet_mic_turn send raw now n"
| "helmet_step send gs cu Speaker_turn n = Some (n\<lparr>h_rx := snd (audio_out_turn (h_rx n))\<rparr>)"
| "helmet_step send gs cu Espnow_recv n = Some (on_recv n)"
| "helmet_step send gs cu (Cloud_poll up) n = Some (n\<lparr>s_model := helmet_hud_set_cloud up (s_model n)\<rparr>)"
| "helmet_step send gs cu Hud_redraw n = Some (hud_redraw n)"

fun helmet_run ::
    "('w \<Rightarrow> ps_can_frame \<Rightarrow> esp_err \<times> 'w) \<Rightarrow> ('w \<Rightarrow> ps_can_stats) \<Rightarrow> i16 \<Rightarrow> helmet_event list \<Rightarrow> 'w helmet \<Rightarrow> 'w helmet option" where
  "helmet_run send gs cu [] n = Some n"
| "helmet_run send gs cu (e # es) n = Option.bind (helmet_step send gs cu e n) (helmet_run send gs cu es)"

section \<open>The warning list\<close>

definition hud_ok :: "hud_model \<Rightarrow> bool" where
  "hud_ok m \<longleftrightarrow> length (warnings m) = 6 \<and> warning_count m \<le> 6 \<and> (\<forall>w \<in> set (warnings m). length w \<le> 39)"

definition shown_warnings :: "hud_model \<Rightarrow> string list" where
  "shown_warnings m = take (warning_count m) (warnings m)"

lemma push_ok:
  assumes "hud_ok m"
  shows "hud_ok (helmet_hud_push_warning (Some t) m)"
    "shown_warnings (helmet_hud_push_warning (Some t) m) = drop (length (shown_warnings m) + 1 - 6) (shown_warnings m @ [take 39 t])"
proof -
  have l: "length (warnings m) = 6" "warning_count m \<le> 6" "\<forall>w \<in> set (warnings m). length w \<le> 39" using assms by (simp_all add: hud_ok_def)
  have upd: "\<forall>w \<in> set xs. length w \<le> 39 \<Longrightarrow> \<forall>w \<in> set (xs[i := take 39 t]). length w \<le> 39" for xs i
    using set_update_subset_insert [of xs i "take 39 t"] by auto
  have sh: "\<forall>w \<in> set (blit 0 (take 5 (drop 1 (warnings m))) (warnings m)). length w \<le> 39"
  proof
    fix w
    assume "w \<in> set (blit 0 (take 5 (drop 1 (warnings m))) (warnings m))"
    then have "w \<in> set (warnings m)" unfolding blit_def by (auto dest: in_set_takeD in_set_dropD)
    then show "length w \<le> 39" using l(3) by blast
  qed
  show "hud_ok (helmet_hud_push_warning (Some t) m)"
  proof (cases "6 \<le> warning_count m")
    case True
    have n: "length (blit 0 (take 5 (drop 1 (warnings m))) (warnings m)) = 6" using l(1) by (simp add: blit_def)
    have "helmet_hud_push_warning (Some t) m =
        m\<lparr>warnings := (blit 0 (take 5 (drop 1 (warnings m))) (warnings m))[5 := take 39 t], warning_count := 6\<rparr>"
      using True by (simp add: helmet_hud_push_warning_def)
    then show ?thesis using n upd [OF sh] by (simp only: hud_ok_def) simp
  next
    case False
    then have "helmet_hud_push_warning (Some t) m = m\<lparr>warnings := (warnings m)[warning_count m := take 39 t], warning_count := warning_count m + 1\<rparr>"
      by (simp add: helmet_hud_push_warning_def)
    then show ?thesis using False l(1) upd [OF l(3)] by (simp only: hud_ok_def) simp
  qed
  show "shown_warnings (helmet_hud_push_warning (Some t) m) = drop (length (shown_warnings m) + 1 - 6) (shown_warnings m @ [take 39 t])"
  proof (cases "warning_count m \<ge> 6")
    case True
    then have "warning_count m = 6" using l by simp
    moreover have "drop 5 (warnings m) = [warnings m ! 5]" using l(1) Cons_nth_drop_Suc [of 5 "warnings m"] by simp
    ultimately show ?thesis using l(1) by (simp add: shown_warnings_def helmet_hud_push_warning_def blit_def Let_def take_Suc_conv_app_nth list_update_append)
  next
    case False
    then show ?thesis using l(1) by (simp add: shown_warnings_def helmet_hud_push_warning_def Let_def take_Suc_conv_app_nth)
  qed
qed

lemma warn_text:
  assumes "hud_ok m" "k \<le> warning_count m"
    and "r = foldl (\<lambda>buf i. let buf = strncat buf (warnings m ! i) (HUD_BUF - length buf - 2) in strncat buf [CHR 0x0A] (HUD_BUF - length buf - 1)) [] [0..<k]"
  shows "r = concat (map (\<lambda>w. w @ [CHR 0x0A]) (take k (warnings m))) \<and> length r \<le> 40 * k"
  using assms(2) unfolding assms(3)
proof (induction k)
  case (Suc k)
  let ?r = "foldl (\<lambda>buf i. let buf = strncat buf (warnings m ! i) (HUD_BUF - length buf - 2) in strncat buf [CHR 0x0A] (HUD_BUF - length buf - 1)) [] [0..<k]"
  have k: "k < 6" "k < length (warnings m)" using Suc.prems assms(1) by (simp_all add: hud_ok_def)
  then have w: "length (warnings m ! k) \<le> 39" using assms(1) by (auto simp: hud_ok_def)
  have IH: "?r = concat (map (\<lambda>w. w @ [CHR 0x0A]) (take k (warnings m)))" "length ?r \<le> 40 * k" using Suc.IH Suc.prems Suc_leD by blast+
  have f: "39 \<le> HUD_BUF - length ?r - 2" using IH(2) k(1) by simp
  have a: "strncat ?r (warnings m ! k) (HUD_BUF - length ?r - 2) = ?r @ warnings m ! k" using w f by (simp only: strncat_def) simp
  have b: "strncat (?r @ warnings m ! k) [CHR 0x0A] (HUD_BUF - length (?r @ warnings m ! k) - 1) = ?r @ warnings m ! k @ [CHR 0x0A]"
  proof -
    have "0 < HUD_BUF - length (?r @ warnings m ! k) - 1" using w IH(2) k(1) by simp
    then show ?thesis by (simp add: strncat_def take_Cons')
  qed
  have "foldl (\<lambda>buf i. let buf = strncat buf (warnings m ! i) (HUD_BUF - length buf - 2) in strncat buf [CHR 0x0A] (HUD_BUF - length buf - 1)) [] [0..<Suc k]
      = ?r @ warnings m ! k @ [CHR 0x0A]" using a b by (simp add: Let_def)
  then show ?case using IH w k(2) by (simp add: take_Suc_conv_app_nth)
qed simp

section \<open>What the events leave alone\<close>

lemma push_state [simp]: "hm_safety_state (helmet_hud_push_warning t m) = hm_safety_state m"
  by (simp add: helmet_hud_push_warning_def Let_def split: option.splits)

lemma transition_model:
  "hm_safety_state (s_model (helmet_safety_on_transition o' st c n)) = st"
  "hud_ok (s_model n) \<Longrightarrow> hud_ok (s_model (helmet_safety_on_transition o' st c n))"
  "h_safety (helmet_safety_on_transition o' st c n) = h_safety n" "h_mic (helmet_safety_on_transition o' st c n) = h_mic n"
proof -
  have "hud_ok m \<Longrightarrow> hud_ok (m\<lparr>hm_safety_state := s\<rparr>)" "hud_ok m \<Longrightarrow> hud_ok (m\<lparr>warning_count := 0\<rparr>)" for m s by (simp_all add: hud_ok_def)
  then show "hud_ok (s_model n) \<Longrightarrow> hud_ok (s_model (helmet_safety_on_transition o' st c n))"
    by (simp add: helmet_safety_on_transition_def helmet_hud_set_state_def helmet_hud_clear_warnings_def Let_def push_ok(1))
qed (simp_all add: helmet_safety_on_transition_def helmet_hud_set_state_def helmet_hud_clear_warnings_def Let_def)

interpretation helmet_banner: state_display helmet_safety_on_transition "\<lambda>n. hm_safety_state (s_model n)"
  by unfold_locales (rule transition_model(1))

lemma helmet_op_fields:
  "h_safety (helmet_safety_op h n) = h (h_safety n)" "h_mic (helmet_safety_op h n) = h_mic n" "hud_ok (s_model n) \<Longrightarrow> hud_ok (s_model (helmet_safety_op h n))"
proof -
  have k: "h_safety (foldl (\<lambda>a (old, new, cause). helmet_safety_on_transition old new cause a) n cs) = h_safety n \<and>
    h_mic (foldl (\<lambda>a (old, new, cause). helmet_safety_on_transition old new cause a) n cs) = h_mic n \<and>
    (hud_ok (s_model n) \<longrightarrow> hud_ok (s_model (foldl (\<lambda>a (old, new, cause). helmet_safety_on_transition old new cause a) n cs)))" for cs and n :: "'a helmet"
    by (induction cs rule: rev_induct) (auto simp: transition_model split: prod.splits)
  show "h_safety (helmet_safety_op h n) = h (h_safety n)" "h_mic (helmet_safety_op h n) = h_mic n" "hud_ok (s_model n) \<Longrightarrow> hud_ok (s_model (helmet_safety_op h n))"
    using k [of "n\<lparr>h_safety := h (h_safety n)\<rparr>" "new_calls (h_safety n) (h (h_safety n))"]
    by (simp_all add: helmet_safety_op_def on_core_transition_def)
qed

lemma send_fields [simp]:
  "core (h_safety (helmet_can_send send f n)) = core (h_safety n)" "s_model (helmet_can_send send f n) = s_model n" "h_mic (helmet_can_send send f n) = h_mic n"
  by (simp_all add: helmet_can_send_def)

lemma sends_fields:
  "core (h_safety (foldl (\<lambda>n f. helmet_can_send send (emit_frame f) n) n fs)) = core (h_safety n)"
  "s_model (foldl (\<lambda>n f. helmet_can_send send (emit_frame f) n) n fs) = s_model n" "h_mic (foldl (\<lambda>n f. helmet_can_send send (emit_frame f) n) n fs) = h_mic n"
  by (induction fs arbitrary: n) simp_all

lemma helmet_comms_fields:
  "core (h_safety (helmet_comms_turn send gs cu ts n)) = core (h_safety n)" "s_model (helmet_comms_turn send gs cu ts n) = s_model n"
  "h_mic (helmet_comms_turn send gs cu ts n) = h_mic n"
  by (simp_all add: helmet_comms_turn_def telem_send_def Let_def)

lemma marker_keeps: "hm_safety_state (hud_marker_cb mk m) = hm_safety_state m" "hud_ok m \<Longrightarrow> hud_ok (hud_marker_cb mk m)"
proof -
  show "hm_safety_state (hud_marker_cb mk m) = hm_safety_state m"
    by (simp add: hud_marker_cb_def helmet_hud_set_battery_def helmet_hud_clear_warnings_def split: option.splits)
  show "hud_ok m \<Longrightarrow> hud_ok (hud_marker_cb mk m)"
    using push_ok(1) [of m] by (auto simp: hud_marker_cb_def helmet_hud_set_battery_def helmet_hud_clear_warnings_def hud_ok_def split: option.splits)
qed

section \<open>Reachable states\<close>

text \<open>The safety core as only SAFETY frames, bus reports and ticks drive it.\<close>

definition never_asked :: "ps_safety_core \<Rightarrow> bool" where
  "never_asked c \<longleftrightarrow> \<not> want_operational c \<and> state c \<in> {PS_STATE_BOOT, PS_STATE_STANDBY, PS_STATE_ESTOP}"

lemma never_asked_step:
  assumes "never_asked (core s)"
  shows "never_asked (core (safety_rx t f s))" "never_asked (core (can_state_cb t st s))" "never_asked (core (tick_cb t s))"
proof -
  have "never_asked c \<Longrightarrow> never_asked (ps_safety_core_on_estop c t k)" for c t k by (simp add: never_asked_def ps_safety_core_on_estop_def go_def Let_def)
  moreover have "never_asked c \<Longrightarrow> never_asked (ps_safety_core_on_heartbeat c t hb)" for c t hb
    by (simp add: never_asked_def ps_safety_core_on_heartbeat_def ps_safety_core_on_estop_def Let_def)
  moreover have "never_asked c \<Longrightarrow> never_asked (snd (ps_safety_core_on_clear c t mg k))" for c t mg k
    by (auto simp: never_asked_def ps_safety_core_on_clear_def Let_def)
  ultimately show "never_asked (core (safety_rx t f s))" "never_asked (core (can_state_cb t st s))" "never_asked (core (tick_cb t s))"
    using assms by (auto simp: safety_rx_def can_state_cb_def tick_cb_def never_asked_def ps_safety_core_on_bus_down_def ps_safety_core_tick_def Let_def)
qed

text \<open>Everything the events keep.\<close>

definition helmet_inv :: "'w helmet \<Rightarrow> bool" where
  "helmet_inv n \<longleftrightarrow> hud_ok (s_model n) \<and> on_transition (core (h_safety n)) \<and> hm_safety_state (s_model n) = state (core (h_safety n)) \<and>
     never_asked (core (h_safety n)) \<and> (\<exists>rx. mic_ok (h_mic n) rx)"

lemma helmet_op_inv:
  assumes "helmet_inv n" "tracks (core (h_safety n)) (core (h (h_safety n)))" "never_asked (core (h (h_safety n)))"
  shows "helmet_inv (helmet_safety_op h n)"
proof -
  let ?n = "n\<lparr>h_safety := h (h_safety n)\<rparr>"
  have "hm_safety_state (s_model (helmet_safety_op h n)) = state (core (h (h_safety n)))"
    using helmet_banner.display_follows [OF assms(2), of ?n] assms(1) by (simp add: helmet_safety_op_def helmet_inv_def)
  moreover have "on_transition (core (h (h_safety n)))" using assms(1,2) by (simp add: tracks_def helmet_inv_def)
  ultimately show ?thesis using assms(1,3) helmet_op_fields [where h = h and n = n] by (simp add: helmet_inv_def)
qed

lemma mic_turn_inv:
  assumes "helmet_inv n"
  shows "\<exists>n'. helmet_mic_turn send raw now n = Some n' \<and> helmet_inv n'"
proof -
  obtain rx where "mic_ok (h_mic n) rx" using assms by (auto simp: helmet_inv_def)
  then obtain fs mc rx' where t: "audio_in_turn raw now (h_mic n) = Some (fs, mc)" "mic_ok mc rx'" using audio_turn by blast
  then show ?thesis using assms by (auto simp: helmet_mic_turn_def helmet_inv_def sends_fields)
qed

lemma helmet_step_inv:
  assumes "helmet_inv n"
  shows "\<exists>n'. helmet_step send gs cu e n = Some n' \<and> helmet_inv n'"
proof -
  have nk: "never_asked (core (h_safety n))" using assms by (simp add: helmet_inv_def)
  show ?thesis
proof (cases e)
  case (Mic_turn raw now)
  then show ?thesis using mic_turn_inv [OF assms] by simp
next
  case (Pub_timer ts)
  have "\<exists>rx. mic_ok (h_mic n) rx" using assms by (simp add: helmet_inv_def)
  then have "\<exists>rx. mic_ok (h_mic n\<lparr>s_wake_pending := False\<rparr>) rx" by (simp add: mic_ok_def)
  then show ?thesis using assms Pub_timer by (simp add: helmet_inv_def pub_timer_cb_def helmet_take_wake_event_def)
next
  case (Marker mk)
  then show ?thesis using assms marker_keeps [where mk = mk] by (simp add: helmet_inv_def)
next
  case (Cloud_poll up)
  then show ?thesis using assms by (simp add: helmet_inv_def helmet_hud_set_cloud_def hud_ok_def)
next
  case (Safety_frame t f)
  then show ?thesis using helmet_op_inv [OF assms, of "safety_rx t f"] never_asked_step(1) [OF nk] by (simp add: service_tracks(1))
next
  case (Bus_state t st)
  then show ?thesis using helmet_op_inv [OF assms, of "can_state_cb t st"] never_asked_step(2) [OF nk] by (simp add: service_tracks(2))
next
  case (Safety_timer t)
  then show ?thesis using helmet_op_inv [OF assms, of "tick_cb t"] never_asked_step(3) [OF nk] by (simp add: service_tracks(3))
next
  case Hud_redraw
  then show ?thesis using assms by (simp add: helmet_inv_def hud_redraw_def)
qed (use assms in \<open>simp_all add: helmet_inv_def helmet_comms_fields on_recv_def\<close>)
qed

text \<open>The screen changes only when it is redrawn.\<close>

lemma step_screen:
  assumes "helmet_step send gs cu e n = Some n'" "e \<noteq> Hud_redraw"
  shows "h_screen n' = h_screen n"
proof -
  have t: "h_screen (foldl (\<lambda>a (old, new, cause). helmet_safety_on_transition old new cause a) x cs) = h_screen x" for cs and x :: "'a helmet"
    by (induction cs rule: rev_induct) (auto simp: helmet_safety_on_transition_def Let_def split: prod.splits)
  then have op: "h_screen (helmet_safety_op h x) = h_screen x" for h and x :: "'a helmet"
    by (simp add: helmet_safety_op_def on_core_transition_def)
  have "h_screen (foldl (\<lambda>n f. helmet_can_send send (emit_frame f) n) x fs) = h_screen x" for fs and x :: "'a helmet"
    by (induction fs arbitrary: x) (simp_all add: helmet_can_send_def)
  then show ?thesis using assms
    by (cases e) (auto simp: op helmet_comms_turn_def telem_send_def helmet_can_send_def helmet_mic_turn_def pub_timer_cb_def on_recv_def
      Let_def split: prod.splits)
qed

lemma run_screen: "helmet_run send gs cu es n = Some n' \<Longrightarrow> Hud_redraw \<notin> set es \<Longrightarrow> h_screen n' = h_screen n"
proof (induction es arbitrary: n)
  case (Cons e es)
  obtain n1 where "helmet_step send gs cu e n = Some n1" "helmet_run send gs cu es n1 = Some n'" using Cons.prems(1) by (auto simp: bind_eq_Some_conv)
  then show ?case using Cons.IH [of n1] Cons.prems(2) step_screen [of send gs cu e n n1] by auto
qed simp

lemma helmet_run_append: "helmet_run send gs cu (xs @ ys) n = Option.bind (helmet_run send gs cu xs n) (helmet_run send gs cu ys)"
proof (induction xs arbitrary: n)
  case (Cons x xs)
  then show ?case by (cases "helmet_step send gs cu x n") simp_all
qed simp


lemma helmet_run_inv:
  assumes "helmet_inv n"
  shows "\<exists>n'. helmet_run send gs cu es n = Some n' \<and> helmet_inv n'"
  using assms
proof (induction es arbitrary: n)
  case (Cons e es)
  obtain n1 where "helmet_step send gs cu e n = Some n1" "helmet_inv n1" using helmet_step_inv [OF Cons.prems] by blast
  then show ?case using Cons.IH by simp
qed simp

text \<open>A helmet as it starts: the model cleared, the safety service just started, the microphone initialised.\<close>

definition helmet_started :: "'w helmet \<Rightarrow> bool" where
  "helmet_started n \<longleftrightarrow> s_model n = hud_init \<and> h_screen n = build_ui \<and> (\<exists>t. core (h_safety n) = ps_safety_core_init t True) \<and>
     (\<exists>ms m. h_mic n = helmet_audio_in_start ms m \<and> length (pending (s_tx m)) = 16)"

lemma started_inv:
  assumes "helmet_started n"
  shows "helmet_inv n"
proof -
  obtain ms m where m: "h_mic n = helmet_audio_in_start ms m" "length (pending (s_tx m)) = 16" using assms by (auto simp: helmet_started_def)
  have "rx_ok \<lparr> dec = ps_adpcm_init, expect_seq = 0, locked = False, gaps = 0, rx_ring = replicate 4096 0, rx_head = 0, rx_tail = 0 \<rparr>"
    by (simp add: rx_ok_def)
  then have "\<exists>rx. mic_ok (h_mic n) rx" using mic_start_ok [OF m(2)] unfolding m(1) by blast
  then show ?thesis using assms by (auto simp: helmet_started_def helmet_inv_def hud_init_def hud_ok_def never_asked_def ps_safety_core_init_def)
qed

section \<open>Properties\<close>

text \<open>The banner and its colour for the states the helmet's core can be in.\<close>

abbreviation banner_table :: "(u8 \<times> string \<times> palette option) set" where
  "banner_table \<equiv> {(PS_STATE_BOOT, ''BOOT'', Some Blue_grey), (PS_STATE_STANDBY, ''STANDBY'', Some Amber), (PS_STATE_ESTOP, ''E-STOP'', Some Red)}"

text \<open>Claim C26. The banner tells the truth as of the last redraw: in any sequence of frames, bus reports, ticks, HUD markers, audio, beacons and redraws from
  start-up (every one of which returns), the screen shows, from a redraw to the next, BOOT in blue-grey, STANDBY in amber or E-STOP in red, whichever
  state the safety core was in at that redraw, and nothing else. No marker, however composed, and no other event changes it; the model the next
  redraw reads has the core's state before the dispatch that changed it ends.\<close>

theorem hud_banner_truthful:
  assumes "helmet_started n" "Hud_redraw \<notin> set es'"
  shows "\<exists>n1 n'. helmet_run send gs cu es n = Some n1 \<and> helmet_run send gs cu (es @ Hud_redraw # es') n = Some n' \<and>
    (state (core (h_safety n1)), banner (h_screen n'), banner_colour (h_screen n')) \<in> banner_table \<and>
    hm_safety_state (s_model n') = state (core (h_safety n'))"
proof -
  obtain n1 where n1: "helmet_run send gs cu es n = Some n1" "helmet_inv n1" using helmet_run_inv [OF started_inv [OF assms(1)]] by blast
  have "helmet_inv (hud_redraw n1)" using helmet_step_inv [OF n1(2), of send gs cu Hud_redraw] by simp
  then obtain n' where n': "helmet_run send gs cu es' (hud_redraw n1) = Some n'" "helmet_inv n'" using helmet_run_inv by blast
  have "h_screen n' = hud_turn (s_model n1)" using run_screen [OF n'(1) assms(2)] by (simp add: hud_redraw_def)
  moreover have "hm_safety_state (s_model n1) = state (core (h_safety n1))" "state (core (h_safety n1)) \<in> {PS_STATE_BOOT, PS_STATE_STANDBY, PS_STATE_ESTOP}"
    using n1(2) by (simp_all add: helmet_inv_def never_asked_def)
  ultimately have "(state (core (h_safety n1)), banner (h_screen n'), banner_colour (h_screen n')) \<in> banner_table"
    by (auto simp: hud_turn_def name_for_state_def colour_for_state_def)
  moreover have "helmet_run send gs cu (es @ Hud_redraw # es') n = Some n'" using n1(1) n'(1) by (simp add: helmet_run_append)
  ultimately show ?thesis using n1(1) n'(2) by (auto simp: helmet_inv_def)
qed

text \<open>Claim C27. The helmet never follows the suit into operation: nothing on this node passes a MODE_SET to its safety core, so in every run the
  core is in BOOT, STANDBY or ESTOP. The banner never reads ACTIVE or PASSIVE, and the loss of the link, which the core reports only on the way
  out of OPERATIONAL, never reaches the wearer.\<close>

theorem helmet_never_operational:
  assumes "helmet_started n" "helmet_run send gs cu es n = Some n'"
  shows "state (core (h_safety n')) \<in> {PS_STATE_BOOT, PS_STATE_STANDBY, PS_STATE_ESTOP} \<and>
    banner (hud_turn (s_model n')) \<in> {''BOOT'', ''STANDBY'', ''E-STOP''}"
proof -
  have "helmet_inv n'" using helmet_run_inv [OF started_inv [OF assms(1)], of send gs cu es] assms(2) by simp
  then show ?thesis by (auto simp: helmet_inv_def never_asked_def hud_turn_def name_for_state_def)
qed

text \<open>The warning list is a log of the last six: pushing a warning shows it at the end, cut to 39 characters, and drops the oldest when six
  are shown; the text drawn is the shown warnings, one to a line, complete, and fits its 248-byte buffer with its terminating zero.\<close>

lemma hud_warnings_last_six:
  assumes "hud_ok m" "m' = helmet_hud_push_warning (Some t) m"
  shows "hud_ok m' \<and> shown_warnings m' = drop (length (shown_warnings m) + 1 - 6) (shown_warnings m @ [take 39 t]) \<and>
    warn_list (hud_turn m') = concat (map (\<lambda>w. w @ [CHR 0x0A]) (shown_warnings m')) \<and> length (warn_list (hud_turn m')) < 248"
proof -
  have ok: "hud_ok m'" using push_ok(1) [OF assms(1)] by (simp add: assms(2))
  note w = warn_text [OF ok order_refl refl]
  have "hud_warn_text m' = concat (map (\<lambda>w. w @ [CHR 0x0A]) (shown_warnings m'))" "length (hud_warn_text m') \<le> 40 * warning_count m'"
    unfolding hud_warn_text_def shown_warnings_def using w by blast+
  moreover have "warning_count m' \<le> 6" using ok by (simp add: hud_ok_def)
  ultimately show ?thesis using ok push_ok(2) [OF assms(1), of t] by (simp add: hud_turn_def assms(2))
qed

section \<open>Witnesses\<close>

definition demo_helmet :: "unit helmet" where
  "demo_helmet =
     \<lparr> h_safety = \<lparr> core = ps_safety_core_init 0 True, can = (), s_node_id = 6, safety_low = 0, estop_seq = 0, started = True \<rparr>, s_model = hud_init, h_screen = build_ui,
       h_mic = helmet_audio_in_start 170000 \<lparr> s_tx = \<lparr> enc = ps_adpcm_init, frame_seq = 0, dir = 1, src_node = 6, dst_node = 8, frames_since_sync = 0,
                tx_started = False, pending = replicate 16 0, pending_n = 0 \<rparr>, s_gate = ps_egate_init 170000 300 8000, streaming = False, s_wake_pending = False \<rparr>,
       h_rx = \<lparr> dec = ps_adpcm_init, expect_seq = 0, locked = False, gaps = 0, rx_ring = replicate 4096 0, rx_head = 0, rx_tail = 0 \<rparr>,
       s_env_seq = 0, s_stats_seq = 0, s_rx_count = 0 \<rparr>"

lemma demo_helmet_started: "helmet_started demo_helmet"
  unfolding helmet_started_def demo_helmet_def by (intro conjI exI) (rule refl | simp)+

abbreviation demo_can_stats :: ps_can_stats where
  "demo_can_stats \<equiv> \<lparr> rx_frames = 0, tx_frames = 0, rx_dropped = 0, tx_timeouts = 0, bus_errors = 0, recoveries = 0 \<rparr>"

abbreviation demo_helmet_events :: "helmet_event list" where
  "demo_helmet_events \<equiv> [Safety_timer 5, Marker \<lparr> mk_ns = Some ''clear'', mk_scale_x = Fin 0, mk_text = None \<rparr>]"

abbreviation demo_helmet_estop :: ps_can_frame where
  "demo_helmet_estop \<equiv> \<lparr> f_id = ps_can_id_pack 0 8 0 PS_T_ESTOP 0, f_dlc = 8, f_data = replicate 8 0 \<rparr>"

abbreviation demo_helmet_run :: "unit helmet option" where
  "demo_helmet_run \<equiv> helmet_run (\<lambda>w f. (ESP_OK, w)) (\<lambda>_. demo_can_stats) 0 demo_helmet_events demo_helmet"

theorem hud_banner_truthful_witness:
  "\<exists>n1 n'. demo_helmet_run = Some n1 \<and> state (core (h_safety n1)) = PS_STATE_STANDBY \<and>
     helmet_run (\<lambda>w f. (ESP_OK, w)) (\<lambda>_. demo_can_stats) 0 (demo_helmet_events @ Hud_redraw # [Safety_frame 9 demo_helmet_estop]) demo_helmet = Some n' \<and>
     banner (h_screen n') = ''STANDBY''"
proof -
  have s: "\<exists>n1. demo_helmet_run = Some n1 \<and> state (core (h_safety n1)) = PS_STATE_STANDBY"
    by (simp add: demo_helmet_def helmet_op_fields tick_cb_def ps_safety_core_tick_def ps_safety_core_init_def go_def)
  show ?thesis using hud_banner_truthful [OF demo_helmet_started, of "[Safety_frame 9 demo_helmet_estop]" "\<lambda>w f. (ESP_OK, w)" "\<lambda>_. demo_can_stats" 0 demo_helmet_events] s
    by auto
qed

theorem helmet_never_operational_witness:
  "\<exists>n'. demo_helmet_run = Some n' \<and> banner (hud_turn (s_model n')) \<in> {''BOOT'', ''STANDBY'', ''E-STOP''}"
  using helmet_run_inv [OF started_inv [OF demo_helmet_started]] helmet_never_operational [OF demo_helmet_started] by blast

end
