(* ===== verification/Orch_Parts.thy ===== *)
theory Orch_Parts
  imports Spi_Frame Safety_Core Audio Ieee32 "HOL-Library.Signed_Division"
begin

text \<open>
  The parts of the orchestrator's bridge (Node 8), under \<open>orchestrator/ros2_ws/src/suit_canspi_bridge/src/\<close>: the frame
  parser (\<open>frame_parser.cpp\<close>), the heartbeat emitter (\<open>heartbeat.cpp\<close>), the e-stop service with its persisted counter
  (\<open>estop_service.cpp\<close>), the XRCE demultiplexer (\<open>xrce_demux.cpp\<close>) and the voice relay (\<open>audio_relay.cpp\<close>). Time is in
  nanoseconds of the steady clock; what the file system, the pseudo-terminals and ROS answer are arguments.
\<close>

type_synonym u64 = "64 word"

text \<open>The payload of a record: eight bytes, zero after what was copied in.\<close>

definition record_data :: "bytes \<Rightarrow> bytes" where
  "record_data p = blit 0 p (replicate 8 0)"

section \<open>Frame parser\<close>

record frame_stats =
  frames_ok :: u64
  idle_frames :: u64
  crc_errors :: u64
  seq_gaps :: u64
  resyncs :: u64

record frame_parser =
  fp_tx_seq :: u8
  fp_have_rx_seq :: bool
  fp_last_rx_seq :: u8
  fp_stats :: frame_stats

datatype parse_result = kOk | kIdle | kError

definition is_all_zero :: "bytes \<Rightarrow> bool" where
  "is_all_zero buf = list_all (\<lambda>b. b = 0) buf"

definition fp_build :: "bytes \<Rightarrow> u8 \<Rightarrow> ps_can_record list \<Rightarrow> frame_parser \<Rightarrow> (bytes \<times> nat) \<times> frame_parser" where
  "fp_build buf flags recs p =
     (let (out, used) = ps_spi_frame_build buf flags (fp_tx_seq p) recs
      in ((out, used), if used > 0 then p\<lparr>fp_tx_seq := fp_tx_seq p + 1\<rparr> else p))"

text \<open>The records of an accepted frame: a slot with a length over 8 is left out.\<close>

definition view_records_ok :: "ps_spi_view \<Rightarrow> ps_can_record list" where
  "view_records_ok v =
     concat (map (\<lambda>i. case ps_spi_view_record v i of (PS_SPI_OK, Some r) \<Rightarrow> [r] | _ \<Rightarrow> []) [0..<unat (view_count v)])"

definition fp_parse :: "bytes \<Rightarrow> frame_parser \<Rightarrow> (parse_result \<times> ps_can_record list \<times> u8) \<times> frame_parser" where
  "fp_parse buf p =
     (if is_all_zero buf then ((kIdle, [], 0), p\<lparr>fp_stats := (fp_stats p)\<lparr>idle_frames := idle_frames (fp_stats p) + 1\<rparr>\<rparr>)
      else case ps_spi_frame_parse buf of
        Inl rc \<Rightarrow>
          ((kError, [], 0),
           if rc = PS_SPI_EBADMAGIC then p\<lparr>fp_stats := (fp_stats p)\<lparr>resyncs := resyncs (fp_stats p) + 1\<rparr>\<rparr>
           else p\<lparr>fp_stats := (fp_stats p)\<lparr>crc_errors := crc_errors (fp_stats p) + 1\<rparr>\<rparr>)
      | Inr v \<Rightarrow>
          let p = (if fp_have_rx_seq p \<and> view_seq v \<noteq> fp_last_rx_seq p + 1
                   then p\<lparr>fp_stats := (fp_stats p)\<lparr>seq_gaps := seq_gaps (fp_stats p) + 1\<rparr>\<rparr> else p);
              p = p\<lparr>fp_have_rx_seq := True, fp_last_rx_seq := view_seq v\<rparr>
          in ((kOk, view_records_ok v, view_flags v), p\<lparr>fp_stats := (fp_stats p)\<lparr>frames_ok := frames_ok (fp_stats p) + 1\<rparr>\<rparr>))"

section \<open>Heartbeat\<close>

record heartbeat_gate_inputs =
  transport_healthy :: bool
  estop_latched :: bool
  rclcpp_ok :: bool

definition heartbeat_gate_open :: "heartbeat_gate_inputs \<Rightarrow> bool" where
  "heartbeat_gate_open g \<longleftrightarrow> transport_healthy g \<and> \<not> estop_latched g \<and> rclcpp_ok g"

record heartbeat_emitter =
  em_seq :: u16
  em_last_emit :: "int option" \<comment> \<open>None while \<open>have_last_emit_\<close> is off\<close>

text \<open>A duration in milliseconds.\<close>

definition to_ms :: "int \<Rightarrow> int" where
  "to_ms ns = ns sdiv 1000000"

definition heartbeat_record :: "u16 \<Rightarrow> u8 \<Rightarrow> u8 \<Rightarrow> u32 \<Rightarrow> ps_can_record" where
  "heartbeat_record sq flags src_state uptime =
     \<lparr> rec_id = ps_can_id_pack PS_CLS_SAFETY PS_NODE_ORCH PS_NODE_BROADCAST PS_T_HEARTBEAT (ucast (sq AND 0xFF)),
       rec_bus = PS_SPI_BUS_CAN1, rec_dlc = 8, rec_ts_ms = 0,
       rec_data = record_data (enc_heartbeat \<lparr> hb_seq = sq, hb_flags = flags, hb_src_state = src_state, hb_uptime_ms = uptime \<rparr>) \<rparr>"

definition heartbeat_tick ::
    "int \<Rightarrow> heartbeat_gate_inputs \<Rightarrow> bool \<Rightarrow> bool \<Rightarrow> u8 \<Rightarrow> u32 \<Rightarrow> heartbeat_emitter \<Rightarrow> ps_can_record option \<times> heartbeat_emitter" where
  "heartbeat_tick now g cloud_up degraded src_state uptime h =
     (if \<not> heartbeat_gate_open g then (None, h)
      else if (case em_last_emit h of Some t \<Rightarrow> to_ms (now - t) < int (unat PS_HEARTBEAT_PERIOD_MS) | None \<Rightarrow> False) then (None, h)
      else
        let h = h\<lparr>em_last_emit := Some now\<rparr>;
            flags = (if estop_latched g then PS_HB_ESTOP_LATCHED else 0) OR (if degraded then PS_HB_DEGRADED else 0) OR
                    (if cloud_up then PS_HB_CLOUD_UP else 0)
        in (Some (heartbeat_record (em_seq h) flags src_state uptime), h\<lparr>em_seq := em_seq h + 1\<rparr>))"

section \<open>E-stop service\<close>

text \<open>The files, by path, with the number \<open>operator>>\<close> reads from them; \<open>writable\<close> says which paths can be opened for writing
  (their directory is created first).\<close>

type_synonym files = "string \<Rightarrow> u32 option"

record estop_service =
  svc_counter_path :: string
  svc_seq :: u16
  svc_latched :: bool
  svc_latched_cause :: u8

definition filename :: "string \<Rightarrow> string" where
  "filename p = rev (takeWhile (\<lambda>c. c \<noteq> CHR ''/'') (rev p))"

definition load_and_bump_counter :: "(string \<Rightarrow> bool) \<Rightarrow> files \<Rightarrow> estop_service \<Rightarrow> u32 \<times> files \<times> estop_service" where
  "load_and_bump_counter writable fs s =
     (let last_c = (case fs (svc_counter_path s) of Some v \<Rightarrow> v | None \<Rightarrow> 0);
          nxt = last_c + 1
      in if writable (svc_counter_path s) then (nxt, fs(svc_counter_path s := Some nxt), s)
         else
           let fallback = ''/tmp/'' @ filename (svc_counter_path s);
               s = s\<lparr>svc_counter_path := fallback\<rparr>
           in (nxt, if writable fallback then fs(fallback := Some nxt) else fs, s))"

definition estop_record :: "u8 \<Rightarrow> u16 \<Rightarrow> u32 \<Rightarrow> ps_can_record" where
  "estop_record origin sq uptime =
     \<lparr> rec_id = ps_can_id_pack PS_CLS_SAFETY origin PS_NODE_BROADCAST PS_T_ESTOP (ucast (sq AND 0xFF)),
       rec_bus = PS_SPI_BUS_CAN1, rec_dlc = 8, rec_ts_ms = 0,
       rec_data = record_data (enc_estop \<lparr> es_cause = PS_ESTOP_OPERATOR, es_origin_node = origin, es_seq = sq, es_uptime_ms = uptime \<rparr>) \<rparr>"

definition clear_record :: "u8 \<Rightarrow> u32 \<Rightarrow> ps_can_record" where
  "clear_record origin k =
     \<lparr> rec_id = ps_can_id_pack PS_CLS_SAFETY origin PS_NODE_BROADCAST PS_T_CLEAR_ESTOP 0,
       rec_bus = PS_SPI_BUS_CAN1, rec_dlc = 8, rec_ts_ms = 0,
       rec_data = record_data (enc_clear_estop \<lparr> ce_magic = PS_CLEAR_ESTOP_MAGIC, ce_counter = k \<rparr>) \<rparr>"

text \<open>The records it hands to \<open>emit_\<close>, the files and the service. \<open>ups\<close>: the uptime as read in each round of the loop.\<close>

definition estop_handle ::
    "(string \<Rightarrow> bool) \<Rightarrow> u8 \<Rightarrow> (nat \<Rightarrow> u32) \<Rightarrow> bool \<Rightarrow> files \<Rightarrow> estop_service \<Rightarrow> ps_can_record list \<times> files \<times> estop_service" where
  "estop_handle writable origin ups engage fs s =
     (if engage then
        (map (\<lambda>i. estop_record origin (svc_seq s + of_nat i) (ups i)) [0..<PS_ESTOP_REPEAT], fs,
         s\<lparr>svc_seq := svc_seq s + of_nat PS_ESTOP_REPEAT, svc_latched := True, svc_latched_cause := PS_ESTOP_OPERATOR\<rparr>)
      else
        let (k, fs, s) = load_and_bump_counter writable fs s
        in ([clear_record origin k], fs, s\<lparr>svc_latched := False, svc_latched_cause := 0\<rparr>))"

section \<open>XRCE\<close>

record edge_node =
  en_id :: u8
  en_name :: string
  en_bus :: u8

definition kEdgeNodes :: "edge_node list" where
  "kEdgeNodes =
     [\<lparr> en_id = 1, en_name = ''node_arm_right'', en_bus = PS_SPI_BUS_CAN1 \<rparr>, \<lparr> en_id = 2, en_name = ''node_arm_left'', en_bus = PS_SPI_BUS_CAN1 \<rparr>,
      \<lparr> en_id = 3, en_name = ''node_leg_right'', en_bus = PS_SPI_BUS_CAN2 \<rparr>, \<lparr> en_id = 4, en_name = ''node_leg_left'', en_bus = PS_SPI_BUS_CAN2 \<rparr>,
      \<lparr> en_id = 5, en_name = ''node_flight_actuation'', en_bus = PS_SPI_BUS_CAN2 \<rparr>, \<lparr> en_id = 6, en_name = ''node_helmet_interface'', en_bus = PS_SPI_BUS_CAN1 \<rparr>]"

definition index_of :: "u8 \<Rightarrow> nat option" where
  "index_of nid = List.find (\<lambda>i. en_id (kEdgeNodes ! i) = nid) [0..<6]"

text \<open>What a \<open>write\<close> to a terminal answers.\<close>

datatype write_answer = Wrote nat | Interrupted | Write_failed

text \<open>The write loop: the result and the bytes written, or None when the answers run out before the loop ends.\<close>

fun write_loop :: "write_answer list \<Rightarrow> bytes \<Rightarrow> (bool \<times> bytes) option" where
  "write_loop as [] = Some (True, [])"
| "write_loop [] data = None"
| "write_loop (a # as) data =
     (case a of
        Interrupted \<Rightarrow> write_loop as data
      | Write_failed \<Rightarrow> Some (False, [])
      | Wrote n \<Rightarrow> map_option (\<lambda>(ok, w). (ok, take n data @ w)) (write_loop as (drop n data)))"

text \<open>\<open>fds\<close>: which terminals are open.\<close>

definition write_inbound :: "bool list \<Rightarrow> u8 \<Rightarrow> write_answer list \<Rightarrow> bytes \<Rightarrow> (bool \<times> bytes) option" where
  "write_inbound fds nid as data =
     (case index_of nid of None \<Rightarrow> Some (False, []) | Some i \<Rightarrow> if \<not> fds ! i then Some (False, []) else write_loop as data)"

definition xrce_record :: "edge_node \<Rightarrow> bytes \<Rightarrow> ps_can_record" where
  "xrce_record nd chunk =
     \<lparr> rec_id = ps_can_id_pack PS_CLS_XRCE PS_NODE_ORCH (en_id nd) PS_T_XRCE_STREAM 0, rec_bus = en_bus nd,
       rec_dlc = of_nat (length chunk), rec_ts_ms = 0, rec_data = record_data chunk \<rparr>"

text \<open>\<open>ready i\<close>: what a read of terminal \<open>i\<close> returns, at most 256 bytes; None when it has nothing or fails.\<close>

definition poll_outbound :: "bool list \<Rightarrow> (nat \<Rightarrow> bytes option) \<Rightarrow> ps_can_record list" where
  "poll_outbound fds ready =
     concat (map (\<lambda>i. if fds ! i then (case ready i of None \<Rightarrow> [] | Some b \<Rightarrow> map (xrce_record (kEdgeNodes ! i)) (chunks8 (take 256 b))) else []) [0..<6])"

section \<open>Voice relay\<close>

record audio_relay =
  ar_decode_state :: ps_adpcm_state
  ar_encode_state :: ps_adpcm_state
  ar_uplink_seq :: u32
  ar_down_frame_seq :: u16
  ar_frames_since_sync :: nat
  ar_outbound :: "ps_can_record list"

text \<open>A chunk on the ROS side; the sample bytes of one published by the relay are its 16-bit samples.\<close>

datatype codec = CODEC_PCM16 | CODEC_ADPCM8K | Codec_other u8

definition handle_uplink_record :: "ps_can_record \<Rightarrow> audio_relay \<Rightarrow> (u8 \<times> u32 \<times> int list) option \<times> audio_relay" where
  "handle_uplink_record r a =
     (let parts = ps_can_id_unpack (rec_id r) in
      if id_cls parts \<noteq> PS_CLS_AUDIO then (None, a)
      else if id_type parts = PS_T_AUDIO_SYNC then
        let sync = PS_WIRE_READ dec_audio_sync (rec_data r) in
        (None, if ay_dir sync = 1
               then a\<lparr>ar_decode_state := \<lparr> predictor = sint (ay_predictor sync), step_index = uint (ay_step_index sync) \<rparr>\<rparr> else a)
      else if id_type parts \<noteq> PS_T_AUDIO_UP then (None, a)
      else if rec_dlc r = 0 then (None, a)
      else
        let (pcm, st) = ps_adpcm_decode (ar_decode_state a) (take (unat (rec_dlc r)) (rec_data r))
        in (Some (id_src parts, ar_uplink_seq a, pcm), a\<lparr>ar_decode_state := st, ar_uplink_seq := ar_uplink_seq a + 1\<rparr>))"

definition down_sync_record :: "audio_relay \<Rightarrow> ps_can_record" where
  "down_sync_record a =
     \<lparr> rec_id = ps_can_id_pack PS_CLS_AUDIO PS_NODE_ORCH PS_NODE_HELMET PS_T_AUDIO_SYNC 0, rec_bus = PS_SPI_BUS_CAN1, rec_dlc = 8, rec_ts_ms = 0,
       rec_data = record_data (enc_audio_sync \<lparr> ay_dir = 0, ay_step_index = of_int (step_index (ar_encode_state a)),
         ay_predictor = of_int (predictor (ar_encode_state a)), ay_frame_seq = ar_down_frame_seq a, ay_rsvd = 0 \<rparr>) \<rparr>"

definition down_frame_record :: "bytes \<Rightarrow> audio_relay \<Rightarrow> ps_can_record" where
  "down_frame_record chunk a =
     \<lparr> rec_id = ps_can_id_pack PS_CLS_AUDIO PS_NODE_ORCH PS_NODE_HELMET PS_T_AUDIO_DOWN (ucast (ar_down_frame_seq a AND 0xFF)),
       rec_bus = PS_SPI_BUS_CAN1, rec_dlc = of_nat (length chunk), rec_ts_ms = 0, rec_data = record_data chunk \<rparr>"

definition down_step :: "audio_relay \<Rightarrow> bytes \<Rightarrow> audio_relay" where
  "down_step a chunk =
     (let a = (if ar_frames_since_sync a = 0 then a\<lparr>ar_outbound := ar_outbound a @ [down_sync_record a]\<rparr> else a);
          a = a\<lparr>ar_outbound := ar_outbound a @ [down_frame_record chunk a]\<rparr>
      in a\<lparr>ar_down_frame_seq := ar_down_frame_seq a + 1, ar_frames_since_sync := (ar_frames_since_sync a + 1) mod 50\<rparr>)"

definition process_adpcm_down :: "bytes \<Rightarrow> audio_relay \<Rightarrow> audio_relay" where
  "process_adpcm_down b a = foldl down_step a (chunks8 b)"

text \<open>The 16-bit samples of a byte buffer, little-endian.\<close>

fun pcm16 :: "bytes \<Rightarrow> int list" where
  "pcm16 (l # h # b) = sint (ld16 l h :: i16) # pcm16 b"
| "pcm16 _ = []"

definition on_downlink :: "codec \<Rightarrow> bytes \<Rightarrow> audio_relay \<Rightarrow> audio_relay" where
  "on_downlink c b a =
     (case c of
        CODEC_ADPCM8K \<Rightarrow> process_adpcm_down b a
      | CODEC_PCM16 \<Rightarrow>
          let n_samples = length b div 2; n_even = n_samples - n_samples mod 2 in
          if n_even = 0 then a
          else
            let (adpcm, st) = ps_adpcm_encode (ar_encode_state a) (take n_even (pcm16 b))
            in process_adpcm_down adpcm (a\<lparr>ar_encode_state := st\<rparr>)
      | Codec_other k \<Rightarrow> a)"

definition drain_outbound :: "audio_relay \<Rightarrow> ps_can_record list \<times> audio_relay" where
  "drain_outbound a = (ar_outbound a, a\<lparr>ar_outbound := []\<rparr>)"

section \<open>Records the format carries whole\<close>

definition clean :: "ps_can_record \<Rightarrow> bool" where
  "clean r \<longleftrightarrow> wf_record r \<and> rec_dlc r \<le> 8 \<and> trunc_record r = r"

lemma take_bit_ucast: "take_bit n (ucast (take_bit n x)) = (take_bit n (ucast x) :: u32)" for x :: u8
  by (rule bit_word_eqI) (auto simp: bit_simps)


lemma pack_29_bits [simp]: "ps_can_id_pack c s d t l AND 0x1FFFFFFF = ps_can_id_pack c s d t l"
proof -
  have "ps_can_id_pack (take_bit 3 c) (take_bit 5 s) (take_bit 5 d) t l = ps_can_id_pack c s d t l"
    unfolding ps_can_id_pack_def mask_simps by (simp add: take_bit_ucast)
  then show ?thesis using pack_fields [of "ps_can_id_pack c s d t l"] by (simp add: cls_pack src_pack dst_pack)
qed

lemma length_record_data: "length p \<le> 8 \<Longrightarrow> length (record_data p) = 8"
  by (simp add: record_data_def)

lemma record_data_8 [simp]: "length p = 8 \<Longrightarrow> record_data p = p"
  by (simp add: record_data_def blit_def)

lemma take_record_data: "n \<le> length p \<Longrightarrow> take n (record_data p) = take n p"
  by (simp add: record_data_def blit_def)

lemma clean_pack:
  assumes "rec_id r = ps_can_id_pack c s d t l" "rec_bus r \<in> {0, 1, 3}" "rec_dlc r \<le> 8" "length (rec_data r) = 8"
  shows "clean r"
proof -
  have "rec_dlc r AND 0xF = rec_dlc r"
    using assms(3) unfolding mask_simps by (simp add: take_bit_unat_small word_le_nat_alt)
  then show ?thesis using assms by (auto simp: clean_def wf_record_def trunc_record_def)
qed

lemma clean_heartbeat [simp]: "clean (heartbeat_record sq fl st up)"
  by (rule clean_pack) (simp_all add: heartbeat_record_def hbc.length_enc)

lemma clean_estop [simp]: "clean (estop_record o' sq up)"
  by (rule clean_pack) (simp_all add: estop_record_def esc.length_enc)

lemma clean_clear [simp]: "clean (clear_record o' k)"
  by (rule clean_pack) (simp_all add: clear_record_def cec.length_enc)

lemma clean_xrce: "length ch \<le> 8 \<Longrightarrow> clean (xrce_record nd ch)" if "nd \<in> set kEdgeNodes"
  by (rule clean_pack) (use that in \<open>auto simp: xrce_record_def kEdgeNodes_def length_record_data word_le_nat_alt unsigned_of_nat take_bit_nat_eq_self\<close>)

lemma clean_down_sync [simp]: "clean (down_sync_record a)"
  by (rule clean_pack) (simp_all add: down_sync_record_def ayc.length_enc)

lemma clean_down_frame: "length ch \<le> 8 \<Longrightarrow> clean (down_frame_record ch a)"
  by (rule clean_pack) (simp_all add: down_frame_record_def length_record_data word_le_nat_alt unsigned_of_nat take_bit_nat_eq_self)

text \<open>A frame built from such records parses to them.\<close>

lemma view_records_all:
  assumes "unat (view_count v) = length recs"
    and "\<And>i. i < length recs \<Longrightarrow> ps_spi_view_record v i = (PS_SPI_OK, Some (recs ! i))"
  shows "view_records_ok v = recs"
proof -
  let ?f = "\<lambda>i. case ps_spi_view_record v i of (PS_SPI_OK, Some r) \<Rightarrow> [r] | _ \<Rightarrow> []"
  have "map ?f [0..<length recs] = map (\<lambda>i. [recs ! i]) [0..<length recs]"
    using assms(2) by (intro map_cong) simp_all
  moreover have "concat (map (\<lambda>i. [recs ! i]) [0..<length recs]) = recs" by (simp add: concat_map_singleton map_nth)
  ultimately show ?thesis unfolding view_records_ok_def assms(1) by (simp only:)
qed

lemma build_parses_back:
  assumes "length recs \<le> PS_SPI_MAX_RECORDS" "list_all clean recs"
    and "fp_build (replicate PS_SPI_XFER_SIZE 0) fl recs p = ((tx, used), p')"
  shows "length tx = PS_SPI_XFER_SIZE \<and> used = 8 + length recs * 16 \<and> fst (fp_parse tx q) = (kOk, recs, fl) \<and> fp_tx_seq p' = fp_tx_seq p + 1"
proof -
  have c: "\<forall>r \<in> set recs. wf_record r" "\<And>i. i < length recs \<Longrightarrow> clean (recs ! i)"
    using assms(2) by (auto simp: list_all_iff clean_def)
  obtain t v where t: "ps_spi_frame_build (replicate 512 0) fl (fp_tx_seq p) recs = (t, 8 + length recs * 16)" "length t = 512"
      "ps_spi_frame_parse t = Inr v" "view_flags v = fl" "unat (view_count v) = length recs"
      "\<forall>i < length recs. ps_spi_view_record v i = (if rec_dlc (recs ! i) AND 0xF \<le> 8 then PS_SPI_OK else PS_SPI_EBADCOUNT, Some (trunc_record (recs ! i)))"
    using frame_roundtrip_view [of "replicate 512 0" recs fl "fp_tx_seq p"] assms(1) c(1) by auto
  have one: "ps_spi_view_record v i = (PS_SPI_OK, Some (recs ! i))" if "i < length recs" for i
    using t(6) that c(2) [OF that] by (auto simp: clean_def trunc_record_def dest!: arg_cong [of _ _ rec_dlc])
  have "t ! 2 \<noteq> 0" using t(3) by (auto simp: ps_spi_frame_parse_def split: if_splits)
  then have nz: "\<not> is_all_zero t" using t(2) by (auto simp: is_all_zero_def list_all_length intro!: exI [of _ 2])
  have "tx = t" "used = 8 + length recs * 16" "p' = p\<lparr>fp_tx_seq := fp_tx_seq p + 1\<rparr>"
    using assms(3) t(1) by (auto simp: fp_build_def)
  then show ?thesis
    using t view_records_all [OF t(5) one] nz by (simp add: fp_parse_def Let_def)
qed

section \<open>The parts\<close>

lemma gate_shut: "\<not> heartbeat_gate_open g \<Longrightarrow> heartbeat_tick now g cl dg st up h = (None, h)"
  by (simp add: heartbeat_tick_def)

lemma tick_emits:
  assumes "heartbeat_tick now g cl dg st up h = (Some r, h')"
  shows "heartbeat_gate_open g \<and> em_last_emit h' = Some now \<and> em_seq h' = em_seq h + 1 \<and>
    (\<forall>t. em_last_emit h = Some t \<longrightarrow> 10 \<le> to_ms (now - t)) \<and>
    r = heartbeat_record (em_seq h) ((if dg then PS_HB_DEGRADED else 0) OR (if cl then PS_HB_CLOUD_UP else 0)) st up"
  using assms by (auto simp: heartbeat_tick_def heartbeat_gate_open_def Let_def split: if_splits option.splits)

lemma tick_silent: "heartbeat_tick now g cl dg st up h = (None, h') \<Longrightarrow> h' = h"
  by (auto simp: heartbeat_tick_def Let_def split: if_splits)

text \<open>Everything the write loop reports as done is written, and nothing but a prefix when it fails.\<close>

lemma write_loop_result: "write_loop as data = Some (ok, w) \<Longrightarrow> if ok then w = data else \<exists>rest. data = w @ rest"
proof (induction as data arbitrary: ok w rule: write_loop.induct)
  case (3 a as x xs)
  show ?case
  proof (cases a)
    case (Wrote n)
    then obtain w' where w: "write_loop as (drop n (x # xs)) = Some (ok, w')" "w = take n (x # xs) @ w'"
      using "3.prems" by auto
    note ih = "3.IH"(1) [OF Wrote w(1)]
    show ?thesis
    proof (cases ok)
      case True
      then show ?thesis using ih w(2) by (simp only: if_True append_take_drop_id)
    next
      case False
      then obtain rest where "drop n (x # xs) = w' @ rest" using ih by auto
      then have "x # xs = w @ rest" using w(2) append_take_drop_id [of n "x # xs"] by (metis append_assoc)
      then show ?thesis using False by auto
    qed
  qed (use 3 in auto)
qed auto

definition xrce_payload :: "ps_can_record \<Rightarrow> bytes" where
  "xrce_payload r = take (unat (rec_dlc r)) (rec_data r)"

lemma payload_xrce_record: "length ch \<le> 8 \<Longrightarrow> xrce_payload (xrce_record nd ch) = ch"
  by (simp add: xrce_payload_def xrce_record_def take_record_data unsigned_of_nat take_bit_nat_eq_self)

lemma payload_chunks: "concat (map (\<lambda>ch. xrce_payload (xrce_record nd ch)) (chunks8 b)) = b"
proof -
  have "map (\<lambda>ch. xrce_payload (xrce_record nd ch)) (chunks8 b) = map id (chunks8 b)"
    by (intro map_cong) (auto intro: payload_xrce_record chunks8_length)
  then show ?thesis by simp
qed

text \<open>The service's counter.\<close>

lemma bump_writable:
  "writable (svc_counter_path s) \<Longrightarrow>
   load_and_bump_counter writable fs s =
     (let k = (case fs (svc_counter_path s) of Some v \<Rightarrow> v | None \<Rightarrow> 0) + 1 in (k, fs(svc_counter_path s := Some k), s))"
  by (simp add: load_and_bump_counter_def Let_def)

text \<open>The counters a service hands out over its clears (False) and the restarts of its process (True), which start again
  from the configured path and the files left behind.\<close>

definition fresh_service :: "string \<Rightarrow> estop_service" where
  "fresh_service path = \<lparr> svc_counter_path = path, svc_seq = 0, svc_latched = False, svc_latched_cause = 0 \<rparr>"

fun service_life :: "(string \<Rightarrow> bool) \<Rightarrow> string \<Rightarrow> bool list \<Rightarrow> files \<Rightarrow> estop_service \<Rightarrow> u32 list" where
  "service_life writable path [] fs s = []"
| "service_life writable path (restart # es) fs s =
     (if restart then service_life writable path es fs (fresh_service path)
      else let (k, fs, s) = load_and_bump_counter writable fs s in k # service_life writable path es fs s)"

lemma life_counts:
  assumes "writable path" "svc_counter_path s = path" "(case fs path of Some v \<Rightarrow> v | None \<Rightarrow> 0) = k"
  shows "service_life writable path es fs s = map (\<lambda>i. k + of_nat (Suc i)) [0..<length (filter Not es)]"
  using assms(2,3)
proof (induction es arbitrary: fs s k)
  case (Cons e es)
  show ?case
  proof (cases e)
    case True
    then show ?thesis using Cons.IH [of "fresh_service path" fs k] Cons.prems by (simp add: fresh_service_def)
  next
    case False
    have "service_life writable path es (fs(path := Some (k + 1))) s = map (\<lambda>i. (k + 1) + of_nat (Suc i)) [0..<length (filter Not es)]"
      using Cons.prems by (intro Cons.IH) simp_all
    moreover have "map (\<lambda>i. k + of_nat (Suc i)) [0..<Suc n] = (k + 1) # map (\<lambda>i. (k + 1) + of_nat (Suc i)) [0..<n]" for n
      by (simp only: map_upt_Suc) (simp add: ac_simps)
    ultimately show ?thesis using False Cons.prems assms(1) bump_writable [of writable s fs] by (simp add: Let_def)
  qed
qed simp

lemma unat_plus_of_nat: "unat k + m < 2 ^ 32 \<Longrightarrow> unat (k + of_nat m) = unat k + m" for k :: u32
  by (simp add: unat_word_ariths unsigned_of_nat take_bit_nat_eq_self)

lemma consecutive_sorted:
  fixes k :: u32
  assumes "unat k + n < 2 ^ 32"
  shows "sorted_wrt (<) (k # map (\<lambda>i. k + of_nat (Suc i)) [0..<n])"
proof -
  have "unat (k + of_nat (Suc i)) = unat k + Suc i" if "i < n" for i
    using assms that by (intro unat_plus_of_nat) simp
  then show ?thesis by (auto simp: sorted_wrt_iff_nth_less word_less_nat_alt nth_Cons' simp del: of_nat_Suc)
qed



text \<open>The records of one terminal among those of all.\<close>

lemma concat_one: "i < n \<Longrightarrow> concat (map (\<lambda>j. if j = i then f j else []) [0..<n]) = f i"
proof (induction n)
  case (Suc n)
  have "concat (map (\<lambda>j. if j = n then f j else []) [0..<n]) = []" by simp
  then show ?case using Suc by (cases "i = n") simp_all
qed simp

lemma less_6: "j < 6 \<longleftrightarrow> j = 0 \<or> j = 1 \<or> j = 2 \<or> j = 3 \<or> j = 4 \<or> j = 5" for j :: nat
  by linarith

lemma edge_ids: "j < 6 \<Longrightarrow> i < 6 \<Longrightarrow> en_id (kEdgeNodes ! j) = en_id (kEdgeNodes ! i) \<longleftrightarrow> j = i"
  by (auto simp: kEdgeNodes_def less_6)

lemma edge_small: "j < 6 \<Longrightarrow> en_id (kEdgeNodes ! j) < 32"
  by (auto simp: kEdgeNodes_def less_6)

lemma xrce_dst: "j < 6 \<Longrightarrow> ps_can_id_dst (rec_id (xrce_record (kEdgeNodes ! j) ch)) = en_id (kEdgeNodes ! j)"
  using edge_small by (simp add: xrce_record_def)

lemma filter_node:
  "j < 6 \<Longrightarrow> filter (\<lambda>r. ps_can_id_dst (rec_id r) = k) (map (xrce_record (kEdgeNodes ! j)) chs) =
     (if en_id (kEdgeNodes ! j) = k then map (xrce_record (kEdgeNodes ! j)) chs else [])"
  by (induction chs) (simp_all add: xrce_dst)

lemma filter_terminal:
  assumes "i < 6"
  shows "filter (\<lambda>r. ps_can_id_dst (rec_id r) = en_id (kEdgeNodes ! i)) (poll_outbound fds ready) =
    (if fds ! i then (case ready i of None \<Rightarrow> [] | Some b \<Rightarrow> map (xrce_record (kEdgeNodes ! i)) (chunks8 (take 256 b))) else [])"
proof -
  let ?P = "\<lambda>r. ps_can_id_dst (rec_id r) = en_id (kEdgeNodes ! i)"
  let ?f = "\<lambda>j. if fds ! j then (case ready j of None \<Rightarrow> [] | Some b \<Rightarrow> map (xrce_record (kEdgeNodes ! j)) (chunks8 (take 256 b))) else []"
  have one: "filter ?P (?f j) = (if j = i then ?f j else [])" if "j < 6" for j
  proof (cases "ready j")
    case (Some b)
    show ?thesis unfolding Some option.case filter.simps if_distrib [of "filter ?P"] filter_node [OF that] edge_ids [OF that assms] by (cases "j = i") (simp_all only: simp_thms if_True if_False if_cancel)
  qed (simp only: option.case filter.simps if_cancel)
  have "map (\<lambda>j. filter ?P (?f j)) [0..<6] = map (\<lambda>j. if j = i then ?f j else []) [0..<6]"
    unfolding map_eq_conv set_upt atLeastLessThan_iff Ball_def by (intro allI impI one) (erule conjunct2)
  then show ?thesis using concat_one [OF assms, of ?f] by (simp only: poll_outbound_def filter_concat map_map comp_def)
qed

text \<open>The first two records of a chunk sent down when a SYNC is due.\<close>

lemma down_steps_grow: "\<exists>rest. ar_outbound (foldl down_step a chs) = ar_outbound a @ rest"
proof (induction chs arbitrary: a)
  case (Cons ch chs)
  obtain r1 where "ar_outbound (down_step a ch) = ar_outbound a @ r1" by (cases "ar_frames_since_sync a = 0") (auto simp: down_step_def Let_def)
  with Cons [of "down_step a ch"] show ?case by auto
qed simp

lemma process_first:
  assumes "ar_frames_since_sync a = 0" "b \<noteq> []"
  shows "\<exists>rest. ar_outbound (process_adpcm_down b a) = ar_outbound a @ down_sync_record a # down_frame_record (take 8 b) a # rest"
proof -
  obtain x xs where b: "b = x # xs" using assms(2) by (cases b) auto
  let ?a = "down_step a (take 8 b)"
  have "ar_outbound ?a = ar_outbound a @ [down_sync_record a, down_frame_record (take 8 b) a]"
    using assms(1) by (simp add: down_step_def Let_def down_frame_record_def)
  moreover have "process_adpcm_down b a = foldl down_step ?a (chunks8 (drop 8 b))" by (simp add: process_adpcm_down_def b)
  ultimately show ?thesis using down_steps_grow [of ?a "chunks8 (drop 8 b)"] by auto
qed

lemma length_pcm16 [simp]: "length (pcm16 b) = length b div 2"
  by (induction b rule: pcm16.induct) auto

section \<open>Properties\<close>

text \<open>The agent's byte streams reach the nodes whole: the records a poll of the terminals makes for a node, in the order they
  are made, carry exactly the bytes read from its terminal, in slices of at most eight; what is handed to a terminal in the other
  direction is written completely when the write loop reports success, and is a prefix otherwise.\<close>

lemma xrce_stream_lossless:
  assumes "i < 6" "fds ! i" "ready i = Some b" "length b \<le> 256" "write_inbound fds nid as data = Some (ok, w)"
  shows "concat (map xrce_payload (filter (\<lambda>r. ps_can_id_dst (rec_id r) = en_id (kEdgeNodes ! i)) (poll_outbound fds ready))) = b \<and>
    list_all (\<lambda>r. rec_dlc r \<le> 8) (poll_outbound fds ready) \<and> (if ok then w = data else \<exists>rest. data = w @ rest)"
proof -
  have "list_all (\<lambda>r. rec_dlc r \<le> 8) (poll_outbound fds ready)"
    by (auto simp: poll_outbound_def list_all_iff xrce_record_def word_le_nat_alt unsigned_of_nat take_bit_nat_eq_self
        dest!: chunks8_length split: if_splits option.splits)
  moreover have "if ok then w = data else \<exists>rest. data = w @ rest"
    using assms(5) write_loop_result [of as data ok w] by (auto simp: write_inbound_def split: option.splits if_splits)
  ultimately show ?thesis
    using assms(2,3,4) payload_chunks [of "kEdgeNodes ! i" b] by (simp add: filter_terminal [OF assms(1)] map_map comp_def)
qed

text \<open>Claim C39. A downlink SYNC describes the wrong moment: when samples come in as PCM and a SYNC is due, the relay encodes the whole chunk first and
  the SYNC it then places before the first frame carries the encoder's state after the last. A receiver seeded from it does not decode the frames
  that follow, although the packetizer's contract has the SYNC describe the state before the frame; and on the uplink the relay takes any step index
  from a SYNC, also one beyond the codec's table, where the nodes' receiver cuts it to 88.\<close>

theorem relay_sync_state:
  assumes "ar_frames_since_sync a = 0" "4 \<le> length b" "pcm = take (length b div 2 - length b div 2 mod 2) (pcm16 b)"
    and "ps_can_id_cls (rec_id r) = PS_CLS_AUDIO" "ps_can_id_type (rec_id r) = PS_T_AUDIO_SYNC"
    and "ay_dir (PS_WIRE_READ dec_audio_sync (rec_data r)) = 1"
  shows "(\<exists>f rest. ar_outbound (on_downlink CODEC_PCM16 b a) = ar_outbound a @
      down_sync_record (a\<lparr>ar_encode_state := snd (ps_adpcm_encode (ar_encode_state a) pcm)\<rparr>) # f # rest \<and>
      rec_data f = record_data (take 8 (fst (ps_adpcm_encode (ar_encode_state a) pcm)))) \<and>
    step_index (ar_decode_state (snd (handle_uplink_record r a))) = uint (ay_step_index (PS_WIRE_READ dec_audio_sync (rec_data r)))"
proof -
  let ?e = "ps_adpcm_encode (ar_encode_state a) pcm"
  let ?a = "a\<lparr>ar_encode_state := snd ?e\<rparr>"
  have n: "length b div 2 - length b div 2 mod 2 \<noteq> 0" using assms(2) by presburger
  then have "2 \<le> length pcm" using assms(2,3) by simp presburger
  then have "fst ?e \<noteq> []" using length_encode [of "ar_encode_state a" pcm] by fastforce
  from process_first [OF _ this, of ?a] assms(1)
  obtain rest where "ar_outbound (process_adpcm_down (fst ?e) ?a) = ar_outbound a @ down_sync_record ?a # down_frame_record (take 8 (fst ?e)) ?a # rest"
    by auto
  moreover have "on_downlink CODEC_PCM16 b a = process_adpcm_down (fst ?e) ?a"
    using n by (simp add: on_downlink_def Let_def assms(3) split_beta)
  moreover have "step_index (ar_decode_state (snd (handle_uplink_record r a))) = uint (ay_step_index (PS_WIRE_READ dec_audio_sync (rec_data r)))"
    using assms(4-6) by (simp add: handle_uplink_record_def Let_def)
  ultimately show ?thesis by (auto simp: down_frame_record_def)
qed

definition demo_relay :: audio_relay where
  "demo_relay = \<lparr> ar_decode_state = ps_adpcm_init, ar_encode_state = ps_adpcm_init, ar_uplink_seq = 0, ar_down_frame_seq = 0,
     ar_frames_since_sync = 0, ar_outbound = [] \<rparr>"

definition demo_sync :: ps_can_record where
  "demo_sync = \<lparr> rec_id = ps_can_id_pack PS_CLS_AUDIO PS_NODE_HELMET PS_NODE_ORCH PS_T_AUDIO_SYNC 0, rec_bus = 0, rec_dlc = 8, rec_ts_ms = 0,
     rec_data = enc_audio_sync \<lparr> ay_dir = 1, ay_step_index = 200, ay_predictor = 0, ay_frame_seq = 0, ay_rsvd = 0 \<rparr> \<rparr>"

lemma demo_sync_read: "PS_WIRE_READ dec_audio_sync (rec_data demo_sync) = \<lparr> ay_dir = 1, ay_step_index = 200, ay_predictor = 0, ay_frame_seq = 0, ay_rsvd = 0 \<rparr>"
  by (simp add: demo_sync_def PS_WIRE_READ_def ayc.length_enc ayc.dec_enc)

theorem relay_sync_state_witness:
  "(\<exists>f rest. ar_outbound (on_downlink CODEC_PCM16 [0xE8, 3, 0xE8, 3] demo_relay) =
      down_sync_record (demo_relay\<lparr>ar_encode_state := snd (ps_adpcm_encode ps_adpcm_init [1000, 1000])\<rparr>) # f # rest) \<and>
   snd (ps_adpcm_encode ps_adpcm_init [1000, 1000]) \<noteq> ps_adpcm_init \<and>
   step_index (ar_decode_state (snd (handle_uplink_record demo_sync demo_relay))) = 200"
proof -
  have p: "[1000, 1000] = take (length [0xE8, 3, 0xE8, 3 :: u8] div 2 - length [0xE8, 3, 0xE8, 3 :: u8] div 2 mod 2) (pcm16 [0xE8, 3, 0xE8, 3])"
    by code_simp
  have s: "snd (ps_adpcm_encode ps_adpcm_init [1000, 1000]) \<noteq> ps_adpcm_init" by code_simp
  have i: "ps_can_id_cls (rec_id demo_sync) = PS_CLS_AUDIO" "ps_can_id_type (rec_id demo_sync) = PS_T_AUDIO_SYNC" by (simp_all add: demo_sync_def)
  have d: "ay_dir (PS_WIRE_READ dec_audio_sync (rec_data demo_sync)) = 1" by (simp add: demo_sync_read)
  have z: "ar_frames_since_sync demo_relay = 0" "ar_outbound demo_relay = []" "ar_encode_state demo_relay = ps_adpcm_init" by (simp_all add: demo_relay_def)
  show ?thesis using relay_sync_state [where a = demo_relay, OF z(1) _ p i d] s unfolding z demo_sync_read by auto
qed

text \<open>Clear counters survive restarts: while the counter's path can be written, the clears of the service carry
  consecutive numbers across any restarts, strictly increasing for as long as 32 bits last.\<close>

lemma clear_counters_increase:
  assumes "writable path" "svc_counter_path s = path" "(case fs path of Some v \<Rightarrow> v | None \<Rightarrow> 0) = k"
    and "unat k + length es < 2 ^ 32"
  shows "service_life writable path es fs s = map (\<lambda>i. k + of_nat (Suc i)) [0..<length (filter Not es)] \<and>
    sorted_wrt (<) (k # service_life writable path es fs s)"
proof -
  have "unat k + length (filter Not es) < 2 ^ 32" using assms(4) length_filter_le [of Not es] by linarith
  from consecutive_sorted [OF this] show ?thesis by (simp only: life_counts [where k = k and fs = fs and s = s and path = path and writable = writable, OF assms(1-3)] simp_thms)
qed



end
