(* ===== verification/Orch_Bridge.thy ===== *)
theory Orch_Bridge
  imports Orch_Parts Router "HOL-Library.Multiset"
begin

text \<open>
  The orchestrator's bridge process (\<open>suit_canspi_bridge/src/main.cpp\<close>): the outbound queue, the ROS callbacks that fill
  it, and the 1 kHz transport loop. A turn of the loop is three steps (gather, send, receive); the callbacks of the ROS
  executor, which runs on another thread, may come between any two of them. The steady clock, the terminals, the SPI
  exchange and \<open>rclcpp::ok()\<close> are inputs of the steps; frames, published chunks and what goes to the telemetry
  synthesiser and the terminals are outputs.
\<close>

section \<open>Commands\<close>

text \<open>\<open>double\<close>: 53 significant bits, no bit below \<open>2 powi -1074\<close>; special values as for \<open>float\<close>.\<close>

definition f64 :: "rat \<Rightarrow> rat" where
  "f64 x = (let e = max (binade x - 52) (- 1074) in of_int (rne (x / 2 powi e)) * 2 powi e)"

definition dround :: "rat \<Rightarrow> xfloat" where
  "dround x = (let r = f64 x in if \<bar>r\<bar> < 2 ^ 1024 then Fin r else Infty (r < 0))"

fun dmul :: "xfloat \<Rightarrow> xfloat \<Rightarrow> xfloat" where
  "dmul (Fin a) (Fin b) = dround (a * b)"
| "dmul NaN _ = NaN"
| "dmul _ NaN = NaN"
| "dmul (Infty s) (Infty t) = Infty (s \<noteq> t)"
| "dmul (Infty s) (Fin b) = (if b = 0 then NaN else Infty (s \<noteq> (b < 0)))"
| "dmul (Fin b) (Infty s) = (if b = 0 then NaN else Infty (s \<noteq> (b < 0)))"

text \<open>\<open>u\<close>: what the conversion of a number out of range leaves, which the language does not say.\<close>

definition joint_record :: "i16 \<Rightarrow> u8 \<Rightarrow> xfloat list \<Rightarrow> xfloat list \<Rightarrow> xfloat list \<Rightarrow> nat \<Rightarrow> ps_can_record" where
  "joint_record u nid positions velocities effort j =
     \<lparr> rec_id = ps_can_id_pack PS_CLS_CONTROL PS_NODE_ORCH nid PS_T_JOINT_CMD 0,
       rec_bus = (if nid = PS_NODE_LEG_R \<or> nid = PS_NODE_LEG_L then PS_SPI_BUS_CAN2 else PS_SPI_BUS_CAN1),
       rec_dlc = 8, rec_ts_ms = 0,
       rec_data = record_data (enc_joint_cmd
         \<lparr> jc_joint = of_nat j, jc_mode = PS_JMODE_POSITION,
           jc_pos_crad = to_i16 u (dmul (positions ! j) (Fin 100)),
           jc_vel_crad_s = to_i16 u (dmul (if j < length velocities then velocities ! j else Fin 0) (Fin 100)),
           jc_eff_cNm = to_i16 u (dmul (if j < length effort then effort ! j else Fin 0) (Fin 100)) \<rparr>) \<rparr>"

definition joint_records :: "i16 \<Rightarrow> u8 \<Rightarrow> xfloat list \<Rightarrow> xfloat list \<Rightarrow> xfloat list \<Rightarrow> ps_can_record list" where
  "joint_records u nid positions velocities effort =
     map (joint_record u nid positions velocities effort) [0..<min 2 (length positions)]"

definition flap_record :: "i16 \<Rightarrow> xfloat list \<Rightarrow> nat \<Rightarrow> ps_can_record" where
  "flap_record u vs i =
     \<lparr> rec_id = ps_can_id_pack PS_CLS_CONTROL PS_NODE_ORCH PS_NODE_FLIGHT PS_T_FLAP_CMD 0,
       rec_bus = PS_SPI_BUS_CAN2, rec_dlc = 8, rec_ts_ms = 0,
       rec_data = record_data (enc_flap_cmd
         \<lparr> fc_flap = of_nat i, fc_rate_lim = 0, fc_pos_pm = to_i16 u (vs ! i), fc_flags = 0, fc_rsvd = 0 \<rparr>) \<rparr>"

definition flap_records :: "i16 \<Rightarrow> xfloat list \<Rightarrow> ps_can_record list" where
  "flap_records u vs = map (flap_record u vs) [0..<min 12 (length vs)]"

text \<open>The limbs that have a command topic.\<close>

definition kLimbCmdTargets :: "(string \<times> u8) list" where
  "kLimbCmdTargets =
     [(''arm_right'', PS_NODE_ARM_R), (''arm_left'', PS_NODE_ARM_L), (''leg_right'', PS_NODE_LEG_R), (''leg_left'', PS_NODE_LEG_L)]"

section \<open>The process\<close>

text \<open>Where the transport loop is. \<open>br_now\<close> and \<open>br_batch\<close> are its locals.\<close>

datatype loop_pc = At_gather | At_send | At_receive

record bridge =
  br_pc :: loop_pc
  br_parser :: frame_parser
  br_heartbeat :: heartbeat_emitter
  br_estop :: estop_service
  br_files :: files
  br_relay :: audio_relay
  br_outbound :: "ps_can_record list"
  br_cloud_up :: bool
  br_external_latched :: bool
  br_last_good :: int
  br_now :: int
  br_batch :: "ps_can_record list"

datatype bridge_out =
    Frame u8 "ps_can_record list" bytes \<comment> \<open>flags, records and the 512 bytes handed to \<open>xfer\<close>\<close>
  | Set_safety_state u8 bool bool u8 string
  | To_telem ps_can_record
  | To_xrce u8 bytes
  | Uplink_chunk u8 u32 "int list"

text \<open>\<open>OutboundQueue::push\<close> and \<open>drain\<close>.\<close>

definition outbound_push :: "ps_can_record list \<Rightarrow> bridge \<Rightarrow> bridge" where
  "outbound_push recs b = b\<lparr>br_outbound := br_outbound b @ recs\<rparr>"

definition outbound_drain :: "nat \<Rightarrow> bridge \<Rightarrow> ps_can_record list \<times> bridge" where
  "outbound_drain n b = (take n (br_outbound b), b\<lparr>br_outbound := drop n (br_outbound b)\<rparr>)"

definition bridge_gather :: "int \<Rightarrow> bool list \<Rightarrow> (nat \<Rightarrow> bytes option) \<Rightarrow> bridge \<Rightarrow> bridge" where
  "bridge_gather now fds ready b =
     (let batch = poll_outbound fds ready;
          (audio, a) = drain_outbound (br_relay b);
          (queued, b) = outbound_drain PS_SPI_MAX_RECORDS b
      in b\<lparr>br_pc := At_send, br_relay := a, br_now := now, br_batch := batch @ audio @ queued\<rparr>)"

definition br_healthy :: "bridge \<Rightarrow> bool" where
  "br_healthy b \<longleftrightarrow> to_ms (br_now b - br_last_good b) < int (unat PS_HEARTBEAT_TIMEOUT_MS) * 2"

definition br_latched :: "bridge \<Rightarrow> bool" where
  "br_latched b \<longleftrightarrow> svc_latched (br_estop b) \<or> br_external_latched b"

definition br_src_state :: "bridge \<Rightarrow> u8" where
  "br_src_state b = (if br_latched b then PS_STATE_ESTOP else if br_healthy b then PS_STATE_OPERATIONAL else PS_STATE_PASSIVE)"

definition br_tick :: "bool \<Rightarrow> u32 \<Rightarrow> bridge \<Rightarrow> ps_can_record option \<times> heartbeat_emitter" where
  "br_tick ok uptime b =
     heartbeat_tick (br_now b) \<lparr> transport_healthy = br_healthy b, estop_latched = br_latched b, rclcpp_ok = ok \<rparr>
       (br_cloud_up b) (\<not> br_healthy b) (br_src_state b) uptime (br_heartbeat b)"

definition br_full_batch :: "bool \<Rightarrow> u32 \<Rightarrow> bridge \<Rightarrow> ps_can_record list" where
  "br_full_batch ok uptime b = br_batch b @ (case fst (br_tick ok uptime b) of Some hb \<Rightarrow> [hb] | None \<Rightarrow> [])"

definition br_flags :: "ps_can_record list \<Rightarrow> bridge \<Rightarrow> u8" where
  "br_flags batch b =
     (if length batch > PS_SPI_MAX_RECORDS then PS_SPIF_MORE_PENDING else 0) OR
     (if br_latched b then PS_SPIF_ESTOP_LATCHED else 0)"

definition br_report :: "bool \<Rightarrow> u32 \<Rightarrow> bridge \<Rightarrow> bridge_out" where
  "br_report ok uptime b =
     Set_safety_state (br_src_state b) (br_latched b) (fst (br_tick ok uptime b) \<noteq> None)
       (if br_latched b then svc_latched_cause (br_estop b) else 0)
       (if svc_latched (br_estop b) then ''operator'' else ''bridge'')"

definition bridge_send :: "bool \<Rightarrow> u32 \<Rightarrow> bridge \<Rightarrow> bridge_out list \<times> bridge" where
  "bridge_send ok uptime b =
     (let batch = br_full_batch ok uptime b;
          flags = br_flags batch b;
          overflow = drop PS_SPI_MAX_RECORDS batch;
          sent = take PS_SPI_MAX_RECORDS batch;
          ((tx, used), p) = fp_build (replicate PS_SPI_XFER_SIZE 0) flags sent (br_parser b)
      in ([br_report ok uptime b, Frame flags sent tx],
          outbound_push overflow (b\<lparr>br_pc := At_receive, br_heartbeat := snd (br_tick ok uptime b), br_parser := p, br_batch := []\<rparr>)))"

definition dispatch :: "ps_can_record \<Rightarrow> bridge \<Rightarrow> bridge_out list \<times> bridge" where
  "dispatch r b =
     (let parts = ps_can_id_unpack (rec_id r) in
      if id_cls parts = PS_CLS_TELEM then ([To_telem r], b)
      else if id_cls parts = PS_CLS_XRCE then ([To_xrce (id_src parts) (take (unat (rec_dlc r)) (rec_data r))], b)
      else if id_cls parts = PS_CLS_AUDIO then
        let (chunk, a) = handle_uplink_record r (br_relay b)
        in (case chunk of Some (src, sq, pcm) \<Rightarrow> [Uplink_chunk src sq pcm] | None \<Rightarrow> [], b\<lparr>br_relay := a\<rparr>)
      else if id_cls parts = PS_CLS_SAFETY then
        if id_type parts = PS_T_ESTOP then ([], b\<lparr>br_external_latched := True\<rparr>)
        else if id_type parts = PS_T_CLEAR_ESTOP then ([], b\<lparr>br_external_latched := False\<rparr>)
        else if id_type parts = PS_T_NODE_FAULT then ([To_telem r], b)
        else ([], b)
      else if id_cls parts = PS_CLS_MGMT then ([To_telem r], b)
      else ([], b))"

fun dispatch_all :: "ps_can_record list \<Rightarrow> bridge \<Rightarrow> bridge_out list \<times> bridge" where
  "dispatch_all [] b = ([], b)"
| "dispatch_all (r # rs) b = (let (o1, b) = dispatch r b; (o2, b) = dispatch_all rs b in (o1 @ o2, b))"

text \<open>\<open>rx\<close>: the bytes \<open>xfer\<close> returns, None when it fails.\<close>

definition bridge_receive :: "bytes option \<Rightarrow> bridge \<Rightarrow> bridge_out list \<times> bridge" where
  "bridge_receive rx b0 =
     (let b = b0\<lparr>br_pc := At_gather\<rparr> in
      case rx of
        None \<Rightarrow> ([], b)
      | Some buf \<Rightarrow>
          let ((result, recs, in_flags), p) = fp_parse buf (br_parser b);
              b = b\<lparr>br_parser := p\<rparr>;
              b = (if result \<noteq> kError then b\<lparr>br_last_good := br_now b\<rparr> else b)
          in if result = kOk then dispatch_all recs b else ([], b))"

definition bridge_estop :: "(string \<Rightarrow> bool) \<Rightarrow> (nat \<Rightarrow> u32) \<Rightarrow> bool \<Rightarrow> bridge \<Rightarrow> bridge" where
  "bridge_estop writable ups engage b =
     (let (recs, fs, s) = estop_handle writable PS_NODE_ORCH ups engage (br_files b) (br_estop b)
      in outbound_push recs (b\<lparr>br_files := fs, br_estop := s\<rparr>))"

text \<open>What can happen, one step at a time.\<close>

datatype bridge_event =
    Gather int "bool list" "nat \<Rightarrow> bytes option"
  | Send bool u32
  | Receive "bytes option"
  | Joint_topic i16 u8 "xfloat list" "xfloat list" "xfloat list"
  | Flaps_topic i16 "xfloat list"
  | Link_topic bool
  | Estop_service "string \<Rightarrow> bool" "nat \<Rightarrow> u32" bool
  | Downlink_topic codec bytes

fun bridge_step :: "bridge_event \<Rightarrow> bridge \<Rightarrow> bridge_out list \<times> bridge" where
  "bridge_step (Gather now fds ready) b = ([], bridge_gather now fds ready b)"
| "bridge_step (Send ok uptime) b = bridge_send ok uptime b"
| "bridge_step (Receive rx) b = bridge_receive rx b"
| "bridge_step (Joint_topic u nid pos vel eff) b = ([], outbound_push (joint_records u nid pos vel eff) b)"
| "bridge_step (Flaps_topic u vs) b = ([], outbound_push (flap_records u vs) b)"
| "bridge_step (Link_topic up) b = ([], b\<lparr>br_cloud_up := up\<rparr>)"
| "bridge_step (Estop_service writable ups engage) b = ([], bridge_estop writable ups engage b)"
| "bridge_step (Downlink_topic c data) b = ([], b\<lparr>br_relay := on_downlink c data (br_relay b)\<rparr>)"

fun bridge_run :: "bridge_event list \<Rightarrow> bridge \<Rightarrow> bridge_out list \<times> bridge" where
  "bridge_run [] b = ([], b)"
| "bridge_run (e # es) b = (let (o1, b) = bridge_step e b; (o2, b) = bridge_run es b in (o1 @ o2, b))"

definition bridge_init :: "string \<Rightarrow> files \<Rightarrow> int \<Rightarrow> bridge" where
  "bridge_init path fs start =
     \<lparr> br_pc = At_gather, br_parser = \<lparr> fp_tx_seq = 0, fp_have_rx_seq = False, fp_last_rx_seq = 0,
         fp_stats = \<lparr> frames_ok = 0, idle_frames = 0, crc_errors = 0, seq_gaps = 0, resyncs = 0 \<rparr> \<rparr>,
       br_heartbeat = \<lparr> em_seq = 0, em_last_emit = None \<rparr>,
       br_estop = \<lparr> svc_counter_path = path, svc_seq = 0, svc_latched = False, svc_latched_cause = 0 \<rparr>,
       br_files = fs,
       br_relay = \<lparr> ar_decode_state = ps_adpcm_init, ar_encode_state = ps_adpcm_init, ar_uplink_seq = 0,
         ar_down_frame_seq = 0, ar_frames_since_sync = 0, ar_outbound = [] \<rparr>,
       br_outbound = [], br_cloud_up = False, br_external_latched = False,
       br_last_good = start - 1000000000, br_now = start, br_batch = [] \<rparr>"

text \<open>The loop takes its steps in order; the callbacks come at any time.\<close>

fun enabled :: "bridge_event \<Rightarrow> bridge \<Rightarrow> bool" where
  "enabled (Gather now fds ready) b \<longleftrightarrow> br_pc b = At_gather"
| "enabled (Send ok uptime) b \<longleftrightarrow> br_pc b = At_send"
| "enabled (Receive rx) b \<longleftrightarrow> br_pc b = At_receive"
| "enabled _ b \<longleftrightarrow> True"

fun legal :: "bridge_event list \<Rightarrow> bridge \<Rightarrow> bool" where
  "legal [] b \<longleftrightarrow> True"
| "legal (e # es) b \<longleftrightarrow> enabled e b \<and> legal es (snd (bridge_step e b))"

section \<open>Where records come from and go\<close>

fun made :: "bridge_event \<Rightarrow> bridge \<Rightarrow> ps_can_record list" where
  "made (Gather now fds ready) b = poll_outbound fds ready"
| "made (Send ok uptime) b = (case fst (br_tick ok uptime b) of Some hb \<Rightarrow> [hb] | None \<Rightarrow> [])"
| "made (Joint_topic u nid pos vel eff) b = joint_records u nid pos vel eff"
| "made (Flaps_topic u vs) b = flap_records u vs"
| "made (Estop_service writable ups engage) b = fst (estop_handle writable PS_NODE_ORCH ups engage (br_files b) (br_estop b))"
| "made (Downlink_topic c data) b = drop (length (ar_outbound (br_relay b))) (ar_outbound (on_downlink c data (br_relay b)))"
| "made _ b = []"

fun made_run :: "bridge_event list \<Rightarrow> bridge \<Rightarrow> ps_can_record list" where
  "made_run [] b = []"
| "made_run (e # es) b = made e b @ made_run es (snd (bridge_step e b))"

fun sent :: "bridge_out list \<Rightarrow> ps_can_record list" where
  "sent [] = []"
| "sent (Frame fl recs tx # os) = recs @ sent os"
| "sent (_ # os) = sent os"

definition waiting :: "bridge \<Rightarrow> ps_can_record list" where
  "waiting b = br_batch b @ br_outbound b @ ar_outbound (br_relay b)"

text \<open>A record of the bridge: one the format carries whole, of one of the eight types it makes.\<close>

definition bridge_record :: "ps_can_record \<Rightarrow> bool" where
  "bridge_record r \<longleftrightarrow> clean r \<and> ps_can_id_src (rec_id r) = PS_NODE_ORCH \<and>
     (ps_can_id_cls (rec_id r), ps_can_id_type (rec_id r)) \<in>
       {(PS_CLS_SAFETY, PS_T_HEARTBEAT), (PS_CLS_SAFETY, PS_T_ESTOP), (PS_CLS_SAFETY, PS_T_CLEAR_ESTOP), (PS_CLS_CONTROL, PS_T_JOINT_CMD),
        (PS_CLS_CONTROL, PS_T_FLAP_CMD), (PS_CLS_XRCE, PS_T_XRCE_STREAM), (PS_CLS_AUDIO, PS_T_AUDIO_DOWN), (PS_CLS_AUDIO, PS_T_AUDIO_SYNC)}"

definition bridge_inv :: "bridge \<Rightarrow> bool" where
  "bridge_inv b \<longleftrightarrow> list_all bridge_record (waiting b) \<and> (br_pc b \<noteq> At_send \<longrightarrow> br_batch b = [])"

lemma sent_append [simp]: "sent (xs @ ys) = sent xs @ sent ys"
  by (induction xs rule: sent.induct) auto

named_theorems bridge_recs \<open>the records the bridge makes are bridge records\<close>

lemma heartbeat_bridge_record [bridge_recs]: "bridge_record (heartbeat_record sq fl st up)"
  using clean_heartbeat [of sq fl st up] by (simp add: bridge_record_def) (simp add: heartbeat_record_def)

lemma estop_bridge_record [bridge_recs]: "bridge_record (estop_record PS_NODE_ORCH sq up)"
  using clean_estop [of PS_NODE_ORCH sq up] by (simp add: bridge_record_def) (simp add: estop_record_def)

lemma clear_bridge_record [bridge_recs]: "bridge_record (clear_record PS_NODE_ORCH k)"
  using clean_clear [of PS_NODE_ORCH k] by (simp add: bridge_record_def) (simp add: clear_record_def)

lemma sync_bridge_record [bridge_recs]: "bridge_record (down_sync_record a)"
  using clean_down_sync [of a] by (simp add: bridge_record_def) (simp add: down_sync_record_def)

lemma frame_bridge_record [bridge_recs]: "length ch \<le> 8 \<Longrightarrow> bridge_record (down_frame_record ch a)"
  using clean_down_frame [of ch a] by (simp add: bridge_record_def) (simp add: down_frame_record_def)

lemma xrce_bridge_record [bridge_recs]: "nd \<in> set kEdgeNodes \<Longrightarrow> length ch \<le> 8 \<Longrightarrow> bridge_record (xrce_record nd ch)"
  using clean_xrce [of nd ch] by (simp add: bridge_record_def) (simp add: xrce_record_def)

lemma joint_bridge_record [bridge_recs]: "bridge_record (joint_record u nid pos vel eff j)"
proof -
  have "clean (joint_record u nid pos vel eff j)"
    by (rule clean_pack) (simp_all add: joint_record_def jcc.length_enc)
  then show ?thesis by (simp add: bridge_record_def) (simp add: joint_record_def)
qed

lemma flap_bridge_record [bridge_recs]: "bridge_record (flap_record u vs i)"
proof -
  have "clean (flap_record u vs i)" by (rule clean_pack) (simp_all add: flap_record_def fcc.length_enc)
  then show ?thesis by (simp add: bridge_record_def) (simp add: flap_record_def)
qed

lemma poll_bridge_records: "list_all bridge_record (poll_outbound fds ready)"
proof -
  have "bridge_record (xrce_record (kEdgeNodes ! i) ch)" if "i < 6" "ch \<in> set (chunks8 b)" for i ch b
    using that by (intro xrce_bridge_record chunks8_length [of ch b] nth_mem) (simp_all add: kEdgeNodes_def)
  then show ?thesis by (fastforce simp: poll_outbound_def list_all_iff split: if_splits option.splits)
qed

lemma down_steps_records:
  "list_all bridge_record (ar_outbound a) \<Longrightarrow> \<forall>ch \<in> set chs. length ch \<le> 8 \<Longrightarrow> list_all bridge_record (ar_outbound (foldl down_step a chs))"
  by (induction chs arbitrary: a) (auto simp: down_step_def Let_def bridge_recs)

lemma on_downlink_grows:
  "\<exists>rest. ar_outbound (on_downlink c b a) = ar_outbound a @ rest"
  using down_steps_grow [of a] down_steps_grow [of "a\<lparr>ar_encode_state := st\<rparr>" for st]
  by (auto simp: on_downlink_def process_adpcm_down_def Let_def split_beta split: codec.split)

lemma on_downlink_records:
  "list_all bridge_record (ar_outbound a) \<Longrightarrow> list_all bridge_record (ar_outbound (on_downlink c b a))"
  using chunks8_length
  by (auto simp: on_downlink_def process_adpcm_down_def Let_def split_beta intro!: down_steps_records split: codec.split)

section \<open>One step\<close>

lemma dispatch_keeps [simp]:
  "br_pc (snd (dispatch r b)) = br_pc b" "br_batch (snd (dispatch r b)) = br_batch b" "br_outbound (snd (dispatch r b)) = br_outbound b"
  "br_heartbeat (snd (dispatch r b)) = br_heartbeat b" "br_estop (snd (dispatch r b)) = br_estop b" "br_now (snd (dispatch r b)) = br_now b"
  "br_last_good (snd (dispatch r b)) = br_last_good b"
  by (simp_all add: dispatch_def Let_def split_beta)

lemma uplink_keeps_outbound [simp]: "ar_outbound (snd (handle_uplink_record r a)) = ar_outbound a"
  by (simp add: handle_uplink_record_def Let_def split_beta)

lemma dispatch_relay [simp]: "ar_outbound (br_relay (snd (dispatch r b))) = ar_outbound (br_relay b)"
  by (simp add: dispatch_def Let_def split_beta)

lemma dispatch_sent [simp]: "sent (fst (dispatch r b)) = []"
  by (simp add: dispatch_def Let_def split_beta split: option.split)

lemma dispatch_all_keeps [simp]:
  "br_pc (snd (dispatch_all rs b)) = br_pc b \<and> br_batch (snd (dispatch_all rs b)) = br_batch b \<and> br_outbound (snd (dispatch_all rs b)) = br_outbound b \<and>
   br_heartbeat (snd (dispatch_all rs b)) = br_heartbeat b \<and> br_estop (snd (dispatch_all rs b)) = br_estop b \<and> br_now (snd (dispatch_all rs b)) = br_now b \<and>
   br_last_good (snd (dispatch_all rs b)) = br_last_good b \<and> ar_outbound (br_relay (snd (dispatch_all rs b))) = ar_outbound (br_relay b) \<and>
   sent (fst (dispatch_all rs b)) = []"
  by (induction rs arbitrary: b) (simp_all add: Let_def split_beta)

lemma receive_keeps:
  "br_pc (snd (bridge_receive rx b)) = At_gather \<and> br_batch (snd (bridge_receive rx b)) = br_batch b \<and>
   br_outbound (snd (bridge_receive rx b)) = br_outbound b \<and> br_heartbeat (snd (bridge_receive rx b)) = br_heartbeat b \<and>
   br_estop (snd (bridge_receive rx b)) = br_estop b \<and> br_now (snd (bridge_receive rx b)) = br_now b \<and>
   ar_outbound (br_relay (snd (bridge_receive rx b))) = ar_outbound (br_relay b) \<and> sent (fst (bridge_receive rx b)) = []"
  by (auto simp: bridge_receive_def Let_def split_beta split: option.split)

lemma receive_waiting [simp]: "waiting (snd (bridge_receive rx b)) = waiting b"
  by (simp add: waiting_def receive_keeps)

lemma send_facts:
  "fst (bridge_send ok up b) = [br_report ok up b, Frame (br_flags (br_full_batch ok up b) b) (take 31 (br_full_batch ok up b))
     (fst (fst (fp_build (replicate 512 0) (br_flags (br_full_batch ok up b) b) (take 31 (br_full_batch ok up b)) (br_parser b))))]"
  "br_pc (snd (bridge_send ok up b)) = At_receive" "br_batch (snd (bridge_send ok up b)) = []"
  "br_outbound (snd (bridge_send ok up b)) = br_outbound b @ drop 31 (br_full_batch ok up b)"
  "br_relay (snd (bridge_send ok up b)) = br_relay b" "br_heartbeat (snd (bridge_send ok up b)) = snd (br_tick ok up b)"
  "br_estop (snd (bridge_send ok up b)) = br_estop b" "br_external_latched (snd (bridge_send ok up b)) = br_external_latched b"
  "br_last_good (snd (bridge_send ok up b)) = br_last_good b" "br_now (snd (bridge_send ok up b)) = br_now b"
  by (simp_all add: bridge_send_def Let_def split_beta outbound_push_def)

lemma gather_facts:
  "br_pc (bridge_gather now fds ready b) = At_send" "br_now (bridge_gather now fds ready b) = now"
  "br_batch (bridge_gather now fds ready b) = poll_outbound fds ready @ ar_outbound (br_relay b) @ take 31 (br_outbound b)"
  "br_outbound (bridge_gather now fds ready b) = drop 31 (br_outbound b)" "ar_outbound (br_relay (bridge_gather now fds ready b)) = []"
  "br_heartbeat (bridge_gather now fds ready b) = br_heartbeat b" "br_estop (bridge_gather now fds ready b) = br_estop b"
  "br_external_latched (bridge_gather now fds ready b) = br_external_latched b" "br_last_good (bridge_gather now fds ready b) = br_last_good b"
  by (simp_all add: bridge_gather_def drain_outbound_def outbound_drain_def Let_def)

lemma push_facts [simp]:
  "waiting (outbound_push recs b) = br_batch b @ (br_outbound b @ recs) @ ar_outbound (br_relay b)"
  "br_pc (outbound_push recs b) = br_pc b" "br_batch (outbound_push recs b) = br_batch b" "br_outbound (outbound_push recs b) = br_outbound b @ recs"
  "br_heartbeat (outbound_push recs b) = br_heartbeat b" "br_estop (outbound_push recs b) = br_estop b"
  "br_external_latched (outbound_push recs b) = br_external_latched b" "br_last_good (outbound_push recs b) = br_last_good b"
  "br_now (outbound_push recs b) = br_now b" "br_relay (outbound_push recs b) = br_relay b"
  by (simp_all add: waiting_def outbound_push_def)

lemma estop_facts:
  "bridge_estop writable ups en b =
     outbound_push (made (Estop_service writable ups en) b) (b\<lparr>br_files := fst (snd (estop_handle writable PS_NODE_ORCH ups en (br_files b) (br_estop b))),
       br_estop := snd (snd (estop_handle writable PS_NODE_ORCH ups en (br_files b) (br_estop b)))\<rparr>)"
  by (simp add: bridge_estop_def split_beta)

text \<open>Nothing is lost or duplicated by a step.\<close>

lemma step_conserves:
  assumes "bridge_inv b" "enabled e b"
  shows "mset (waiting b) + mset (made e b) = mset (sent (fst (bridge_step e b))) + mset (waiting (snd (bridge_step e b)))"
proof (cases e)
  case (Gather now fds ready)
  have "br_batch b = []" using assms Gather by (simp add: bridge_inv_def)
  moreover have "mset (br_outbound b) = mset (take 31 (br_outbound b)) + mset (drop 31 (br_outbound b))"
    by (simp only: mset_append [symmetric] append_take_drop_id)
  ultimately show ?thesis using Gather by (simp add: waiting_def gather_facts)
next
  case (Send ok up)
  let ?f = "br_full_batch ok up b"
  have "mset ?f = mset (take 31 ?f) + mset (drop 31 ?f)" by (simp only: mset_append [symmetric] append_take_drop_id)
  moreover have "mset ?f = mset (br_batch b) + mset (made e b)" using Send by (simp add: br_full_batch_def)
  ultimately show ?thesis using Send by (simp add: waiting_def send_facts br_report_def)
next
  case (Downlink_topic c d)
  obtain rest where "ar_outbound (on_downlink c d (br_relay b)) = ar_outbound (br_relay b) @ rest" using on_downlink_grows by blast
  then show ?thesis using Downlink_topic by (simp add: waiting_def)
next
  case (Receive rx)
  then show ?thesis using receive_keeps [of rx b] by simp
next
  case (Estop_service w ups en)
  then show ?thesis by (simp add: estop_facts waiting_def)
qed (simp_all add: waiting_def)

lemma made_records: "bridge_inv b \<Longrightarrow> list_all bridge_record (made e b)"
proof (cases e)
  case (Send ok up)
  then show ?thesis
    by (auto simp: br_tick_def bridge_recs dest!: arg_cong [of _ _ fst] split: option.split)
       (metis heartbeat_bridge_record prod.collapse tick_emits)
next
  case (Estop_service w ups en)
  then show ?thesis by (cases en) (auto simp: estop_handle_def bridge_recs list_all_iff split: prod.split)
next
  case (Downlink_topic c d)
  assume "bridge_inv b"
  then have "list_all bridge_record (ar_outbound (br_relay b))" by (simp add: bridge_inv_def waiting_def)
  from on_downlink_records [OF this] show ?thesis using Downlink_topic by (auto simp: list_all_iff dest: in_set_dropD)
next
  case (Joint_topic u nid pos vel eff)
  then show ?thesis by (simp add: joint_records_def bridge_recs list_all_iff)
next
  case (Flaps_topic u vs)
  then show ?thesis by (simp add: flap_records_def bridge_recs list_all_iff)
qed (simp_all add: poll_bridge_records)

lemma step_inv:
  assumes "bridge_inv b" "enabled e b"
  shows "bridge_inv (snd (bridge_step e b)) \<and> list_all bridge_record (sent (fst (bridge_step e b)))"
proof -
  have "mset (sent (fst (bridge_step e b)) @ waiting (snd (bridge_step e b))) = mset (waiting b @ made e b)"
    using step_conserves [OF assms] by simp
  then have "set (sent (fst (bridge_step e b)) @ waiting (snd (bridge_step e b))) = set (waiting b @ made e b)" by (rule mset_eq_setD)
  then have "list_all bridge_record (sent (fst (bridge_step e b)) @ waiting (snd (bridge_step e b)))"
    using assms(1) made_records [OF assms(1), of e] by (auto simp: bridge_inv_def list_all_iff)
  moreover have "br_pc (snd (bridge_step e b)) \<noteq> At_send \<longrightarrow> br_batch (snd (bridge_step e b)) = []"
    using assms by (cases e) (auto simp: bridge_inv_def gather_facts send_facts receive_keeps estop_facts)
  ultimately show ?thesis by (simp add: bridge_inv_def)
qed

text \<open>Every frame of a step parses back to what was put in it.\<close>

definition good_frame :: "bridge_out \<Rightarrow> bool" where
  "good_frame x \<longleftrightarrow> (case x of Frame fl recs tx \<Rightarrow>
     length recs \<le> PS_SPI_MAX_RECORDS \<and> length tx = PS_SPI_XFER_SIZE \<and> (\<forall>q. fst (fp_parse tx q) = (kOk, recs, fl)) | _ \<Rightarrow> True)"

lemma dispatch_frames: "list_all good_frame (fst (dispatch r b))"
  by (simp add: dispatch_def Let_def split_beta good_frame_def split: option.split)

lemma dispatch_all_frames: "list_all good_frame (fst (dispatch_all rs b))"
  by (induction rs arbitrary: b) (simp_all add: Let_def split_beta dispatch_frames)

lemma step_frames:
  assumes "bridge_inv b" "enabled e b"
  shows "list_all good_frame (fst (bridge_step e b))"
proof (cases e)
  case (Send ok up)
  let ?r = "take 31 (br_full_batch ok up b)" and ?fl = "br_flags (br_full_batch ok up b) b"
  have "list_all bridge_record ?r" using step_inv [OF assms] Send by (simp add: send_facts br_report_def)
  then have c: "list_all clean ?r" by (auto simp: list_all_iff bridge_record_def)
  obtain tx used p where f: "fp_build (replicate 512 0) ?fl ?r (br_parser b) = ((tx, used), p)" by (metis prod.collapse)
  from build_parses_back [OF _ c f] show ?thesis using Send f by (simp add: send_facts good_frame_def br_report_def)
next
  case (Receive rx)
  then show ?thesis by (simp add: bridge_receive_def Let_def split_beta dispatch_all_frames split: option.split)
qed simp_all

lemma run_split: "bridge_run (e # es) b =
  (fst (bridge_step e b) @ fst (bridge_run es (snd (bridge_step e b))), snd (bridge_run es (snd (bridge_step e b))))"
  by (simp add: Let_def split_beta)

lemma run_inv:
  assumes "bridge_inv b" "legal es b"
  shows "bridge_inv (snd (bridge_run es b)) \<and> list_all bridge_record (sent (fst (bridge_run es b))) \<and> list_all good_frame (fst (bridge_run es b)) \<and>
    mset (waiting b) + mset (made_run es b) = mset (sent (fst (bridge_run es b))) + mset (waiting (snd (bridge_run es b)))"
  using assms
proof (induction es arbitrary: b)
  case (Cons e es)
  let ?b = "snd (bridge_step e b)"
  have e: "enabled e b" "legal es ?b" using Cons.prems by simp_all
  note s = step_inv [OF Cons.prems(1) e(1)] step_frames [OF Cons.prems(1) e(1)] step_conserves [OF Cons.prems(1) e(1)]
  note ih = Cons.IH [OF conjunct1 [OF s(1)] e(2)]
  have "mset (waiting b) + mset (made_run (e # es) b) = mset (sent (fst (bridge_step e b))) + (mset (waiting ?b) + mset (made_run es ?b))"
    using s(3) by (metis add.assoc made_run.simps(2) mset_append)
  then show ?case using s(1,2) ih by (simp add: run_split add.assoc del: bridge_run.simps bridge_step.simps made_run.simps)
qed simp

section \<open>The heartbeat gate over runs\<close>

text \<open>The heartbeats made, with the time of the turn.\<close>

fun beats :: "bridge_event list \<Rightarrow> bridge \<Rightarrow> (int \<times> ps_can_record) list" where
  "beats [] b = []"
| "beats (e # es) b =
     (case e of Send ok up \<Rightarrow> (case fst (br_tick ok up b) of Some hb \<Rightarrow> [(br_now b, hb)] | None \<Rightarrow> []) | _ \<Rightarrow> []) @ beats es (snd (bridge_step e b))"

text \<open>The records a received buffer is dispatched as, and whether it counts as a sign of life.\<close>

definition rx_records :: "bytes \<Rightarrow> ps_can_record list" where
  "rx_records buf = (if is_all_zero buf then [] else case ps_spi_frame_parse buf of Inl rc \<Rightarrow> [] | Inr v \<Rightarrow> view_records_ok v)"

definition rx_alive :: "bytes option \<Rightarrow> bool" where
  "rx_alive rx \<longleftrightarrow> (case rx of None \<Rightarrow> False | Some buf \<Rightarrow> is_all_zero buf \<or> (\<exists>v. ps_spi_frame_parse buf = Inr v))"

definition is_clear :: "ps_can_record \<Rightarrow> bool" where
  "is_clear r \<longleftrightarrow> ps_can_id_cls (rec_id r) = PS_CLS_SAFETY \<and> ps_can_id_type (rec_id r) = PS_T_CLEAR_ESTOP"

fun hears_clear :: "bridge_event \<Rightarrow> bool" where
  "hears_clear (Receive (Some buf)) \<longleftrightarrow> list_ex is_clear (rx_records buf)"
| "hears_clear _ \<longleftrightarrow> False"

fun hears_life :: "bridge_event \<Rightarrow> bool" where
  "hears_life (Receive rx) \<longleftrightarrow> rx_alive rx"
| "hears_life _ \<longleftrightarrow> False"

lemma dispatch_latch: "br_external_latched b \<Longrightarrow> \<not> is_clear r \<Longrightarrow> br_external_latched (snd (dispatch r b))"
  by (simp add: dispatch_def is_clear_def Let_def split_beta)

lemma dispatch_all_latch: "br_external_latched b \<Longrightarrow> \<not> list_ex is_clear rs \<Longrightarrow> br_external_latched (snd (dispatch_all rs b))"
  by (induction rs arbitrary: b) (simp_all add: Let_def split_beta dispatch_latch)

lemma dispatch_all_append: "snd (dispatch_all (rs @ rs') b) = snd (dispatch_all rs' (snd (dispatch_all rs b)))"
  by (induction rs arbitrary: b) (simp_all add: Let_def split_beta)

lemma dispatch_external:
  "br_external_latched (snd (dispatch r b)) =
     (if ps_can_id_cls (rec_id r) = PS_CLS_SAFETY \<and> ps_can_id_type (rec_id r) = PS_T_ESTOP then True
      else if is_clear r then False else br_external_latched b)"
  by (simp add: dispatch_def is_clear_def Let_def split_beta)

lemma dispatch_all_external:
  "br_external_latched b = br_external_latched c \<Longrightarrow> br_external_latched (snd (dispatch_all rs b)) = br_external_latched (snd (dispatch_all rs c))"
proof (induction rs arbitrary: b c)
  case (Cons r rs)
  have "br_external_latched (snd (dispatch r b)) = br_external_latched (snd (dispatch r c))" by (simp add: dispatch_external Cons.prems)
  from Cons.IH [OF this] show ?case by (simp add: Let_def split_beta)
qed simp

lemma receive_latch: "br_external_latched b \<Longrightarrow> \<not> hears_clear (Receive rx) \<Longrightarrow> br_external_latched (snd (bridge_receive rx b))"
  by (cases rx) (auto simp: bridge_receive_def fp_parse_def rx_records_def Let_def split_beta intro!: dispatch_all_latch split: sum.splits if_splits)

lemma receive_dispatches:
  "br_external_latched (snd (bridge_receive (Some buf) b)) = br_external_latched (snd (dispatch_all (rx_records buf) b))"
proof -
  obtain res recs fl p where f: "fp_parse buf (br_parser b) = ((res, recs, fl), p)" by (metis prod.collapse)
  have r: "if res = kOk then recs = rx_records buf else rx_records buf = []"
    using f by (auto simp: fp_parse_def rx_records_def Let_def split: if_splits sum.splits)
  show ?thesis
  proof (cases "res = kOk")
    case True
    then have "br_external_latched (snd (dispatch_all recs (b\<lparr>br_pc := At_gather, br_parser := p, br_last_good := br_now b\<rparr>))) =
        br_external_latched (snd (dispatch_all (rx_records buf) b))"
      using r by (simp only: if_True) (rule dispatch_all_external, simp)
    then show ?thesis using True f by (simp add: bridge_receive_def Let_def)
  next
    case False
    then show ?thesis using r f by (simp add: bridge_receive_def Let_def)
  qed
qed

text \<open>An ESTOP record with no CLEAR_ESTOP behind it sets the flag.\<close>

lemma receive_latches:
  assumes "rx_records buf = rs @ r # rs'" "ps_can_id_cls (rec_id r) = PS_CLS_SAFETY" "ps_can_id_type (rec_id r) = PS_T_ESTOP" "\<not> list_ex is_clear rs'"
  shows "br_external_latched (snd (bridge_step (Receive (Some buf)) b))"
proof -
  have "br_external_latched (snd (dispatch r c))" for c using assms(2,3) by (simp add: dispatch_def Let_def)
  then show ?thesis using assms(1,4) by (simp add: receive_dispatches dispatch_all_append dispatch_all_latch split_beta Let_def)
qed

lemma built_records:
  assumes "length recs \<le> PS_SPI_MAX_RECORDS" "list_all clean recs" "fp_build (replicate PS_SPI_XFER_SIZE 0) fl recs p = ((tx, used), p')"
  shows "rx_records tx = recs"
  using build_parses_back [OF assms, of p] by (auto simp: fp_parse_def rx_records_def Let_def split: if_splits sum.splits)

lemma receive_last_good:
  "br_last_good (snd (bridge_receive rx b)) = (if rx_alive rx then br_now b else br_last_good b)"
  by (auto simp: bridge_receive_def fp_parse_def rx_alive_def Let_def split_beta split: option.split sum.splits)

lemma br_tick_emits:
  assumes "fst (br_tick ok up b) = Some r"
  shows "\<not> br_latched b \<and> br_healthy b \<and> ok \<and> em_last_emit (snd (br_tick ok up b)) = Some (br_now b) \<and>
    (\<forall>t. em_last_emit (br_heartbeat b) = Some t \<longrightarrow> 10 \<le> to_ms (br_now b - t)) \<and>
    r = heartbeat_record (em_seq (br_heartbeat b)) (if br_cloud_up b then PS_HB_CLOUD_UP else 0) PS_STATE_OPERATIONAL up"
proof -
  obtain h' where t: "br_tick ok up b = (Some r, h')" using assms by (cases "br_tick ok up b") simp
  have "snd (br_tick ok up b) = h'" by (simp add: t)
  with tick_emits [OF t [unfolded br_tick_def]] show ?thesis by (simp add: heartbeat_gate_open_def br_src_state_def)
qed

lemma br_tick_silent: "fst (br_tick ok up b) = None \<Longrightarrow> snd (br_tick ok up b) = br_heartbeat b"
  unfolding br_tick_def by (metis prod.collapse tick_silent)

lemma to_ms_less: "0 < n \<Longrightarrow> to_ms d < n \<longleftrightarrow> d < n * 1000000"
  by (cases "0 \<le> d") (auto simp: to_ms_def signed_divide_int_def sgn_if div_less_iff_less_mult)

lemma step_emitter:
  "br_heartbeat (snd (bridge_step e b)) = (case e of Send ok up \<Rightarrow> snd (br_tick ok up b) | _ \<Rightarrow> br_heartbeat b)"
  by (cases e) (simp_all add: gather_facts send_facts receive_keeps estop_facts)

lemma step_last_good: "\<not> hears_life e \<Longrightarrow> br_last_good (snd (bridge_step e b)) = br_last_good b"
  by (cases e) (simp_all add: gather_facts send_facts receive_last_good estop_facts)

lemma step_latch: "br_external_latched b \<Longrightarrow> \<not> hears_clear e \<Longrightarrow> br_external_latched (snd (bridge_step e b))"
  by (cases e) (simp_all add: gather_facts send_facts receive_latch estop_facts)

text \<open>One step's heartbeat.\<close>

definition beat :: "bridge_event \<Rightarrow> bridge \<Rightarrow> (int \<times> ps_can_record) list" where
  "beat e b = (case e of Send ok up \<Rightarrow> (case fst (br_tick ok up b) of Some hb \<Rightarrow> [(br_now b, hb)] | None \<Rightarrow> []) | _ \<Rightarrow> [])"

lemma beats_Cons: "beats (e # es) b = beat e b @ beats es (snd (bridge_step e b))"
  by (simp add: beat_def)

lemma beat_cases:
  obtains "beat e b = []" "br_heartbeat (snd (bridge_step e b)) = br_heartbeat b"
  | ok up r where "beat e b = [(br_now b, r)]" "fst (br_tick ok up b) = Some r" "em_last_emit (br_heartbeat (snd (bridge_step e b))) = Some (br_now b)"
proof (cases e)
  case (Send ok up)
  show ?thesis
  proof (cases "fst (br_tick ok up b)")
    case None
    then show ?thesis using Send that(1) br_tick_silent by (simp add: beat_def step_emitter del: bridge_step.simps)
  next
    case (Some r)
    have "beat e b = [(br_now b, r)]" "em_last_emit (br_heartbeat (snd (bridge_step e b))) = Some (br_now b)"
      using Send Some br_tick_emits [OF Some, THEN conjunct2, THEN conjunct2, THEN conjunct2, THEN conjunct1]
      by (simp_all add: beat_def step_emitter del: bridge_step.simps)
    then show ?thesis using that(2) Some by blast
  qed
qed (simp_all add: that(1) beat_def step_emitter del: bridge_step.simps)

lemma beats_spaced:
  "sorted_wrt (\<lambda>s t. s + 10000000 \<le> t) ((case em_last_emit (br_heartbeat b) of Some t \<Rightarrow> [t] | None \<Rightarrow> []) @ map fst (beats es b))"
proof (induction es arbitrary: b)
  case (Cons e es)
  let ?b = "snd (bridge_step e b)"
  note ih = Cons [of ?b]
  show ?case
  proof (rule beat_cases [of e b])
    assume "beat e b = []" "br_heartbeat ?b = br_heartbeat b"
    then show ?thesis using ih by (simp only: beats_Cons append_Nil)
  next
    fix ok up r
    assume h: "beat e b = [(br_now b, r)]" "fst (br_tick ok up b) = Some r" "em_last_emit (br_heartbeat ?b) = Some (br_now b)"
    have t: "t + 10000000 \<le> br_now b" if "em_last_emit (br_heartbeat b) = Some t" for t
      using br_tick_emits [OF h(2)] that to_ms_less [of 10 "br_now b - t"] by auto
    show ?thesis using ih h(1,3) t by (fastforce simp: beats_Cons split: option.split simp del: beats.simps bridge_step.simps)
  qed
qed (simp split: option.split)

lemma beats_alive:
  "\<not> list_ex hears_life es \<Longrightarrow> list_all (\<lambda>(t, r). t - br_last_good b < 100000000) (beats es b)"
proof (induction es arbitrary: b)
  case (Cons e es)
  let ?b = "snd (bridge_step e b)"
  have "list_all (\<lambda>(t, r). t - br_last_good b < 100000000) (beats es ?b)"
    using Cons.IH [of ?b] Cons.prems step_last_good [of e b] by simp
  moreover have "list_all (\<lambda>(t, r). t - br_last_good b < 100000000) (beat e b)"
    using br_tick_emits to_ms_less [of 100] by (rule_tac beat_cases [of e b]) (auto simp: br_healthy_def)
  ultimately show ?case by (simp add: beats_Cons del: beats.simps bridge_step.simps)
qed simp

lemma beats_content:
  "list_all (\<lambda>(t, r). \<exists>sq up. r = heartbeat_record sq 0 PS_STATE_OPERATIONAL up \<or> r = heartbeat_record sq PS_HB_CLOUD_UP PS_STATE_OPERATIONAL up) (beats es b)"
proof (induction es arbitrary: b)
  case (Cons e es)
  have "list_all (\<lambda>(t, r). \<exists>sq up. r = heartbeat_record sq 0 PS_STATE_OPERATIONAL up \<or> r = heartbeat_record sq PS_HB_CLOUD_UP PS_STATE_OPERATIONAL up) (beat e b)"
    using br_tick_emits by (rule_tac beat_cases [of e b]) fastforce+
  then show ?case using Cons by (simp add: beats_Cons del: beats.simps bridge_step.simps)
qed simp

lemma latched_silent:
  "br_external_latched b \<Longrightarrow> \<not> list_ex hears_clear es \<Longrightarrow> beats es b = [] \<and> br_external_latched (snd (bridge_run es b))"
proof (induction es arbitrary: b)
  case (Cons e es)
  have "beat e b = []" using Cons.prems(1) br_tick_emits by (rule_tac beat_cases [of e b]) (auto simp: br_latched_def)
  moreover have "br_external_latched (snd (bridge_step e b))" using Cons.prems by (intro step_latch) simp_all
  ultimately show ?case using Cons by (simp add: beats_Cons run_split del: beats.simps bridge_step.simps bridge_run.simps)
qed simp

section \<open>Starvation\<close>

text \<open>Rounds in which the terminals alone fill the frame.\<close>

fun busy_round :: "bridge_event \<Rightarrow> bool" where
  "busy_round (Gather now fds ready) \<longleftrightarrow> PS_SPI_MAX_RECORDS \<le> length (poll_outbound fds ready)"
| "busy_round _ \<longleftrightarrow> True"

definition is_xrce :: "ps_can_record \<Rightarrow> bool" where
  "is_xrce r \<longleftrightarrow> ps_can_id_cls (rec_id r) = PS_CLS_XRCE"

definition xrce_first :: "bridge \<Rightarrow> bool" where
  "xrce_first b \<longleftrightarrow> br_pc b = At_send \<longrightarrow> PS_SPI_MAX_RECORDS \<le> length (br_batch b) \<and> list_all is_xrce (take PS_SPI_MAX_RECORDS (br_batch b))"

lemma poll_is_xrce: "list_all is_xrce (poll_outbound fds ready)"
  by (auto simp: poll_outbound_def list_all_iff is_xrce_def xrce_record_def split: option.splits if_splits)

lemma step_starves:
  assumes "xrce_first b" "enabled e b" "busy_round e"
  shows "xrce_first (snd (bridge_step e b)) \<and> list_all is_xrce (sent (fst (bridge_step e b)))"
proof (cases e)
  case (Gather now fds ready)
  then show ?thesis using assms(3) poll_is_xrce [of fds ready] by (auto simp: xrce_first_def gather_facts list_all_iff dest: in_set_takeD)
next
  case (Send ok up)
  then have "take 31 (br_full_batch ok up b) = take 31 (br_batch b)" using assms by (simp add: br_full_batch_def xrce_first_def)
  then show ?thesis using Send assms by (simp add: xrce_first_def send_facts br_report_def)
qed (use assms in \<open>simp_all add: xrce_first_def receive_keeps estop_facts\<close>)

lemma run_starves:
  "xrce_first b \<Longrightarrow> legal es b \<Longrightarrow> list_all busy_round es \<Longrightarrow> list_all is_xrce (sent (fst (bridge_run es b)))"
proof (induction es arbitrary: b)
  case (Cons e es)
  then have "xrce_first (snd (bridge_step e b))" "list_all is_xrce (sent (fst (bridge_step e b)))" using step_starves [of b e] by auto
  then show ?case using Cons by (simp add: run_split del: bridge_run.simps bridge_step.simps)
qed simp

section \<open>Properties\<close>

text \<open>Claim C28. The bridge loses, duplicates and garbles no record: over every interleaving of the loop's steps with the ROS callbacks, each record made
  (from the terminals, the voice relay, the command topics, the e-stop service and the heartbeat) is in exactly one frame or still waiting; every
  frame has at most 31 records, fills the 512 bytes of the exchange and is parsed to exactly its records and flags.\<close>

theorem bridge_conserves:
  assumes "bridge_inv b" "legal es b" "bridge_run es b = (outs, b')"
  shows "bridge_inv b' \<and> mset (waiting b) + mset (made_run es b) = mset (sent outs) + mset (waiting b') \<and>
    (\<forall>fl recs tx q. Frame fl recs tx \<in> set outs \<longrightarrow>
       length recs \<le> PS_SPI_MAX_RECORDS \<and> length tx = PS_SPI_XFER_SIZE \<and> fst (fp_parse tx q) = (kOk, recs, fl))"
  using run_inv [OF assms(1,2)] assms(3) by (fastforce simp: list_all_iff good_frame_def)

lemma bridge_init_inv: "bridge_inv (bridge_init path fs start)"
  by (simp add: bridge_inv_def waiting_def bridge_init_def)

definition demo_events :: "bridge_event list" where
  "demo_events = [Joint_topic 0 1 [Fin (1 / 2)] [] [], Gather 0 (replicate 6 True) [0 \<mapsto> [1, 2, 3]], Estop_service (\<lambda>p. True) (\<lambda>i. 5) True,
     Send True 7, Receive (Some (replicate 512 0)), Gather 10000000 (replicate 6 True) Map.empty, Send True 17]"

lemma demo_legal: "legal demo_events (bridge_init p fs 0)"
  by (simp add: demo_events_def bridge_init_def gather_facts send_facts receive_keeps estop_facts)

theorem bridge_conserves_witness:
  "\<exists>outs b'. bridge_run demo_events (bridge_init ''/c'' Map.empty 0) = (outs, b') \<and>
     mset (made_run demo_events (bridge_init ''/c'' Map.empty 0)) = mset (sent outs) + mset (waiting b')"
proof -
  obtain outs b' where r: "bridge_run demo_events (bridge_init ''/c'' Map.empty 0) = (outs, b')" by (metis prod.collapse)
  have "waiting (bridge_init ''/c'' Map.empty 0) = []" by (simp add: waiting_def bridge_init_def)
  then show ?thesis using bridge_conserves [OF bridge_init_inv demo_legal r] r by auto
qed

text \<open>Claim C29. The heartbeat is never faked: over every run two heartbeats are at least 10 ms apart, none is made later than 100 ms after the last good
  answer of the hub, and every one carries OPERATIONAL with no flag but CLOUD_UP (the flags for a latched e-stop and a degraded link are never set).\<close>

theorem heartbeat_discipline:
  "sorted_wrt (\<lambda>s t. s + 10000000 \<le> t) (map fst (beats es b)) \<and>
   (\<not> list_ex hears_life es \<longrightarrow> list_all (\<lambda>(t, r). t - br_last_good b < 100000000) (beats es b)) \<and>
   list_all (\<lambda>(t, r). \<exists>sq up. r = heartbeat_record sq 0 PS_STATE_OPERATIONAL up \<or> r = heartbeat_record sq PS_HB_CLOUD_UP PS_STATE_OPERATIONAL up) (beats es b)"
  using beats_spaced [of b es] beats_alive [of es b] beats_content [of es b] by (auto simp: sorted_wrt_append)

theorem heartbeat_discipline_witness:
  "list_all (\<lambda>(t, r). t - br_last_good ((bridge_init ''/c'' Map.empty 0)\<lparr>br_last_good := 0\<rparr>) < 100000000)
     (beats [Gather 5 [] Map.empty, Send True 0, Receive None] ((bridge_init ''/c'' Map.empty 0)\<lparr>br_last_good := 0\<rparr>))"
  using heartbeat_discipline [of "[Gather 5 [] Map.empty, Send True 0, Receive None]" "(bridge_init ''/c'' Map.empty 0)\<lparr>br_last_good := 0\<rparr>"]
  by (simp add: rx_alive_def del: beats.simps)

text \<open>Claim C30. An e-stop heard from the suit is not cleared by the operator: after an exchange that brings an ESTOP record, with no CLEAR_ESTOP behind it in the
  same frame, no call of the e-stop service, no topic and no later frame opens the heartbeat gate again unless a CLEAR_ESTOP record comes in over the SPI
  link; and the hub, which the service's CLEAR goes to, never routes a frame back to the link it came from. The suit then stays without heartbeats until
  the bridge is restarted.\<close>

theorem external_latch_sticks:
  assumes "rx_records buf = rs @ r # rs'" "ps_can_id_cls (rec_id r) = PS_CLS_SAFETY" "ps_can_id_type (rec_id r) = PS_T_ESTOP"
    and "\<not> list_ex is_clear rs'" "\<not> list_ex hears_clear es" "b1 = snd (bridge_step (Receive (Some buf)) b)"
  shows "beats es b1 = [] \<and> br_external_latched (snd (bridge_run es b1)) \<and>
    \<not> routed PS_PORT_SPI (rec_id (clear_record PS_NODE_ORCH k)) PS_PORT_SPI"
  using latched_silent [OF receive_latches [OF assms(1-4)] assms(5)] by (simp add: assms(6) routed_iff)

theorem external_latch_sticks_witness:
  "let buf = fst (fst (fp_build (replicate PS_SPI_XFER_SIZE 0) 0 [estop_record 1 0 0] (br_parser (bridge_init ''/c'' Map.empty 0))));
       b = bridge_init ''/c'' Map.empty 0;
       es = [Estop_service (\<lambda>p. True) (\<lambda>i. 0) False, Gather 0 [] Map.empty, Send True 0, Receive (Some (replicate 512 0))]
   in \<not> br_external_latched b \<and> br_external_latched (snd (bridge_run es (snd (bridge_step (Receive (Some buf)) b)))) \<and>
      beats es (snd (bridge_step (Receive (Some buf)) b)) = []"
proof -
  let ?b = "bridge_init ''/c'' Map.empty 0"
  let ?es = "[Estop_service (\<lambda>p. True) (\<lambda>i. 0) False, Gather 0 [] Map.empty, Send True 0, Receive (Some (replicate 512 0))]"
  obtain tx used p where f: "fp_build (replicate PS_SPI_XFER_SIZE 0) 0 [estop_record 1 0 0] (br_parser ?b) = ((tx, used), p)" by (metis prod.collapse)
  have "rx_records tx = [] @ estop_record 1 0 0 # []" using built_records [OF _ _ f] by simp
  from external_latch_sticks [OF this _ _ _ _ refl, of ?es ?b 0]
  have "beats ?es (snd (bridge_step (Receive (Some tx)) ?b)) = [] \<and> br_external_latched (snd (bridge_run ?es (snd (bridge_step (Receive (Some tx)) ?b))))"
    by (simp add: estop_record_def rx_records_def is_all_zero_def list_all_iff del: bridge_run.simps bridge_step.simps beats.simps)
  then show ?thesis unfolding f Let_def by (simp add: bridge_init_def del: bridge_run.simps bridge_step.simps beats.simps)
qed

text \<open>Claim C31. The agent's traffic starves safety: while every round finds 31 or more XRCE slices at the terminals, nothing else is ever sent, neither an
  ESTOP of the service nor a heartbeat; they stay in the queue behind what did not fit.\<close>

theorem xrce_starves_safety:
  assumes "br_pc b = At_gather" "legal es b" "list_all busy_round es"
  shows "list_all (\<lambda>r. ps_can_id_cls (rec_id r) = PS_CLS_XRCE) (sent (fst (bridge_run es b)))"
  using run_starves [of b es] assms by (simp add: xrce_first_def is_xrce_def list_all_iff)

theorem xrce_starves_safety_witness:
  "list_all (\<lambda>r. ps_can_id_cls (rec_id r) = PS_CLS_XRCE)
     (sent (fst (bridge_run [Estop_service (\<lambda>p. True) (\<lambda>i. 0) True, Gather 0 [True, False, False, False, False, False] [0 \<mapsto> replicate 256 7], Send True 0]
        (bridge_init ''/c'' Map.empty 0))))"
proof -
  have "chunks8 (replicate 256 (7 :: u8)) = replicate 32 (replicate 8 7)" by code_simp
  then have "31 \<le> length (poll_outbound [True, False, False, False, False, False] [0 \<mapsto> replicate 256 7])"
    by (simp add: poll_outbound_def upt_rec numeral_eq_Suc)
  then show ?thesis by (intro xrce_starves_safety) (simp_all add: bridge_init_def gather_facts estop_facts)
qed

text \<open>Claim C32. The bridge cannot arm the suit: every record it sends is a heartbeat, an ESTOP, a CLEAR, a joint or flap command, an XRCE slice or voice from
  Node 8; it never sends a MODE_SET, which the nodes need to leave STANDBY.\<close>

theorem bridge_never_arms:
  assumes "legal es (bridge_init path fs start)" "r \<in> set (sent (fst (bridge_run es (bridge_init path fs start))))"
  shows "ps_can_id_src (rec_id r) = PS_NODE_ORCH \<and> ps_can_id_type (rec_id r) \<noteq> PS_T_MODE_SET \<and> ps_can_id_type (rec_id r) \<in>
    {PS_T_HEARTBEAT, PS_T_ESTOP, PS_T_CLEAR_ESTOP, PS_T_JOINT_CMD, PS_T_FLAP_CMD, PS_T_XRCE_STREAM, PS_T_AUDIO_DOWN, PS_T_AUDIO_SYNC}"
  using run_inv [OF bridge_init_inv assms(1)] assms(2) by (auto simp: list_all_iff bridge_record_def)

theorem bridge_never_arms_witness:
  "\<exists>r \<in> set (sent (fst (bridge_run [Joint_topic 0 1 [Fin (1 / 2)] [] [], Gather 0 (replicate 6 False) Map.empty, Send True 0] (bridge_init ''/c'' Map.empty 0)))).
     ps_can_id_type (rec_id r) \<noteq> PS_T_MODE_SET"
proof -
  let ?es = "[Joint_topic 0 1 [Fin (1 / 2)] [] [], Gather 0 (replicate 6 False) Map.empty, Send True 0]"
  let ?b = "bridge_init ''/c'' Map.empty 0" and ?r = "joint_record 0 1 [Fin (1 / 2)] [] [] 0"
  have l: "legal ?es ?b" by (simp add: bridge_init_def gather_facts)
  have "poll_outbound (replicate 6 False) Map.empty = []" by (simp add: poll_outbound_def)
  then have "?r \<in> set (sent (fst (bridge_run ?es ?b)))"
    by (simp add: bridge_init_def gather_facts send_facts split_beta Let_def br_report_def br_full_batch_def joint_records_def outbound_push_def)
  then show ?thesis using bridge_never_arms [OF l] by blast
qed

text \<open>A heartbeat can go out under a latched e-stop: when the terminals fill a frame exactly, the heartbeat of that round overflows into the queue, and
  when the operator engages the e-stop before the next round, the frame that carries the ESTOP records and the flag also carries the heartbeat made before.\<close>

lemma beat_sent_while_latched:
  assumes "br_pc b = At_gather" "br_outbound b = []" "ar_outbound (br_relay b) = []"
    and "length (poll_outbound fds ready) = PS_SPI_MAX_RECORDS" "fst (br_tick ok up (bridge_gather now fds ready b)) = Some r"
    and "poll_outbound fds' ready' = []"
    and "es = [Gather now fds ready, Send ok up, Receive None, Estop_service writable ups True, Gather now' fds' ready', Send ok' up']"
  shows "legal es b \<and> (\<exists>fl recs tx. last (fst (bridge_run es b)) = Frame fl recs tx \<and> fl AND PS_SPIF_ESTOP_LATCHED \<noteq> 0 \<and> r \<in> set recs \<and>
    ps_can_id_type (rec_id r) = PS_T_HEARTBEAT)"
proof -
  let ?b1 = "bridge_gather now fds ready b"
  let ?b2 = "snd (bridge_send ok up ?b1)"
  let ?b3 = "snd (bridge_receive None ?b2)"
  let ?b4 = "bridge_estop writable ups True ?b3"
  let ?b5 = "bridge_gather now' fds' ready' ?b4"
  have o2: "br_outbound ?b2 = [r]" using assms(2-5) by (simp add: send_facts gather_facts br_full_batch_def)
  have a: "ar_outbound (br_relay ?b3) = []" using receive_keeps [of None ?b2] by (simp add: send_facts gather_facts)
  obtain rest where o4: "br_outbound ?b4 = r # rest" using o2 receive_keeps [of None ?b2] by (auto simp: estop_facts)
  have latch: "br_latched ?b5" by (simp add: br_latched_def gather_facts estop_facts estop_handle_def)
  have "r \<in> set (take 31 (br_full_batch ok' up' ?b5))"
    using o4 assms(6) a by (simp add: br_full_batch_def gather_facts estop_facts)
  moreover have "br_flags (br_full_batch ok' up' ?b5) ?b5 AND PS_SPIF_ESTOP_LATCHED \<noteq> 0" using latch by (simp add: br_flags_def)
  moreover have "ps_can_id_type (rec_id r) = PS_T_HEARTBEAT" using br_tick_emits [OF assms(5)] by (simp add: heartbeat_record_def)
  moreover have "legal es b" using assms(1,7) by (simp add: gather_facts send_facts receive_keeps estop_facts)
  moreover have "last (fst (bridge_run es b)) = last (fst (bridge_send ok' up' ?b5))"
    by (simp add: assms(7) split_beta Let_def send_facts)
  ultimately show ?thesis by (simp add: send_facts)
qed

end
