(* ===== verification/Orch_Telem.thy ===== *)
theory Orch_Telem
  imports Orch_Bridge
begin

text \<open>
  The telemetry synthesiser of the bridge, \<open>suit_canspi_bridge/src/telem_synth.cpp\<close>: records in, ROS messages out. A published message is an
  output, without its time stamp. Calls are serialised by the lock of the code. \<open>double\<close> and \<open>float\<close> values are rationals rounded by \<open>f64\<close> and \<open>f32\<close>: everything published is an integer
  field times a constant and in range.
\<close>

section \<open>State and messages\<close>

record joint_accum =
  ja_pos :: "rat list"
  ja_vel :: "rat list"
  ja_eff :: "rat list"

text \<open>Orientation as w, x, y, z.\<close>

record imu_msg =
  im_orientation :: "rat list"
  im_angular_velocity :: "rat list"
  im_linear_acceleration :: "rat list"

record bms_status =
  bm_pack_v :: rat
  bm_current_a :: rat
  bm_soc_pct :: u8
  bm_temp_max_c :: u8
  bm_fault_bits :: u16
  bm_cell_v :: "rat list"

record safety_msg =
  sm_state :: u8
  sm_estop_latched :: bool
  sm_heartbeat_ok :: bool
  sm_estop_cause :: u8
  sm_source :: string

record telem =
  t_joints :: "joint_accum list"
  t_limb_imu :: "imu_msg list"
  t_torso_imu :: imu_msg
  t_aero_state :: "rat list"
  t_bms_msg :: bms_status
  t_safety_msg :: safety_msg
  t_stddev :: "xfloat list" \<comment> \<open>the node's three covariance parameters\<close>

datatype diag_level = DL_OK | DL_WARN | DL_ERROR

text \<open>Publications; the first argument is the topic or the frame.\<close>

datatype telem_pub =
    Joint_state string "string list" "rat list" "rat list" "rat list"
  | Imu string imu_msg "xfloat list list" \<comment> \<open>with the three covariance matrices\<close>
  | Force string "rat list"
  | Bms bms_status
  | Aero "rat list"
  | Diag string diag_level string "(string \<times> string) list"
  | Safety_state safety_msg

text \<open>\<open>imu0\<close>: the IMU message as its generated constructor leaves it.\<close>

definition telem_init :: "imu_msg \<Rightarrow> xfloat list \<Rightarrow> telem" where
  "telem_init imu0 sds =
     \<lparr> t_joints = replicate 4 \<lparr> ja_pos = [0, 0], ja_vel = [0, 0], ja_eff = [0, 0] \<rparr>, t_limb_imu = replicate 4 imu0, t_torso_imu = imu0,
       t_aero_state = replicate 16 0,
       t_bms_msg = \<lparr> bm_pack_v = 0, bm_current_a = 0, bm_soc_pct = 0, bm_temp_max_c = 0, bm_fault_bits = 0, bm_cell_v = [] \<rparr>,
       t_safety_msg = \<lparr> sm_state = PS_STATE_BOOT, sm_estop_latched = False, sm_heartbeat_ok = False, sm_estop_cause = 0, sm_source = ''bridge'' \<rparr>,
       t_stddev = sds \<rparr>"

section \<open>Names\<close>

definition node_name :: "u8 \<Rightarrow> string" where
  "node_name i =
     (if i = PS_NODE_ARM_R then ''node_arm_right'' else if i = PS_NODE_ARM_L then ''node_arm_left'' else if i = PS_NODE_LEG_R then ''node_leg_right''
      else if i = PS_NODE_LEG_L then ''node_leg_left'' else if i = PS_NODE_FLIGHT then ''node_flight_actuation''
      else if i = PS_NODE_HELMET then ''node_helmet_interface'' else if i = PS_NODE_HUB then ''node_chest_power_hub''
      else if i = PS_NODE_ORCH then ''node_central_orchestrator'' else ''node_'' @ decimal (unat i))"

text \<open>None is the -1 of the code.\<close>

definition limb_index :: "u8 \<Rightarrow> nat option" where
  "limb_index i =
     (if i = PS_NODE_ARM_R then Some 0 else if i = PS_NODE_ARM_L then Some 1 else if i = PS_NODE_LEG_R then Some 2
      else if i = PS_NODE_LEG_L then Some 3 else None)"

definition limb_name :: "nat \<Rightarrow> string" where
  "limb_name k = (if k < 4 then [''arm_right'', ''arm_left'', ''leg_right'', ''leg_left''] ! k else ''unknown'')"

definition joint_name :: "nat \<Rightarrow> nat \<Rightarrow> string" where
  "joint_name k j =
     (if j > 1 then ''unknown''
      else limb_name k @ ''_'' @ (if k = 2 \<or> k = 3 then [''hip'', ''knee''] ! j else [''elbow'', ''wrist''] ! j))"

section \<open>Handlers\<close>

text \<open>The constants of the code, as doubles and floats.\<close>

definition d_centi :: rat where "d_centi = f64 (1 / 100)"
definition f_centi :: rat where "f_centi = f32 (1 / 100)"
definition kQ15 :: rat where "kQ15 = f64 (1 / 32767)"
definition kMgToMs2 :: rat where "kMgToMs2 = f64 (f64 (980665 / 100000) / 1000)"
definition kDegToRad :: rat where "kDegToRad = f64 (f64 (314159265358979323846 / 10 ^ 20) / 180)"
definition kDdpsToRadS :: rat where "kDdpsToRadS = f64 (f64 (1 / 10) * kDegToRad)"

text \<open>A 16-bit field times a constant.\<close>

definition scale_d :: "rat \<Rightarrow> int \<Rightarrow> rat" where "scale_d c n = f64 (of_int n * c)"
definition scale_f :: "rat \<Rightarrow> int \<Rightarrow> rat" where "scale_f c n = f32 (of_int n * c)"

definition publish_joint :: "nat \<Rightarrow> telem \<Rightarrow> telem_pub" where
  "publish_joint k t =
     (let a = t_joints t ! k
      in Joint_state (limb_name k) [joint_name k 0, joint_name k 1] (ja_pos a) (ja_vel a) (ja_eff a))"

definition on_joint_state :: "u8 \<Rightarrow> bytes \<Rightarrow> telem \<Rightarrow> telem_pub list \<times> telem" where
  "on_joint_state src data t =
     (case limb_index src of None \<Rightarrow> ([], t) | Some k \<Rightarrow>
        let js = PS_WIRE_READ dec_joint_state data; j = unat (js_joint js) in
        if j > 1 then ([], t)
        else
          let a = t_joints t ! k;
              a = a\<lparr>ja_pos := (ja_pos a)[j := scale_d d_centi (sint (js_pos_crad js))], ja_vel := (ja_vel a)[j := scale_d d_centi (sint (js_vel_crad_s js))],
                    ja_eff := (ja_eff a)[j := scale_d d_centi (sint (js_eff_cNm js))]\<rparr>;
              t = t\<lparr>t_joints := (t_joints t)[k := a]\<rparr>
          in ([publish_joint k t], t))"

definition publish_imu :: "string \<Rightarrow> imu_msg \<Rightarrow> telem \<Rightarrow> telem_pub" where
  "publish_imu frame m t =
     Imu frame m (map (\<lambda>sd. let v = dmul sd sd in [v, Fin 0, Fin 0, Fin 0, v, Fin 0, Fin 0, Fin 0, v]) (t_stddev t))"

text \<open>The accumulator an IMU record goes to: a limb's, the torso's for the flight node, or none.\<close>

definition on_imu :: "u8 \<Rightarrow> (imu_msg \<Rightarrow> imu_msg) \<Rightarrow> telem \<Rightarrow> telem_pub list \<times> telem" where
  "on_imu src upd t =
     (case limb_index src of
        Some k \<Rightarrow> let m = upd (t_limb_imu t ! k) in ([publish_imu (limb_name k @ ''_imu'') m t], t\<lparr>t_limb_imu := (t_limb_imu t)[k := m]\<rparr>)
      | None \<Rightarrow> if src = PS_NODE_FLIGHT then let m = upd (t_torso_imu t) in ([publish_imu ''imu_torso'' m t], t\<lparr>t_torso_imu := m\<rparr>) else ([], t))"

definition on_imu_quat :: "u8 \<Rightarrow> bytes \<Rightarrow> telem \<Rightarrow> telem_pub list \<times> telem" where
  "on_imu_quat src data =
     (let q = PS_WIRE_READ dec_imu_quat data
      in on_imu src (\<lambda>m. m\<lparr>im_orientation := map (scale_d kQ15) [sint (iq_qw q), sint (iq_qx q), sint (iq_qy q), sint (iq_qz q)]\<rparr>))"

definition on_imu_acc :: "u8 \<Rightarrow> bytes \<Rightarrow> telem \<Rightarrow> telem_pub list \<times> telem" where
  "on_imu_acc src data =
     (let a = PS_WIRE_READ dec_imu_acc data
      in on_imu src (\<lambda>m. m\<lparr>im_linear_acceleration := map (scale_d kMgToMs2) [sint (ia_ax a), sint (ia_ay a), sint (ia_az a)]\<rparr>))"

definition on_imu_gyr :: "u8 \<Rightarrow> bytes \<Rightarrow> telem \<Rightarrow> telem_pub list \<times> telem" where
  "on_imu_gyr src data =
     (let g = PS_WIRE_READ dec_imu_gyr data
      in on_imu src (\<lambda>m. m\<lparr>im_angular_velocity := map (scale_d kDdpsToRadS) [sint (ig_gx g), sint (ig_gy g), sint (ig_gz g)]\<rparr>))"

definition on_force :: "u8 \<Rightarrow> bytes \<Rightarrow> telem \<Rightarrow> telem_pub list \<times> telem" where
  "on_force src data t =
     (case limb_index src of None \<Rightarrow> ([], t) | Some k \<Rightarrow>
        let f = PS_WIRE_READ dec_force data
        in ([Force (limb_name k) (map (scale_f f_centi) [sint (fo_ch0 f), sint (fo_ch1 f), sint (fo_ch2 f), sint (fo_ch3 f)])], t))"

definition on_bms_summary :: "bytes \<Rightarrow> telem \<Rightarrow> telem_pub list \<times> telem" where
  "on_bms_summary data t =
     (let s = PS_WIRE_READ dec_bms_summary data;
          m = (t_bms_msg t)\<lparr>bm_pack_v := scale_f f_centi (uint (bs_pack_cV s)), bm_current_a := scale_f f_centi (sint (bs_current_cA s)),
                bm_soc_pct := bs_soc_pct s, bm_temp_max_c := bs_temp_max_C s, bm_fault_bits := bs_fault_bits s\<rparr>
      in ([Bms m], t\<lparr>t_bms_msg := m\<rparr>))"

text \<open>\<open>std::vector::resize\<close> of a shorter vector.\<close>

definition resize_to :: "nat \<Rightarrow> rat list \<Rightarrow> rat list" where
  "resize_to n v = (if length v < n then v @ replicate (n - length v) 0 else v)"

definition on_bms_cells :: "bytes \<Rightarrow> telem \<Rightarrow> telem_pub list \<times> telem" where
  "on_bms_cells data t =
     (let c = PS_WIRE_READ dec_bms_cells data;
          base = unat (bc_group c) * 3;
          v = resize_to (base + 3) (bm_cell_v (t_bms_msg t));
          v = blit base (map (\<lambda>w. f32 (of_int (uint w) / 1000)) [bc_mv0 c, bc_mv1 c, bc_mv2 c]) v;
          m = (t_bms_msg t)\<lparr>bm_cell_v := v\<rparr>
      in ([Bms m], t\<lparr>t_bms_msg := m\<rparr>))"

definition on_aero_state :: "bytes \<Rightarrow> telem \<Rightarrow> telem_pub list \<times> telem" where
  "on_aero_state data t =
     (let a = PS_WIRE_READ dec_aero_state data;
          v = (t_aero_state t)[0 := scale_f f_centi (uint (ae_ias_cms a)), 1 := of_int (uint (ae_q_pa a)), 2 := scale_f f_centi (sint (ae_aoa_cdeg a))]
      in ([Aero v], t\<lparr>t_aero_state := v\<rparr>))"

definition on_flap_state :: "bytes \<Rightarrow> telem \<Rightarrow> telem_pub list \<times> telem" where
  "on_flap_state data t =
     (let f = PS_WIRE_READ dec_flap_state data in
      if fs_flap f > 11 then ([], t)
      else let v = (t_aero_state t)[3 + unat (fs_flap f) := of_int (sint (fs_pos_pm f))] in ([Aero v], t\<lparr>t_aero_state := v\<rparr>))"

definition on_node_stats :: "u8 \<Rightarrow> bytes \<Rightarrow> telem_pub" where
  "on_node_stats src data =
     (let s = PS_WIRE_READ dec_node_stats data
      in Diag (node_name src) DL_OK ''node_stats''
           [(''cpu_pct'', decimal (unat (ns_cpu_pct s))), (''state'', decimal (unat (ns_state s))), (''rx_fps'', decimal (unat (ns_rx_fps s))),
            (''tx_fps'', decimal (unat (ns_tx_fps s))), (''err_cnt'', decimal (unat (ns_err_cnt s)))])"

definition on_node_fault :: "u8 \<Rightarrow> bytes \<Rightarrow> telem_pub" where
  "on_node_fault src data =
     (let f = PS_WIRE_READ dec_node_fault data
      in Diag (node_name src) (if nf_severity f = 1 then DL_WARN else if nf_severity f \<ge> 2 then DL_ERROR else DL_OK) ''node_fault''
           [(''fault_code'', decimal (unat (nf_fault_code f))), (''detail'', decimal (unat (nf_detail f))),
            (''uptime_ms'', decimal (unat (nf_uptime_ms f)))])"

definition on_version :: "u8 \<Rightarrow> bytes \<Rightarrow> telem_pub" where
  "on_version src data =
     (let v = PS_WIRE_READ dec_version data
      in Diag (node_name src) DL_OK ''version''
           [(''version'', decimal (unat (vn_major v)) @ ''.'' @ decimal (unat (vn_minor v)) @ ''.'' @ decimal (unat (vn_patch v))),
            (''node_state'', decimal (unat (vn_node_state v))), (''git_short'', decimal (unat (vn_git_short v)))])"

definition telem_handle :: "ps_can_record \<Rightarrow> telem \<Rightarrow> telem_pub list \<times> telem" where
  "telem_handle r t =
     (let parts = ps_can_id_unpack (rec_id r); src = id_src parts; ty = id_type parts; data = rec_data r in
      if id_cls parts = PS_CLS_TELEM then
        (if ty = PS_T_JOINT_STATE then on_joint_state src data t
         else if ty = PS_T_IMU_QUAT then on_imu_quat src data t
         else if ty = PS_T_IMU_ACC then on_imu_acc src data t
         else if ty = PS_T_IMU_GYR then on_imu_gyr src data t
         else if ty = PS_T_FORCE then on_force src data t
         else if ty = PS_T_BMS_SUMMARY then on_bms_summary data t
         else if ty = PS_T_BMS_CELLS then on_bms_cells data t
         else if ty = PS_T_AERO_STATE then on_aero_state data t
         else if ty = PS_T_FLAP_STATE then on_flap_state data t
         else if ty = PS_T_NODE_STATS then ([on_node_stats src data], t)
         else ([], t))
      else if id_cls parts = PS_CLS_SAFETY \<and> ty = PS_T_NODE_FAULT then ([on_node_fault src data], t)
      else if id_cls parts = PS_CLS_MGMT \<and> ty = PS_T_VERSION then ([on_version src data], t)
      else ([], t))"

definition set_safety_state :: "u8 \<Rightarrow> bool \<Rightarrow> bool \<Rightarrow> u8 \<Rightarrow> string \<Rightarrow> telem \<Rightarrow> telem" where
  "set_safety_state st latched_ok beat_ok cause source t =
     t\<lparr>t_safety_msg := \<lparr> sm_state = st, sm_estop_latched = latched_ok, sm_heartbeat_ok = beat_ok, sm_estop_cause = cause, sm_source = source \<rparr>\<rparr>"

text \<open>The 20 Hz timer.\<close>

definition safety_timer :: "telem \<Rightarrow> telem_pub" where
  "safety_timer t = Safety_state (t_safety_msg t)"

text \<open>What the transport loop hands over, in order.\<close>

fun telem_feed :: "bridge_out list \<Rightarrow> telem \<Rightarrow> telem_pub list \<times> telem" where
  "telem_feed [] t = ([], t)"
| "telem_feed (x # xs) t =
     (let (p, t) = (case x of To_telem r \<Rightarrow> telem_handle r t
                    | Set_safety_state st l h c s \<Rightarrow> ([], set_safety_state st l h c s t) | _ \<Rightarrow> ([], t));
          (q, t) = telem_feed xs t
      in (p @ q, t))"

section \<open>Shape of the state\<close>

definition telem_ok :: "telem \<Rightarrow> bool" where
  "telem_ok t \<longleftrightarrow> length (t_joints t) = 4 \<and> list_all (\<lambda>a. length (ja_pos a) = 2 \<and> length (ja_vel a) = 2 \<and> length (ja_eff a) = 2) (t_joints t) \<and>
     length (t_limb_imu t) = 4 \<and> length (t_aero_state t) = 16 \<and> length (bm_cell_v (t_bms_msg t)) \<le> 768 \<and> length (bm_cell_v (t_bms_msg t)) mod 3 = 0"

lemma limb_index_less: "limb_index i = Some k \<Longrightarrow> k < 4"
  by (auto simp: limb_index_def split: if_splits)

lemma joint_state_ok: "telem_ok t \<Longrightarrow> telem_ok (snd (on_joint_state src data t))"
proof -
  assume t: "telem_ok t"
  then have "length (ja_pos (t_joints t ! k)) = 2 \<and> length (ja_vel (t_joints t ! k)) = 2 \<and> length (ja_eff (t_joints t ! k)) = 2" if "k < 4" for k
    using that by (simp add: telem_ok_def list_all_length)
  then show ?thesis using t limb_index_less [of src]
    by (auto simp: on_joint_state_def telem_ok_def Let_def list_all_length nth_list_update split: option.split)
qed

lemma imu_ok: "telem_ok t \<Longrightarrow> telem_ok (snd (on_imu src upd t))"
  by (simp add: on_imu_def telem_ok_def Let_def split: option.split)

lemma cells_ok: "telem_ok t \<Longrightarrow> telem_ok (snd (on_bms_cells data t))"
proof -
  assume t: "telem_ok t"
  let ?c = "PS_WIRE_READ dec_bms_cells data"
  have "unat (bc_group ?c) < 256" using unsigned_less [of "bc_group ?c"] by simp
  then have b: "unat (bc_group ?c) * 3 + 3 \<le> 768" by simp
  have l: "length (resize_to n v) = max n (length v)" for n v by (simp add: resize_to_def)
  have "length (bm_cell_v (t_bms_msg (snd (on_bms_cells data t)))) = max (unat (bc_group ?c) * 3 + 3) (length (bm_cell_v (t_bms_msg t)))"
    by (simp add: on_bms_cells_def Let_def l)
  then show ?thesis using t b by (auto simp: telem_ok_def on_bms_cells_def Let_def max_def mod_add_eq split: if_splits)
qed

lemma handle_ok: "telem_ok t \<Longrightarrow> telem_ok (snd (telem_handle r t))"
proof -
  assume t: "telem_ok t"
  have "telem_ok (snd (on_bms_summary d t))" "telem_ok (snd (on_aero_state d t))" "telem_ok (snd (on_flap_state d t))" "telem_ok (snd (on_force s d t))" for s d
    using t by (simp_all add: telem_ok_def on_bms_summary_def on_aero_state_def on_flap_state_def on_force_def Let_def split: option.split)
  then show ?thesis using t
    by (simp add: telem_handle_def Let_def joint_state_ok on_imu_quat_def on_imu_acc_def on_imu_gyr_def imu_ok cells_ok)
qed

lemma feed_ok: "telem_ok t \<Longrightarrow> telem_ok (snd (telem_feed xs t))"
proof (induction xs arbitrary: t)
  case (Cons x xs)
  have "telem_ok (set_safety_state a b c d e t)" for a b c d e using Cons.prems by (simp add: telem_ok_def set_safety_state_def)
  then show ?case using Cons handle_ok [OF Cons.prems] by (auto simp: Let_def split_beta split: bridge_out.split)
qed simp

text \<open>The safety message is the last one set.\<close>

lemma handle_safety: "t_safety_msg (snd (telem_handle r t)) = t_safety_msg t"
  by (simp add: telem_handle_def on_joint_state_def on_imu_quat_def on_imu_acc_def on_imu_gyr_def on_imu_def on_force_def on_bms_summary_def on_bms_cells_def
      on_aero_state_def on_flap_state_def Let_def split: option.split)

definition no_report :: "bridge_out \<Rightarrow> bool" where
  "no_report x \<longleftrightarrow> (case x of Set_safety_state st l h c s \<Rightarrow> False | _ \<Rightarrow> True)"

lemma feed_safety: "list_all no_report xs \<Longrightarrow> t_safety_msg (snd (telem_feed xs t)) = t_safety_msg t"
  by (induction xs arbitrary: t) (auto simp: Let_def split_beta handle_safety no_report_def split: bridge_out.split_asm bridge_out.split)

section \<open>Properties\<close>

text \<open>Whatever the suit sends, the synthesiser stays within its arrays: over any outputs of the transport loop the four joint accumulators keep
  two entries each, the flap and airspeed vector its 16, and the list of cell voltages grows in threes to at most 768, whatever group numbers and flap numbers come
  in.\<close>

lemma telem_in_bounds: "telem_ok (snd (telem_feed xs (telem_init imu0 sds)))"
  by (rule feed_ok) (simp add: telem_ok_def telem_init_def list_all_iff)

text \<open>The limbs by node identifier: index, topic and joints.\<close>

definition limb_table :: "u8 \<rightharpoonup> nat \<times> string \<times> string list" where
  "limb_table = map_of
     [(1, 0, ''arm_right'', [''arm_right_elbow'', ''arm_right_wrist'']), (2, 1, ''arm_left'', [''arm_left_elbow'', ''arm_left_wrist'']),
      (3, 2, ''leg_right'', [''leg_right_hip'', ''leg_right_knee'']), (4, 3, ''leg_left'', [''leg_left_hip'', ''leg_left_knee''])]"

lemma limb_index_table: "limb_index n = map_option fst (limb_table n)"
  by (simp add: limb_index_def limb_table_def)

lemma limb_names: "limb_table n = Some (k, limb, names) \<Longrightarrow> limb_name k = limb \<and> [joint_name k 0, joint_name k 1] = names"
  by (auto simp: limb_table_def limb_name_def joint_name_def split: if_splits)

text \<open>Claim C37. A joint state reaches its topic: a JOINT_STATE of a joint of Node 1, 2, 3 or 4 is published on the topic of the right arm, left arm, right leg or left
  leg, under the names of its joints, with its position, velocity and effort in SI units (a hundredth of the field, rounded once in double) and the other joint's
  last values beside it; the other limbs' accumulators are unchanged. Records of other nodes, and of joints above 1, publish nothing.\<close>

theorem joint_state_published:
  assumes "telem_ok t" "ps_can_id_cls (rec_id r) = PS_CLS_TELEM" "ps_can_id_type (rec_id r) = PS_T_JOINT_STATE" "rec_data r = enc_joint_state js"
  shows "case map_of
      [(1, 0, ''arm_right'', [''arm_right_elbow'', ''arm_right_wrist'']), (2, 1, ''arm_left'', [''arm_left_elbow'', ''arm_left_wrist'']),
       (3, 2, ''leg_right'', [''leg_right_hip'', ''leg_right_knee'']), (4, 3, ''leg_left'', [''leg_left_hip'', ''leg_left_knee''])]
      (ps_can_id_src (rec_id r)) of
      None \<Rightarrow> telem_handle r t = ([], t)
    | Some (k, limb, names) \<Rightarrow> if js_joint js > 1 then telem_handle r t = ([], t)
        else \<exists>pos vel eff t'. telem_handle r t = ([Joint_state limb names pos vel eff], t') \<and>
          (\<forall>j < 2. if j = unat (js_joint js)
             then pos ! j = f64 (of_int (sint (js_pos_crad js)) * f64 (1 / 100)) \<and> vel ! j = f64 (of_int (sint (js_vel_crad_s js)) * f64 (1 / 100)) \<and>
               eff ! j = f64 (of_int (sint (js_eff_cNm js)) * f64 (1 / 100))
             else pos ! j = ja_pos (t_joints t ! k) ! j \<and> vel ! j = ja_vel (t_joints t ! k) ! j \<and> eff ! j = ja_eff (t_joints t ! k) ! j) \<and>
          (\<forall>i. i \<noteq> k \<longrightarrow> t_joints t' ! i = t_joints t ! i) \<and> t_safety_msg t' = t_safety_msg t"
proof -
  let ?n = "ps_can_id_src (rec_id r)"
  have rd: "PS_WIRE_READ dec_joint_state (rec_data r) = js" by (simp add: assms(4) PS_WIRE_READ_def jsc.length_enc jsc.dec_enc)
  have h: "telem_handle r t = on_joint_state ?n (rec_data r) t" using assms(2,3) by (simp add: telem_handle_def)
  have g: "unat (js_joint js) > 1 \<longleftrightarrow> js_joint js > 1" by (simp add: word_less_nat_alt)
  show ?thesis
  proof (cases "limb_table ?n")
    case None
    then show ?thesis unfolding limb_table_def [symmetric] by (simp add: h on_joint_state_def limb_index_table)
  next
    case (Some e)
    obtain k limb names where e: "e = (k, limb, names)" by (cases e)
    have i: "limb_index ?n = Some k" using Some e by (simp add: limb_index_table)
    have nm: "limb_name k = limb" "[joint_name k 0, joint_name k 1] = names" using limb_names Some e by auto
    have l: "length (ja_pos (t_joints t ! k)) = 2" "length (ja_vel (t_joints t ! k)) = 2" "length (ja_eff (t_joints t ! k)) = 2" "k < length (t_joints t)"
      using assms(1) limb_index_less [OF i] by (simp_all add: telem_ok_def list_all_length)
    show ?thesis unfolding limb_table_def [symmetric] Some e nm [symmetric] option.case prod.case
      using i l g by (auto simp: h on_joint_state_def rd Let_def publish_joint_def scale_d_def d_centi_def nth_list_update)
  qed
qed

theorem joint_state_published_witness:
  "\<exists>pos vel eff t'. telem_handle \<lparr> rec_id = ps_can_id_pack PS_CLS_TELEM 3 8 PS_T_JOINT_STATE 0, rec_bus = 1, rec_dlc = 8, rec_ts_ms = 0,
       rec_data = enc_joint_state \<lparr> js_joint = 1, js_flags = 0, js_pos_crad = 0, js_vel_crad_s = 0, js_eff_cNm = 0 \<rparr> \<rparr>
     (telem_init \<lparr> im_orientation = [], im_angular_velocity = [], im_linear_acceleration = [] \<rparr> []) =
     ([Joint_state ''leg_right'' [''leg_right_hip'', ''leg_right_knee''] pos vel eff], t')"
proof -
  let ?js = "\<lparr> js_joint = 1, js_flags = 0, js_pos_crad = 0, js_vel_crad_s = 0, js_eff_cNm = 0 \<rparr>"
  let ?r = "\<lparr> rec_id = ps_can_id_pack PS_CLS_TELEM 3 8 PS_T_JOINT_STATE 0, rec_bus = 1, rec_dlc = 8, rec_ts_ms = 0, rec_data = enc_joint_state ?js \<rparr>"
  let ?t = "telem_init \<lparr> im_orientation = [], im_angular_velocity = [], im_linear_acceleration = [] \<rparr> []"
  have t: "telem_ok ?t" by (simp add: telem_ok_def telem_init_def list_all_iff)
  have i: "limb_table (ps_can_id_src (rec_id ?r)) = Some (2, ''leg_right'', [''leg_right_hip'', ''leg_right_knee''])" by (simp add: limb_table_def)
  have p: "ps_can_id_cls (rec_id ?r) = PS_CLS_TELEM" "ps_can_id_type (rec_id ?r) = PS_T_JOINT_STATE" "rec_data ?r = enc_joint_state ?js" by simp_all
  have "\<not> js_joint ?js > 1" by simp
  with joint_state_published [OF t p, folded limb_table_def] show ?thesis unfolding i option.case prod.case by (simp only: if_False) blast
qed

text \<open>The service has a cause exactly while it is latched, and then the operator's.\<close>

definition cause_ok :: "estop_service \<Rightarrow> bool" where
  "cause_ok s \<longleftrightarrow> svc_latched_cause s = (if svc_latched s then PS_ESTOP_OPERATOR else 0)"

lemma step_cause: "cause_ok (br_estop b) \<Longrightarrow> cause_ok (br_estop (snd (bridge_step e b)))"
  by (cases e) (auto simp: gather_facts send_facts receive_keeps estop_facts cause_ok_def estop_handle_def split: prod.splits)

lemma run_cause: "cause_ok (br_estop b) \<Longrightarrow> cause_ok (br_estop (snd (bridge_run es b)))"
  by (induction es arbitrary: b) (simp_all add: run_split step_cause del: bridge_run.simps(2) bridge_step.simps)

lemma init_cause: "cause_ok (br_estop (bridge_init path fs start))"
  by (simp add: cause_ok_def bridge_init_def)

text \<open>Claim C38. The published safety state misleads in two ways. Between two heartbeats, that is in nine of ten turns of a healthy bridge, it says \<open>heartbeat_ok\<close>
  false, although the gate is open; and after any run of the bridge that has left an e-stop heard from the suit latched and the operator's service not, also
  one in which the operator has engaged and cleared before, it gives cause 0 and the bridge as its source, which is what an absent e-stop looks like.\<close>

theorem safety_report_misleads:
  assumes "br_healthy b" "\<not> br_latched b" "em_last_emit (br_heartbeat b) = Some s" "br_now b - s < 10000000"
    and "b' = snd (bridge_run es (bridge_init path fs start))" "br_external_latched b'" "\<not> svc_latched (br_estop b')"
    and "list_all no_report xs"
  shows "safety_timer (snd (telem_feed (br_report ok up b # xs) t)) =
      Safety_state \<lparr> sm_state = PS_STATE_OPERATIONAL, sm_estop_latched = False, sm_heartbeat_ok = False, sm_estop_cause = 0, sm_source = ''bridge'' \<rparr> \<and>
    safety_timer (snd (telem_feed (br_report ok up b' # xs) t)) =
      Safety_state \<lparr> sm_state = PS_STATE_ESTOP, sm_estop_latched = True, sm_heartbeat_ok = False, sm_estop_cause = 0, sm_source = ''bridge'' \<rparr>"
proof -
  have l: "\<not> svc_latched (br_estop b)" "br_latched b'" using assms(2,6) by (simp_all add: br_latched_def)
  have c: "svc_latched_cause (br_estop b') = 0" using run_cause [OF init_cause, of es path fs start] assms(5,7) by (simp add: cause_ok_def)
  have n: "fst (br_tick ok up c) = None" if "c = b \<or> c = b'" for c
  proof (rule ccontr)
    assume "fst (br_tick ok up c) \<noteq> None"
    then obtain r where r: "fst (br_tick ok up c) = Some r" by auto
    from br_tick_emits [OF r] show False using that l(2) assms(3,4) to_ms_less [of 10 "br_now b - s"] by auto
  qed
  have "br_report ok up b = Set_safety_state PS_STATE_OPERATIONAL False False 0 ''bridge''"
    using assms(1,2) l n by (simp add: br_report_def br_src_state_def)
  moreover have "br_report ok up b' = Set_safety_state PS_STATE_ESTOP True False 0 ''bridge''"
    using assms(7) l c n [of b'] by (simp add: br_report_def br_src_state_def)
  ultimately show ?thesis using feed_safety [OF assms(8)] by (simp add: Let_def split_beta safety_timer_def set_safety_state_def)
qed

theorem safety_report_misleads_witness:
  "let t = telem_init \<lparr> im_orientation = [], im_angular_velocity = [], im_linear_acceleration = [] \<rparr> [];
       b = (bridge_init ''/c'' Map.empty 0)\<lparr>br_heartbeat := \<lparr> em_seq = 1, em_last_emit = Some 0 \<rparr>, br_now := 5000000, br_last_good := 0\<rparr>;
       buf = fst (fst (fp_build (replicate PS_SPI_XFER_SIZE 0) 0 [estop_record 1 0 0] (br_parser (bridge_init ''/c'' Map.empty 0))));
       b' = snd (bridge_run [Estop_service (\<lambda>p. True) (\<lambda>i. 0) True, Estop_service (\<lambda>p. True) (\<lambda>i. 0) False, Gather 0 [] Map.empty, Send True 0,
              Receive (Some buf)] (bridge_init ''/c'' Map.empty 0))
   in sm_heartbeat_ok (t_safety_msg (snd (telem_feed [br_report True 0 b] t))) = False \<and>
      sm_estop_latched (t_safety_msg (snd (telem_feed [br_report True 0 b'] t))) \<and>
      sm_estop_cause (t_safety_msg (snd (telem_feed [br_report True 0 b'] t))) = 0"
proof -
  let ?t = "telem_init \<lparr> im_orientation = [], im_angular_velocity = [], im_linear_acceleration = [] \<rparr> []" and ?i = "bridge_init ''/c'' Map.empty 0"
  let ?b = "?i\<lparr>br_heartbeat := \<lparr> em_seq = 1, em_last_emit = Some 0 \<rparr>, br_now := 5000000, br_last_good := 0\<rparr>"
  obtain buf used p where f: "fp_build (replicate PS_SPI_XFER_SIZE 0) 0 [estop_record 1 0 0] (br_parser ?i) = ((buf, used), p)" by (metis prod.collapse)
  let ?es = "[Estop_service (\<lambda>p. True) (\<lambda>i. 0) True, Estop_service (\<lambda>p. True) (\<lambda>i. 0) False, Gather 0 [] Map.empty, Send True 0, Receive (Some buf)]"
  let ?b' = "snd (bridge_run ?es ?i)"
  have rec: "rx_records buf = [] @ estop_record 1 0 0 # []" using built_records [OF _ _ f] by simp
  have "br_external_latched (snd (bridge_step (Receive (Some buf)) c))" for c
    by (rule receive_latches [OF rec]) (simp_all add: estop_record_def)
  then have x: "br_external_latched ?b'" by (simp add: run_split del: bridge_run.simps(2) bridge_step.simps)
  have y: "\<not> svc_latched (br_estop ?b')"
    by (simp add: run_split receive_keeps send_facts gather_facts estop_facts estop_handle_def split_beta del: bridge_run.simps(2))
  have h: "br_healthy ?b" "\<not> br_latched ?b" "em_last_emit (br_heartbeat ?b) = Some 0" "br_now ?b - 0 < 10000000" "list_all no_report []"
    by (simp_all add: br_healthy_def br_latched_def bridge_init_def to_ms_def signed_divide_int_def)
  from safety_report_misleads [OF h(1-4) refl x y h(5), of True 0 ?t] show ?thesis unfolding Let_def safety_timer_def f
    by (simp del: bridge_run.simps)
qed

end
