(* ===== verification/Orch_Xrce.thy ===== *)
theory Orch_Xrce
  imports Orch_Bridge
begin

text \<open>The micro-ROS byte streams through the transport loop of \<open>main.cpp\<close> (\<open>suit_canspi_bridge\<close>): which slices a run of the bridge polls for a node, and in which
  order it sends them. As long as no frame overflows, the slices of a node leave in the order they were read. When a frame does overflow, the slices cut off go
  to the end of \<open>OutboundQueue\<close>, behind what the next poll reads, and leave in another order.\<close>

section \<open>Slices of a node\<close>

definition for_node :: "nat \<Rightarrow> ps_can_record \<Rightarrow> bool" where
  "for_node i r \<longleftrightarrow> is_xrce r \<and> ps_can_id_dst (rec_id r) = en_id (kEdgeNodes ! i)"

text \<open>What the polls of a run read from terminal \<open>i\<close>: the reads, one after the other.\<close>

fun reads :: "nat \<Rightarrow> bridge_event list \<Rightarrow> bytes list" where
  "reads i [] = []"
| "reads i (Gather now fds ready # es) = (if fds ! i then (case ready i of None \<Rightarrow> [] | Some b \<Rightarrow> [take 256 b]) else []) @ reads i es"
| "reads i (e # es) = reads i es"

definition slices :: "nat \<Rightarrow> bridge_event list \<Rightarrow> bytes list" where
  "slices i es = concat (map chunks8 (reads i es))"

text \<open>No frame of the run overflows.\<close>

fun fits :: "bridge_event list \<Rightarrow> bridge \<Rightarrow> bool" where
  "fits [] b \<longleftrightarrow> True"
| "fits (e # es) b \<longleftrightarrow> (case e of Send ok up \<Rightarrow> length (br_full_batch ok up b) \<le> PS_SPI_MAX_RECORDS | _ \<Rightarrow> True) \<and> fits es (snd (bridge_step e b))"

lemma concat_slices: "concat (slices i es) = concat (reads i es)"
proof -
  have "concat (concat (map chunks8 xss)) = concat xss" for xss :: "bytes list" by (induction xss) simp_all
  then show ?thesis by (simp add: slices_def)
qed

lemma slices_short: "ch \<in> set (slices i es) \<Longrightarrow> length ch \<le> 8"
  by (auto simp: slices_def dest: chunks8_length)

lemma reads_Cons: "reads i (e # es) = reads i [e] @ reads i es"
  by (cases e) simp_all

lemma slices_Cons: "slices i (e # es) = slices i [e] @ slices i es"
  unfolding slices_def by (subst reads_Cons) simp

section \<open>Only the terminals make slices\<close>

lemma down_steps_not_xrce:
  "list_all (\<lambda>r. \<not> is_xrce r) (ar_outbound a) \<Longrightarrow> list_all (\<lambda>r. \<not> is_xrce r) (ar_outbound (foldl down_step a chs))"
  by (induction chs arbitrary: a) (simp_all add: down_step_def Let_def is_xrce_def down_sync_record_def down_frame_record_def)

lemma on_downlink_not_xrce:
  "list_all (\<lambda>r. \<not> is_xrce r) (ar_outbound a) \<Longrightarrow> list_all (\<lambda>r. \<not> is_xrce r) (ar_outbound (on_downlink c b a))"
  by (auto simp: on_downlink_def process_adpcm_down_def Let_def split_beta intro!: down_steps_not_xrce split: codec.split)

lemma tick_not_xrce: "fst (br_tick ok up b) = Some r \<Longrightarrow> \<not> is_xrce r"
  using br_tick_emits [of ok up b r] by (simp add: is_xrce_def heartbeat_record_def)

lemma estop_not_xrce: "list_all (\<lambda>r. \<not> is_xrce r) (made (Estop_service w ups en) b)"
  by (cases en) (auto simp: estop_handle_def list_all_iff is_xrce_def estop_record_def clear_record_def split: prod.split)

lemma commands_not_xrce:
  "list_all (\<lambda>r. \<not> is_xrce r) (joint_records u nid pos vel eff)" "list_all (\<lambda>r. \<not> is_xrce r) (flap_records u vs)"
  by (simp_all add: joint_records_def flap_records_def joint_record_def flap_record_def is_xrce_def list_all_iff Let_def)

section \<open>In order while nothing overflows\<close>

definition quiet :: "bridge \<Rightarrow> bool" where
  "quiet b \<longleftrightarrow> list_all (\<lambda>r. \<not> is_xrce r) (br_outbound b @ ar_outbound (br_relay b)) \<and> (br_pc b \<noteq> At_send \<longrightarrow> br_batch b = [])"

lemma filter_not_xrce: "list_all (\<lambda>r. \<not> is_xrce r) rs \<Longrightarrow> filter (for_node i) rs = []"
  by (auto simp: filter_empty_conv for_node_def list_all_iff)

lemma filter_poll:
  assumes "i < 6"
  shows "filter (for_node i) (poll_outbound fds ready) = map (xrce_record (kEdgeNodes ! i)) (slices i [Gather now fds ready])"
proof -
  have "filter (for_node i) (poll_outbound fds ready) = filter (\<lambda>r. ps_can_id_dst (rec_id r) = en_id (kEdgeNodes ! i)) (poll_outbound fds ready)"
    using poll_is_xrce [of fds ready] by (intro filter_cong) (auto simp: for_node_def list_all_iff)
  then show ?thesis by (simp add: filter_terminal [OF assms] slices_def split: option.split)
qed

lemma step_in_order:
  assumes "i < 6" "quiet b" "enabled e b" "fits [e] b"
  shows "quiet (snd (bridge_step e b)) \<and>
    filter (for_node i) (br_batch b) @ map (xrce_record (kEdgeNodes ! i)) (slices i [e]) =
      filter (for_node i) (sent (fst (bridge_step e b))) @ filter (for_node i) (br_batch (snd (bridge_step e b)))"
proof (cases e)
  case (Gather now fds ready)
  let ?out = "br_outbound b" and ?audio = "ar_outbound (br_relay b)"
  have n: "list_all (\<lambda>r. \<not> is_xrce r) (?audio @ take 31 ?out)" "list_all (\<lambda>r. \<not> is_xrce r) (drop 31 ?out)"
    using assms(2) by (auto simp: quiet_def list_all_iff dest: in_set_takeD in_set_dropD)
  then show ?thesis
    using assms(2,3) Gather filter_not_xrce [OF n(1), of i] by (simp add: quiet_def gather_facts filter_poll [OF assms(1), of fds ready now])
next
  case (Send ok up)
  have "filter (for_node i) (case fst (br_tick ok up b) of Some hb \<Rightarrow> [hb] | None \<Rightarrow> []) = []"
    using tick_not_xrce [of ok up b] by (auto simp: for_node_def split: option.split)
  then show ?thesis using assms(2,4) Send by (simp add: quiet_def send_facts br_report_def slices_def br_full_batch_def)
next
  case (Receive rx)
  then show ?thesis using assms(2,3) receive_keeps [of rx b] by (simp add: quiet_def slices_def)
next
  case (Estop_service w ups en)
  then show ?thesis using assms(2) estop_not_xrce [of w ups en b] by (simp add: quiet_def estop_facts slices_def del: made.simps)
next
  case (Downlink_topic c d)
  then show ?thesis using assms(2) by (simp add: quiet_def slices_def on_downlink_not_xrce)
qed (use assms(2) commands_not_xrce in \<open>simp_all add: quiet_def slices_def\<close>)

lemma run_in_order:
  assumes "i < 6" "quiet b" "legal es b" "fits es b"
  shows "filter (for_node i) (br_batch b) @ map (xrce_record (kEdgeNodes ! i)) (slices i es) =
    filter (for_node i) (sent (fst (bridge_run es b))) @ filter (for_node i) (br_batch (snd (bridge_run es b)))"
  using assms(2-4)
proof (induction es arbitrary: b)
  case (Cons e es)
  let ?b = "snd (bridge_step e b)"
  have f: "fits [e] b" "fits es ?b" "enabled e b" "legal es ?b" using Cons.prems by simp_all
  note s = step_in_order [OF assms(1) Cons.prems(1) f(3,1)]
  have ih: "filter (for_node i) (br_batch ?b) @ map (xrce_record (kEdgeNodes ! i)) (slices i es) =
      filter (for_node i) (sent (fst (bridge_run es ?b))) @ filter (for_node i) (br_batch (snd (bridge_run es ?b)))"
    using Cons.IH [of ?b] s f(2,4) by blast
  have "filter (for_node i) (br_batch b) @ map (xrce_record (kEdgeNodes ! i)) (slices i (e # es)) =
      filter (for_node i) (sent (fst (bridge_step e b))) @ filter (for_node i) (br_batch ?b) @ map (xrce_record (kEdgeNodes ! i)) (slices i es)"
    using s by (simp add: slices_Cons [of i e es] del: bridge_step.simps)
  then show ?case unfolding run_split ih by simp
qed (simp add: slices_def)

lemma init_quiet: "quiet (bridge_init path fs start)"
  by (simp add: quiet_def bridge_init_def)

section \<open>From the hub to the terminals\<close>

text \<open>What reaches terminal \<open>i\<close> when the bridge makes the writes of \<open>outs\<close>; \<open>as\<close> has the answers of the system to each of them.\<close>

fun terminal :: "bool list \<Rightarrow> nat \<Rightarrow> write_answer list list \<Rightarrow> bridge_out list \<Rightarrow> bytes" where
  "terminal fds i (a # as) (To_xrce nid data # outs) =
     (if index_of nid = Some i then (case write_inbound fds nid a data of Some (ok, w) \<Rightarrow> w | None \<Rightarrow> []) else []) @ terminal fds i as outs"
| "terminal fds i as (_ # outs) = terminal fds i as outs"
| "terminal fds i as [] = []"

lemma index_of_node: "index_of nid = (if 1 \<le> nid \<and> nid \<le> 6 then Some (unat nid - 1) else None)"
proof (cases "1 \<le> nid \<and> nid \<le> 6")
  case True
  then have "unat nid \<in> {1, 2, 3, 4, 5, 6}" by (auto simp: word_le_nat_alt)
  then have "nid \<in> {1, 2, 3, 4, 5, 6}" by (auto simp: word_unat_eq_iff)
  then show ?thesis by (auto simp: index_of_def kEdgeNodes_def upt_rec)
next
  case False
  then have "nid \<notin> {1, 2, 3, 4, 5, 6}" by auto
  then show ?thesis using False by (auto simp: index_of_def kEdgeNodes_def upt_rec)
qed

lemma terminal_nothing: "index_of nid \<noteq> Some i \<or> \<not> fds ! i \<Longrightarrow> terminal fds i as (map (To_xrce nid) chs) = []"
proof (induction chs arbitrary: as)
  case (Cons ch chs)
  then show ?case by (cases as) (auto simp: write_inbound_def)
qed simp

lemma terminal_all:
  assumes "index_of nid = Some i" "fds ! i"
  shows "list_all2 (\<lambda>a ch. \<exists>w. write_loop a ch = Some (True, w)) as chs \<Longrightarrow> terminal fds i as (map (To_xrce nid) chs) = concat chs"
proof (induction as chs rule: list_all2_induct)
  case (Cons a as ch chs)
  then show ?case using assms write_loop_result [of a ch True] by (auto simp: write_inbound_def)
qed simp

section \<open>Out of order when a frame overflows\<close>

lemma chunks8_append: "length xs = 8 * n \<Longrightarrow> chunks8 (xs @ ys) = chunks8 xs @ chunks8 ys"
proof (induction n arbitrary: xs)
  case (Suc n)
  then obtain x xs' where x: "xs = x # xs'" by (cases xs) auto
  have "chunks8 (drop 8 xs @ ys) = chunks8 (drop 8 xs) @ chunks8 ys" using Suc by simp
  then show ?case using Suc.prems x by simp
qed simp

lemma length_chunks8: "length (chunks8 xs) = (length xs + 7) div 8"
  by (induction xs rule: chunks8.induct) (simp_all add: div_if)

lemma poll_one:
  assumes "i < 6" "fds ! i" "length bs \<le> 256"
  shows "poll_outbound fds [i \<mapsto> bs] = map (xrce_record (kEdgeNodes ! i)) (chunks8 bs)"
  using assms by (auto simp: poll_outbound_def less_6 upt_rec)

lemma for_node_xrce: "i < 6 \<Longrightarrow> for_node i (xrce_record (kEdgeNodes ! i) ch)"
  by (simp add: for_node_def xrce_dst) (simp add: is_xrce_def xrce_record_def)

lemma filter_slices: "i < 6 \<Longrightarrow> filter (for_node i) (map (xrce_record (kEdgeNodes ! i)) chs) = map (xrce_record (kEdgeNodes ! i)) chs"
  by (simp add: filter_id_conv for_node_xrce)

lemma tick_filtered: "filter (for_node i) (case fst (br_tick ok up b) of Some hb \<Rightarrow> [hb] | None \<Rightarrow> []) = []"
  using tick_not_xrce [of ok up b] by (auto simp: for_node_def split: option.split)

lemma tick_short: "length (case fst (br_tick ok up b) of Some hb \<Rightarrow> [hb] | None \<Rightarrow> []) \<le> 1"
  by (simp split: option.split)

text \<open>Claim C0. Overflow reorders a byte stream: a read of 256 bytes makes 32 slices and a frame takes 31, so the last eight bytes go back to the queue, and
  the next round sends what it reads from the same terminal before them. From a bridge with nothing queued, two polls of one terminal, of 256 bytes and of
  at most 224, are sent to the node as the first 248 bytes, the bytes of the second read and then the last eight of the first.\<close>

theorem xrce_reordered:
  assumes "br_pc b = At_gather" "br_outbound b = []" "ar_outbound (br_relay b) = []" "i < 6" "fds ! i" "length bs = 256" "length cs \<le> 224"
    and "es = [Gather now fds [i \<mapsto> bs], Send ok up, Receive rx, Gather now' fds [i \<mapsto> cs], Send ok' up']"
  shows "legal es b \<and> concat (map xrce_payload (filter (for_node i) (sent (fst (bridge_run es b))))) = take 248 bs @ cs @ drop 248 bs"
proof -
  let ?x = "xrce_record (kEdgeNodes ! i)"
  let ?b1 = "bridge_gather now fds [i \<mapsto> bs] b"
  let ?b2 = "snd (bridge_send ok up ?b1)"
  let ?b3 = "snd (bridge_receive rx ?b2)"
  let ?b4 = "bridge_gather now' fds [i \<mapsto> cs] ?b3"
  let ?h1 = "case fst (br_tick ok up ?b1) of Some hb \<Rightarrow> [hb] | None \<Rightarrow> []" and ?h2 = "case fst (br_tick ok' up' ?b4) of Some hb \<Rightarrow> [hb] | None \<Rightarrow> []"
  have "chunks8 bs = chunks8 (take 248 bs @ drop 248 bs)" by simp
  also have "... = chunks8 (take 248 bs) @ chunks8 (drop 248 bs)" using assms(6) by (intro chunks8_append [of _ 31]) simp
  finally have c: "chunks8 bs = chunks8 (take 248 bs) @ chunks8 (drop 248 bs)" .
  have l: "length (chunks8 (take 248 bs)) = 31" "length (chunks8 (drop 248 bs)) = 1" "length (chunks8 cs) \<le> 28"
    using assms(6,7) by (simp_all add: length_chunks8)
  have f1: "br_full_batch ok up ?b1 = map ?x (chunks8 (take 248 bs)) @ map ?x (chunks8 (drop 248 bs)) @ ?h1"
    using assms(2-6) c by (simp add: br_full_batch_def gather_facts poll_one)
  have s1: "take 31 (br_full_batch ok up ?b1) = map ?x (chunks8 (take 248 bs))" "br_outbound ?b2 = map ?x (chunks8 (drop 248 bs)) @ ?h1"
    using l(1) assms(2) by (simp_all add: f1 send_facts gather_facts)
  have o3: "br_outbound ?b3 = map ?x (chunks8 (drop 248 bs)) @ ?h1" "ar_outbound (br_relay ?b3) = []"
    using s1(2) receive_keeps [of rx ?b2] by (simp_all add: send_facts gather_facts)
  have "length (map ?x (chunks8 (drop 248 bs)) @ ?h1) \<le> 31" using l(2) tick_short [of ok up ?b1] by simp
  then have f2: "br_full_batch ok' up' ?b4 = map ?x (chunks8 cs) @ map ?x (chunks8 (drop 248 bs)) @ ?h1 @ ?h2"
    using assms(4,5,7) o3 by (simp add: br_full_batch_def gather_facts poll_one)
  have "length (br_full_batch ok' up' ?b4) \<le> 31"
    unfolding f2 using l(2,3) tick_short [of ok up ?b1] tick_short [of ok' up' ?b4] by simp
  then have s2: "take 31 (br_full_batch ok' up' ?b4) = br_full_batch ok' up' ?b4" by simp
  have "sent (fst (bridge_run es b)) = take 31 (br_full_batch ok up ?b1) @ take 31 (br_full_batch ok' up' ?b4)"
    using receive_keeps [of rx ?b2] by (simp add: assms(8) run_split send_facts br_report_def del: bridge_run.simps(2))
  then have "filter (for_node i) (sent (fst (bridge_run es b))) = map ?x (chunks8 (take 248 bs)) @ map ?x (chunks8 cs) @ map ?x (chunks8 (drop 248 bs))"
    using s1(1) s2 f2 by (simp only: filter_append filter_slices [OF assms(4)] tick_filtered append_Nil2 append_assoc)
  then have "concat (map xrce_payload (filter (for_node i) (sent (fst (bridge_run es b))))) = take 248 bs @ cs @ drop 248 bs"
    using payload_chunks [of "kEdgeNodes ! i"] by (simp add: comp_def)
  moreover have "legal es b" using assms(1) by (simp add: assms(8) gather_facts send_facts receive_keeps)
  ultimately show ?thesis by blast
qed

theorem xrce_reordered_witness:
  "concat (map xrce_payload (filter (for_node 0) (sent (fst (bridge_run
     [Gather 0 (replicate 6 True) [0 \<mapsto> replicate 256 7], Send True 0, Receive None, Gather 1000000 (replicate 6 True) [0 \<mapsto> [1, 2]], Send True 1]
     (bridge_init ''/c'' Map.empty 0)))))) = replicate 248 7 @ [1, 2] @ replicate 8 7 \<and>
   replicate 248 7 @ [1, 2] @ replicate 8 7 \<noteq> replicate 256 7 @ [1, 2 :: u8]"
proof -
  have "concat (map xrce_payload (filter (for_node 0) (sent (fst (bridge_run
     [Gather 0 (replicate 6 True) [0 \<mapsto> replicate 256 7], Send True 0, Receive None, Gather 1000000 (replicate 6 True) [0 \<mapsto> [1, 2]], Send True 1]
     (bridge_init ''/c'' Map.empty 0)))))) = take 248 (replicate 256 7) @ [1, 2] @ drop 248 (replicate 256 7)"
    by (rule xrce_reordered [OF _ _ _ _ _ _ _ refl, THEN conjunct2]) (simp_all add: bridge_init_def)
  moreover have "last (replicate 248 7 @ [1, 2] @ replicate 8 7) \<noteq> last (replicate 256 7 @ [1, 2 :: u8])" by simp
  ultimately show ?thesis by (auto simp del: last_appendR)
qed

end
