(* ===== verification/Ps_Uros.thy ===== *)
theory Ps_Uros
  imports Ps_Can
begin

text \<open>
  The micro-ROS plane of an edge node, \<open>firmware/components/ps_uros/src/\<close>: the byte transport over XRCE frames
  (\<open>ps_uros_transport_can.c\<close>) and the session ladder (\<open>ps_uros_task.c\<close>), in the build with the client vendored. The FreeRTOS stream buffer
  is used through its operations, with what the code relies on as \<open>stream_ok\<close>; the answers of the rcl, rclc and rmw calls are inputs
  of a turn, the calls themselves its output.
\<close>

section \<open>Stream buffers\<close>

text \<open>Send without waiting, receive, reset.\<close>

record 'b stream_buffer =
  sb_send :: "'b \<Rightarrow> bytes \<Rightarrow> nat \<times> 'b"
  sb_receive :: "'b \<Rightarrow> nat \<Rightarrow> bytes \<times> 'b"
  sb_reset :: "'b \<Rightarrow> 'b"

text \<open>The documented behaviour: a byte FIFO of capacity \<open>cap\<close>; a send stores what fits and says how much.\<close>

definition stream_ok :: "'b stream_buffer \<Rightarrow> ('b \<Rightarrow> bytes) \<Rightarrow> nat \<Rightarrow> bool" where
  "stream_ok S view cap \<longleftrightarrow>
     (\<forall>b d. fst (sb_send S b d) = min (length d) (cap - length (view b)) \<and> view (snd (sb_send S b d)) = view b @ take (cap - length (view b)) d) \<and>
     (\<forall>b n. fst (sb_receive S b n) = take n (view b) \<and> view (snd (sb_receive S b n)) = drop n (view b)) \<and>
     (\<forall>b. view (sb_reset S b) = [])"

definition list_stream :: "nat \<Rightarrow> bytes stream_buffer" where
  "list_stream cap = \<lparr> sb_send = (\<lambda>b d. (min (length d) (cap - length b), b @ take (cap - length b) d)),
     sb_receive = (\<lambda>b n. (take n b, drop n b)), sb_reset = (\<lambda>b. []) \<rparr>"

lemma list_stream_ok: "stream_ok (list_stream cap) (\<lambda>b. b) cap"
  by (simp add: stream_ok_def list_stream_def)

section \<open>Transport\<close>

record ('w, 'b) uros_transport =
  ut_can :: 'w
  ut_node_id :: u8
  ut_rx :: 'b
  rx_overruns :: u32

definition xrce_rx :: "'b stream_buffer \<Rightarrow> ps_can_frame \<Rightarrow> ('w, 'b) uros_transport \<Rightarrow> ('w, 'b) uros_transport" where
  "xrce_rx S f t =
     (if f_dlc f = 0 then t
      else
        let (n, b) = sb_send S (ut_rx t) (take (unat (f_dlc f)) (f_data f)); t = t\<lparr>ut_rx := b\<rparr>
        in if n \<noteq> unat (f_dlc f) then t\<lparr>rx_overruns := rx_overruns t + 1\<rparr> else t)"

definition ps_uros_open :: "'b stream_buffer \<Rightarrow> ('w, 'b) uros_transport \<Rightarrow> bool \<times> ('w, 'b) uros_transport" where
  "ps_uros_open S t = (True, t\<lparr>ut_rx := sb_reset S (ut_rx t)\<rparr>)"

definition ps_uros_close :: "('w, 'b) uros_transport \<Rightarrow> bool \<times> ('w, 'b) uros_transport" where
  "ps_uros_close t = (True, t)"

definition xrce_frame :: "u32 \<Rightarrow> bytes \<Rightarrow> ps_can_frame" where
  "xrce_frame i chunk = \<lparr> f_id = i, f_dlc = of_nat (length chunk), f_data = chunk @ (if length chunk < 8 then replicate (8 - length chunk) 0 else []) \<rparr>"

fun uros_write_loop :: "('w \<Rightarrow> ps_can_frame \<Rightarrow> esp_err \<times> 'w) \<Rightarrow> u32 \<Rightarrow> bytes \<Rightarrow> 'w \<Rightarrow> nat \<times> 'w" where
  "uros_write_loop send i [] w = (0, w)"
| "uros_write_loop send i (x # xs) w =
     (let chunk = take 8 (x # xs); (err, w) = send w (xrce_frame i chunk)
      in if err \<noteq> ESP_OK then (0, w)
         else let (n, w) = uros_write_loop send i (drop 8 (x # xs)) w in (length chunk + n, w))"

text \<open>The result and the error byte.\<close>

definition ps_uros_write ::
    "('w \<Rightarrow> ps_can_frame \<Rightarrow> esp_err \<times> 'w) \<Rightarrow> bytes \<Rightarrow> ('w, 'b) uros_transport \<Rightarrow> (nat \<times> u8) \<times> ('w, 'b) uros_transport" where
  "ps_uros_write send buf t =
     (let i = ps_can_id_pack PS_CLS_XRCE (ut_node_id t) PS_NODE_ORCH PS_T_XRCE_STREAM 0;
          (written, w) = uros_write_loop send i buf (ut_can t)
      in ((written, if written = length buf then 0 else 1), t\<lparr>ut_can := w\<rparr>))"

definition ps_uros_read :: "'b stream_buffer \<Rightarrow> nat \<Rightarrow> ('w, 'b) uros_transport \<Rightarrow> (bytes \<times> u8) \<times> ('w, 'b) uros_transport" where
  "ps_uros_read S len t =
     (let (got, b) = sb_receive S (ut_rx t) len in ((got, if length got > 0 then 0 else 1), t\<lparr>ut_rx := b\<rparr>))"

section \<open>Session\<close>

datatype link_state = LINK_WAITING_AGENT | LINK_CONNECTED

record uros_session =
  us_state :: link_state
  since_ping_ms :: u32
  s_connected :: bool

text \<open>What the calls of a turn answer.\<close>

record uros_answers =
  ans_ping :: bool
  ans_support :: bool
  ans_node :: bool
  ans_executor :: bool

datatype uros_call =
    Support_init bool | Node_init bool | Executor_init bool | Create_entities | Destroy_entities | On_agent_state bool
  | Executor_fini | Node_fini | Support_fini | Spin_some u32 | Delay_ms u32

definition set_connected :: "bool \<Rightarrow> uros_session \<Rightarrow> uros_call list \<times> uros_session" where
  "set_connected up s = (if s_connected s \<noteq> up then ([On_agent_state up], s\<lparr>s_connected := up\<rparr>) else ([], s))"

abbreviation PING_PERIOD_MS :: u32 where "PING_PERIOD_MS \<equiv> 2000"

text \<open>The three initialisers, each called only when the one before succeeded.\<close>

definition session_inits :: "uros_answers \<Rightarrow> uros_call list \<times> bool" where
  "session_inits a =
     (if \<not> ans_support a then ([Support_init False], False)
      else if \<not> ans_node a then ([Support_init True, Node_init False], False)
      else ([Support_init True, Node_init True, Executor_init (ans_executor a)], ans_executor a))"

text \<open>\<open>destroy\<close>: whether the application registered \<open>destroy_entities\<close>.\<close>

definition session_turn :: "u32 \<Rightarrow> bool \<Rightarrow> uros_answers \<Rightarrow> uros_session \<Rightarrow> uros_call list \<times> uros_session" where
  "session_turn spin_ms destroy a s =
     (case us_state s of
        LINK_WAITING_AGENT \<Rightarrow>
          if ans_ping a then
            let (inits, ok) = session_inits a in
            if ok then
              let (c, s) = set_connected True s
              in (inits @ [Create_entities] @ c, s\<lparr>since_ping_ms := 0, us_state := LINK_CONNECTED\<rparr>)
            else (inits @ [Support_fini, Delay_ms 1000], s)
          else ([Delay_ms 500], s)
      | LINK_CONNECTED \<Rightarrow>
          let s = s\<lparr>since_ping_ms := since_ping_ms s + spin_ms\<rparr>; run = [Spin_some spin_ms, Delay_ms spin_ms] in
          if since_ping_ms s \<ge> PING_PERIOD_MS then
            let s = s\<lparr>since_ping_ms := 0\<rparr> in
            if \<not> ans_ping a then
              let (c, s) = set_connected False s
              in (run @ c @ (if destroy then [Destroy_entities] else []) @ [Executor_fini, Node_fini, Support_fini], s\<lparr>us_state := LINK_WAITING_AGENT\<rparr>)
            else (run, s)
          else (run, s))"

fun session_run :: "u32 \<Rightarrow> bool \<Rightarrow> uros_answers list \<Rightarrow> uros_session \<Rightarrow> uros_call list \<times> uros_session" where
  "session_run sp d [] s = ([], s)"
| "session_run sp d (a # as) s = (let (c1, s) = session_turn sp d a s; (c2, s) = session_run sp d as s in (c1 @ c2, s))"

definition session_init :: uros_session where
  "session_init = \<lparr> us_state = LINK_WAITING_AGENT, since_ping_ms = 0, s_connected = False \<rparr>"

text \<open>The configuration of the application, as far as it is checked, and the order of start-up.\<close>

record uros_config =
  uc_can_set :: bool
  uc_create_set :: bool
  uc_name_set :: bool
  uc_spin_period_ms :: u32

definition spin_ms_of :: "uros_config \<Rightarrow> u32" where
  "spin_ms_of c = (if uc_spin_period_ms c \<noteq> 0 then uc_spin_period_ms c else 10)"

text \<open>\<open>init\<close>, \<open>custom\<close>, \<open>task\<close>: what the transport, the middleware and the task creation answer.\<close>

definition ps_uros_start :: "esp_err \<Rightarrow> bool \<Rightarrow> bool \<Rightarrow> uros_config option \<Rightarrow> esp_err" where
  "ps_uros_start init custom task cfg =
     (case cfg of None \<Rightarrow> ESP_ERR_INVALID_ARG | Some c \<Rightarrow>
        if \<not> uc_can_set c \<or> \<not> uc_create_set c \<or> \<not> uc_name_set c then ESP_ERR_INVALID_ARG
        else if init \<noteq> ESP_OK then init
        else if \<not> custom then ESP_FAIL
        else if \<not> task then ESP_ERR_NO_MEM
        else ESP_OK)"

section \<open>What is written\<close>

lemma chunks8_full: "length ch = 8 \<Longrightarrow> chunks8 (ch @ ys) = ch # chunks8 ys"
  by (cases ch) simp_all

lemma chunks8_short: "0 < length ch \<Longrightarrow> length ch \<le> 8 \<Longrightarrow> chunks8 ch = [ch]"
  by (cases ch) simp_all

lemma xrce_image: "length ch \<le> 8 \<Longrightarrow> wire_image (xrce_frame i ch) = (i, ch)"
  by (simp add: wire_image_def xrce_frame_def unsigned_of_nat take_bit_nat_eq_self)

lemma length_xrce_frame: "length ch \<le> 8 \<Longrightarrow> length (f_data (xrce_frame i ch)) = 8"
  by (simp add: xrce_frame_def)

text \<open>The slices of what was written, after one more slice.\<close>

lemma chunks8_take:
  assumes "xs \<noteq> []" "m \<le> length (drop 8 xs)"
  shows "chunks8 (take (length (take 8 xs) + m) xs) = take 8 xs # chunks8 (take m (drop 8 xs))"
proof (cases "8 \<le> length xs")
  case True
  have "take (8 + m) xs = take 8 xs @ take m (drop 8 xs)" by (rule take_add)
  then show ?thesis using True chunks8_full [of "take 8 xs"] by (simp add: min_absorb2)
next
  case False
  then show ?thesis using assms by (simp add: chunks8_short)
qed

context can_port
begin

lemma write_outbox:
  "inv w \<Longrightarrow> uros_write_loop send i buf w = (n, w') \<Longrightarrow>
   inv w' \<and> n \<le> length buf \<and> (n = length buf \<or> 8 dvd n) \<and> outbox w' = outbox w + mset (map (Pair i) (chunks8 (take n buf)))"
proof (induction "length buf" arbitrary: buf w n w' rule: less_induct)
  case less
  show ?case
  proof (cases buf)
    case Nil
    then show ?thesis using less.prems by simp
  next
    case (Cons x xs)
    let ?ch = "take 8 buf"
    obtain err w1 where s: "send w (xrce_frame i ?ch) = (err, w1)" by (cases "send w (xrce_frame i ?ch)")
    have l: "length ?ch \<le> 8" by simp
    note one = inv_send [OF less.prems(1), of "xrce_frame i ?ch"] send_ok [OF less.prems(1) length_xrce_frame [OF l], of i]
      send_refused [OF less.prems(1), of "xrce_frame i ?ch"]
    obtain m w2 where r: "uros_write_loop send i (drop 8 buf) w1 = (m, w2)" by (cases "uros_write_loop send i (drop 8 buf) w1")
    have u: "uros_write_loop send i buf w = (if err \<noteq> ESP_OK then (0, w1) else (length ?ch + m, w2))"
      unfolding Cons uros_write_loop.simps Let_def using s r unfolding Cons by simp
    show ?thesis
    proof (cases "err = ESP_OK")
      case False
      then show ?thesis using less.prems(2) u one s by simp
    next
      case True
      have w1: "inv w1" "outbox w1 = add_mset (i, ?ch) (outbox w)" using one s True by (simp_all add: xrce_image [OF l])
      have "length (drop 8 buf) < length buf" using Cons by simp
      note ih = less.hyps [OF this w1(1) r]
      have n: "n = length ?ch + m" "w' = w2" using less.prems(2) u True by simp_all
      have m: "m \<le> length (drop 8 buf)" using ih by simp
      have "chunks8 (take n buf) = ?ch # chunks8 (take m (drop 8 buf))" unfolding n by (rule chunks8_take [OF _ m]) (simp add: Cons)
      moreover have "n = length buf \<or> 8 dvd n" using ih n(1) by (cases "8 \<le> length buf") (auto simp: min_def)
      moreover have "n \<le> length buf" using m n(1) by (simp add: min_def split: if_splits)
      ultimately show ?thesis using ih w1(2) n(2) by simp
    qed
  qed
qed

end

section \<open>The ladder\<close>

lemma run_snoc_split: "session_run sp d (a # as) s =
  (fst (session_turn sp d a s) @ fst (session_run sp d as (snd (session_turn sp d a s))), snd (session_run sp d as (snd (session_turn sp d a s))))"
  by (simp add: Let_def split_beta)

definition link_ok :: "uros_session \<Rightarrow> bool" where
  "link_ok s \<longleftrightarrow> (s_connected s \<longleftrightarrow> us_state s = LINK_CONNECTED)"

text \<open>The notifications of a list of calls, and the balance of what was initialised and finalised.\<close>

fun notified :: "uros_call list \<Rightarrow> bool list" where
  "notified [] = []"
| "notified (On_agent_state up # cs) = up # notified cs"
| "notified (_ # cs) = notified cs"

fun executors :: "uros_call list \<Rightarrow> int" where
  "executors [] = 0"
| "executors (Executor_init True # cs) = 1 + executors cs"
| "executors (Executor_fini # cs) = executors cs - 1"
| "executors (_ # cs) = executors cs"

fun nodes :: "uros_call list \<Rightarrow> int" where
  "nodes [] = 0"
| "nodes (Node_init True # cs) = 1 + nodes cs"
| "nodes (Node_fini # cs) = nodes cs - 1"
| "nodes (_ # cs) = nodes cs"

definition lost_nodes :: "uros_call list \<Rightarrow> int" where
  "lost_nodes cs = int (count_list cs (Executor_init False))"

lemma notified_append [simp]: "notified (xs @ ys) = notified xs @ notified ys"
  by (induction xs rule: notified.induct) auto

lemma executors_append [simp]: "executors (xs @ ys) = executors xs + executors ys"
  by (induction xs rule: executors.induct) auto

lemma nodes_append [simp]: "nodes (xs @ ys) = nodes xs + nodes ys"
  by (induction xs rule: nodes.induct) auto

lemma lost_append [simp]: "lost_nodes (xs @ ys) = lost_nodes xs + lost_nodes ys"
  by (simp add: lost_nodes_def)

definition up :: "uros_session \<Rightarrow> int" where
  "up s = (if us_state s = LINK_CONNECTED then 1 else 0)"

lemma turn_facts:
  assumes "link_ok s" "session_turn sp d a s = (cs, s')"
  shows "link_ok s' \<and> executors cs = up s' - up s \<and> nodes cs = up s' - up s + lost_nodes cs \<and>
    notified cs = (if s_connected s = s_connected s' then [] else [s_connected s'])"
  using assms
  by (cases "us_state s")
     (auto simp: session_turn_def session_inits_def set_connected_def link_ok_def up_def lost_nodes_def Let_def split: if_splits)

text \<open>Notifications alternate.\<close>

fun alternating :: "bool \<Rightarrow> bool list \<Rightarrow> bool" where
  "alternating u [] \<longleftrightarrow> True"
| "alternating u (x # xs) \<longleftrightarrow> x = u \<and> alternating (\<not> u) xs"

lemma run_facts:
  "link_ok s \<Longrightarrow> session_run sp d as s = (cs, s') \<Longrightarrow>
   link_ok s' \<and> executors cs = up s' - up s \<and> nodes cs = up s' - up s + lost_nodes cs \<and> alternating (\<not> s_connected s) (notified cs)"
proof (induction as arbitrary: s cs s')
  case Nil
  then show ?case by (simp add: lost_nodes_def)
next
  case (Cons a as)
  obtain c1 s1 where t: "session_turn sp d a s = (c1, s1)" by (cases "session_turn sp d a s")
  obtain c2 s2 where r: "session_run sp d as s1 = (c2, s2)" by (cases "session_run sp d as s1")
  note f = turn_facts [OF Cons.prems(1) t]
  note g = Cons.IH [OF conjunct1 [OF f] r]
  have "cs = c1 @ c2" "s' = s2" using Cons.prems(2) t r by simp_all
  then show ?case using f g by (auto split: if_splits)
qed

lemma waiting_stays:
  "us_state s = LINK_WAITING_AGENT \<Longrightarrow> \<forall>a \<in> set as. \<not> ans_ping a \<Longrightarrow> us_state (snd (session_run sp d as s)) = LINK_WAITING_AGENT"
  by (induction as arbitrary: s) (simp_all add: run_snoc_split session_turn_def del: session_run.simps(2))

lemma loss_detected:
  assumes "unat sp < 2 ^ 31"
  shows "us_state s = LINK_CONNECTED \<Longrightarrow> unat (since_ping_ms s) < 2000 \<Longrightarrow> \<forall>a \<in> set as. \<not> ans_ping a \<Longrightarrow>
    if 2000 \<le> unat (since_ping_ms s) + unat sp * length as then us_state (snd (session_run sp d as s)) = LINK_WAITING_AGENT
    else us_state (snd (session_run sp d as s)) = LINK_CONNECTED \<and>
      fst (session_run sp d as s) = concat (replicate (length as) [Spin_some sp, Delay_ms sp])"
proof (induction as arbitrary: s)
  case (Cons a as)
  let ?s = "snd (session_turn sp d a s)"
  have w: "unat (since_ping_ms s + sp) = unat (since_ping_ms s) + unat sp" using assms Cons.prems(2) by (simp add: unat_word_ariths)
  have na: "\<not> ans_ping a" "\<forall>a \<in> set as. \<not> ans_ping a" using Cons.prems(3) by simp_all
  show ?case
  proof (cases "2000 \<le> unat (since_ping_ms s) + unat sp")
    case True
    then have "us_state ?s = LINK_WAITING_AGENT"
      using Cons.prems(1) na w by (simp add: session_turn_def Let_def word_le_nat_alt split_beta)
    from waiting_stays [OF this na(2)] show ?thesis using True by (simp add: run_snoc_split del: session_run.simps)
  next
    case False
    then have "us_state ?s = LINK_CONNECTED" "since_ping_ms ?s = since_ping_ms s + sp" "fst (session_turn sp d a s) = [Spin_some sp, Delay_ms sp]"
      using Cons.prems(1) w by (simp_all add: session_turn_def Let_def word_le_nat_alt)
    then show ?thesis using Cons.IH [of ?s] False w na(2) by (simp add: run_snoc_split add.assoc del: session_run.simps)
  qed
qed simp

section \<open>Properties\<close>

text \<open>A write hands the CAN transport a prefix of the buffer, in slices of eight: what the transport has accepted afterwards is what it had, plus the
  slices of the first \<open>n\<close> bytes, where \<open>n\<close> is the returned count; the count is the whole length or a multiple of eight, and the error byte is 0 exactly
  when everything was taken.\<close>

lemma uros_write_prefix:
  assumes "can_ctx_ok Q view (ut_can t)" "ps_uros_write (ps_can_send Q g) buf t = ((n, err), t')"
  shows "can_ctx_ok Q view (ut_can t') \<and> n \<le> length buf \<and> (n = length buf \<or> 8 dvd n) \<and> (err = 0 \<longleftrightarrow> n = length buf) \<and>
    queued (ut_can t') = queued (ut_can t) +
      mset (map (Pair (ps_can_id_pack PS_CLS_XRCE (ut_node_id t) PS_NODE_ORCH PS_T_XRCE_STREAM 0)) (chunks8 (take n buf)))"
proof -
  let ?i = "ps_can_id_pack PS_CLS_XRCE (ut_node_id t) PS_NODE_ORCH PS_T_XRCE_STREAM 0"
  obtain w where w: "uros_write_loop (ps_can_send Q g) ?i buf (ut_can t) = (n, w)" "t' = t\<lparr>ut_can := w\<rparr>" "err = (if n = length buf then 0 else 1)"
    using assms(2) by (auto simp: ps_uros_write_def Let_def split: prod.splits)
  from ps_can.write_outbox [OF assms(1) w(1)] show ?thesis using w(2,3) by simp
qed

text \<open>Claim C35. The session ladder keeps its books: over every run the connected flag says whether a session is up, the application hears up and down in turn
  starting with up, exactly one executor is live while connected and none otherwise; and a node object is lost each time the executor's initialiser fails after the
  node's succeeded, because only the support object is finalised on that path.\<close>

theorem session_ladder:
  assumes "session_run sp d as session_init = (cs, s)"
  shows "(s_connected s \<longleftrightarrow> us_state s = LINK_CONNECTED) \<and> alternating True (notified cs) \<and>
    executors cs = (if s_connected s then 1 else 0) \<and> nodes cs = (if s_connected s then 1 else 0) + int (count_list cs (Executor_init False))"
  using run_facts [OF _ assms] by (simp add: link_ok_def session_init_def up_def lost_nodes_def)

theorem session_ladder_witness:
  "nodes (fst (session_run 10 False [\<lparr> ans_ping = True, ans_support = True, ans_node = True, ans_executor = False \<rparr>] session_init)) = 1"
  using session_ladder [OF prod.collapse [symmetric], of 10 False "[\<lparr> ans_ping = True, ans_support = True, ans_node = True, ans_executor = False \<rparr>]"]
  by (simp add: session_init_def session_turn_def session_inits_def)

text \<open>Claim C36. A lost agent is noticed by the next ping, and not before: when the agent stops answering, a connected session is torn down in exactly the round
  in which the spin periods counted since the last ping reach 2000 ms, and stays down until it answers again. Every round before that one only spins and
  delays, each for a spin period, of which the counter sees one: on the clock the agent may be gone for up to twice the ping period.\<close>

theorem session_detects_loss:
  assumes "unat sp < 2 ^ 31" "us_state s = LINK_CONNECTED" "since_ping_ms s < PING_PERIOD_MS" "\<forall>a \<in> set as. \<not> ans_ping a"
  shows "us_state (snd (session_run sp d as s)) =
      (if 2000 \<le> unat (since_ping_ms s) + unat sp * length as then LINK_WAITING_AGENT else LINK_CONNECTED) \<and>
    (unat (since_ping_ms s) + unat sp * length as < 2000 \<longrightarrow>
      fst (session_run sp d as s) = concat (replicate (length as) [Spin_some sp, Delay_ms sp]))"
  using loss_detected [OF assms(1,2) _ assms(4), of d] assms(3) by (simp add: word_less_nat_alt split: if_splits)

theorem session_detects_loss_witness:
  "let gone = \<lparr> ans_ping = False, ans_support = True, ans_node = True, ans_executor = True \<rparr>;
       s = \<lparr> us_state = LINK_CONNECTED, since_ping_ms = 0, s_connected = True \<rparr>
   in us_state (snd (session_run 10 False (replicate 199 gone) s)) = LINK_CONNECTED \<and>
      us_state (snd (session_run 10 False (replicate 200 gone) s)) = LINK_WAITING_AGENT"
proof -
  let ?gone = "\<lparr> ans_ping = False, ans_support = True, ans_node = True, ans_executor = True \<rparr>"
  let ?s = "\<lparr> us_state = LINK_CONNECTED, since_ping_ms = 0, s_connected = True \<rparr>"
  have "us_state (snd (session_run 10 False (replicate n ?gone) ?s)) = (if 2000 \<le> 10 * n then LINK_WAITING_AGENT else LINK_CONNECTED)" for n
    using session_detects_loss [of 10 ?s "replicate n ?gone" False] by simp
  then show ?thesis unfolding Let_def by simp
qed

end
